(* ===== verification/Prelude.thy ===== *)
theory Prelude
  imports Main
begin

text \<open>
  Shared vocabulary of the development: the result of a Go computation (a value, a run-time
  panic, or exhausted fuel of a recursion that need not end), computations that thread a state,
  and a small frame calculus for them. A goroutine body or a function with side effects is a
  value of type \<open>('w, 'a) io\<close>; a panic keeps the state it was raised in, because effects made
  before a panic (requests sent, messages produced) stay made.
\<close>

named_theorems io_simps "evaluation rules for computations"
named_theorems frame_rules "rules that establish frame conditions"
named_theorems inv_rules "rules that establish invariants"

section \<open>Results\<close>

datatype panic =
    NilDereference
  | IndexOutOfRange
  | SliceOutOfRange
  | TypeAssertion
  | ExplicitPanic string

datatype 'a res = Ret 'a | Panic panic | NoFuel

primrec map_res :: "('a \<Rightarrow> 'b) \<Rightarrow> 'a res \<Rightarrow> 'b res" where
  "map_res f (Ret x) = Ret (f x)"
| "map_res f (Panic p) = Panic p"
| "map_res f NoFuel = NoFuel"

primrec bind_res :: "'a res \<Rightarrow> ('a \<Rightarrow> 'b res) \<Rightarrow> 'b res" where
  "bind_res (Ret x) f = f x"
| "bind_res (Panic p) f = Panic p"
| "bind_res NoFuel f = NoFuel"

primrec is_Ret :: "'a res \<Rightarrow> bool" where
  "is_Ret (Ret x) = True"
| "is_Ret (Panic p) = False"
| "is_Ret NoFuel = False"

lemma bind_res_eq_Ret [simp]:
  "bind_res m f = Ret y \<longleftrightarrow> (\<exists>x. m = Ret x \<and> f x = Ret y)"
  by (cases m) auto

lemma map_res_eq_Ret [simp]:
  "map_res f m = Ret y \<longleftrightarrow> (\<exists>x. m = Ret x \<and> y = f x)"
  by (cases m) auto

lemma is_Ret_iff: "is_Ret m \<longleftrightarrow> (\<exists>x. m = Ret x)"
  by (cases m) auto

section \<open>Computations\<close>

type_synonym ('w, 'a) io = "'w \<Rightarrow> 'a res \<times> 'w"

definition return :: "'a \<Rightarrow> ('w, 'a) io" where
  "return x = (\<lambda>w. (Ret x, w))"

definition bindIO :: "('w, 'a) io \<Rightarrow> ('a \<Rightarrow> ('w, 'b) io) \<Rightarrow> ('w, 'b) io" where
  "bindIO m f = (\<lambda>w. case m w of
      (Ret x, w') \<Rightarrow> f x w'
    | (Panic p, w') \<Rightarrow> (Panic p, w')
    | (NoFuel, w') \<Rightarrow> (NoFuel, w'))"

definition thenIO :: "('w, 'a) io \<Rightarrow> ('w, 'b) io \<Rightarrow> ('w, 'b) io" where
  "thenIO m n = bindIO m (\<lambda>_. n)"

definition panicIO :: "panic \<Rightarrow> ('w, 'a) io" where
  "panicIO p = (\<lambda>w. (Panic p, w))"

definition getsIO :: "('w \<Rightarrow> 'a) \<Rightarrow> ('w, 'a) io" where
  "getsIO f = (\<lambda>w. (Ret (f w), w))"

definition modifyIO :: "('w \<Rightarrow> 'w) \<Rightarrow> ('w, unit) io" where
  "modifyIO f = (\<lambda>w. (Ret (), f w))"

definition liftIO :: "'a res \<Rightarrow> ('w, 'a) io" where
  "liftIO r = (\<lambda>w. (r, w))"

primrec forIO :: "('a \<Rightarrow> ('w, unit) io) \<Rightarrow> 'a list \<Rightarrow> ('w, unit) io" where
  "forIO f [] = return ()"
| "forIO f (x # xs) = thenIO (f x) (forIO f xs)"

lemma return_run [io_simps, simp]: "return x w = (Ret x, w)"
  by (simp add: return_def)

lemma panicIO_run [io_simps, simp]: "panicIO p w = (Panic p, w)"
  by (simp add: panicIO_def)

lemma getsIO_run [io_simps, simp]: "getsIO f w = (Ret (f w), w)"
  by (simp add: getsIO_def)

lemma modifyIO_run [io_simps, simp]: "modifyIO f w = (Ret (), f w)"
  by (simp add: modifyIO_def)

lemma liftIO_run [io_simps, simp]: "liftIO r w = (r, w)"
  by (simp add: liftIO_def)

lemma bindIO_Ret [io_simps]: "m w = (Ret x, w') \<Longrightarrow> bindIO m f w = f x w'"
  by (simp add: bindIO_def)

lemma bindIO_Panic [io_simps]: "m w = (Panic p, w') \<Longrightarrow> bindIO m f w = (Panic p, w')"
  by (simp add: bindIO_def)

lemma bindIO_return [simp]: "bindIO (return x) f = f x"
  by (simp add: fun_eq_iff bindIO_def)

lemma bindIO_panic [simp]: "bindIO (panicIO p) f = panicIO p"
  by (simp add: fun_eq_iff bindIO_def)

lemma bindIO_Pair_Ret [simp]: "bindIO (Pair (Ret x)) f = f x"
  by (simp add: fun_eq_iff bindIO_def)

lemma bindIO_Pair_Panic [simp]: "bindIO (Pair (Panic p)) f = Pair (Panic p)"
  by (simp add: fun_eq_iff bindIO_def)

lemma bindIO_gets [simp]: "bindIO (getsIO g) f w = f (g w) w"
  by (simp add: bindIO_def)

lemma bindIO_modify [simp]: "bindIO (modifyIO g) f w = f () (g w)"
  by (simp add: bindIO_def)

lemma bindIO_assoc: "bindIO (bindIO m f) g = bindIO m (\<lambda>x. bindIO (f x) g)"
  by (auto simp: bindIO_def fun_eq_iff split: prod.splits res.splits)

lemma bindIO_eq_Ret:
  "bindIO m f w = (Ret y, w'') \<longleftrightarrow> (\<exists>x w'. m w = (Ret x, w') \<and> f x w' = (Ret y, w''))"
  by (auto simp: bindIO_def split: prod.splits res.splits)

lemma thenIO_eq_Ret:
  "thenIO m n w = (Ret y, w'') \<longleftrightarrow> (\<exists>x w'. m w = (Ret x, w') \<and> n w' = (Ret y, w''))"
  by (simp add: thenIO_def bindIO_eq_Ret)

lemma bindIO_cases:
  assumes "bindIO m f w = (r, w'')"
  obtains (ret) x w' where "m w = (Ret x, w')" "f x w' = (r, w'')"
    | (panic) p where "m w = (Panic p, w'')" "r = Panic p"
    | (nofuel) "m w = (NoFuel, w'')" "r = NoFuel"
  using assms by (auto simp: bindIO_def split: prod.splits res.splits)

lemma forIO_append: "forIO f (xs @ ys) = thenIO (forIO f xs) (forIO f ys)"
  by (induction xs) (simp_all add: thenIO_def bindIO_assoc)

section \<open>Frame conditions\<close>

text \<open>
  \<open>keeps g m\<close>: the computation never changes the part \<open>g\<close> of the state, whether it returns
  or panics. \<open>always I m\<close>: it keeps the invariant \<open>I\<close>.
\<close>

definition keeps :: "('w \<Rightarrow> 'b) \<Rightarrow> ('w, 'a) io \<Rightarrow> bool" where
  "keeps g m \<longleftrightarrow> (\<forall>w. g (snd (m w)) = g w)"

definition always :: "('w \<Rightarrow> bool) \<Rightarrow> ('w, 'a) io \<Rightarrow> bool" where
  "always I m \<longleftrightarrow> (\<forall>w. I w \<longrightarrow> I (snd (m w)))"

lemma keepsD: "keeps g m \<Longrightarrow> m w = (r, w') \<Longrightarrow> g w' = g w"
  by (metis keeps_def snd_conv)

lemma keepsI: "(\<And>w r w'. m w = (r, w') \<Longrightarrow> g w' = g w) \<Longrightarrow> keeps g m"
  by (simp add: keeps_def) (metis prod.collapse)

lemma alwaysD: "always I m \<Longrightarrow> I w \<Longrightarrow> m w = (r, w') \<Longrightarrow> I w'"
  by (metis always_def snd_conv)

lemma alwaysI: "(\<And>w r w'. I w \<Longrightarrow> m w = (r, w') \<Longrightarrow> I w') \<Longrightarrow> always I m"
  by (simp add: always_def) (metis prod.collapse)

lemma keeps_return [frame_rules, simp]: "keeps g (return x)"
  by (simp add: keeps_def)

lemma keeps_panic [frame_rules, simp]: "keeps g (panicIO p)"
  by (simp add: keeps_def)

lemma keeps_gets [frame_rules, simp]: "keeps g (getsIO h)"
  by (simp add: keeps_def)

lemma keeps_lift [frame_rules, simp]: "keeps g (liftIO r)"
  by (simp add: keeps_def)

lemma keeps_Pair [frame_rules, simp]: "keeps g (Pair r)"
  by (simp add: keeps_def)

lemma keeps_modify [frame_rules]: "(\<And>w. g (h w) = g w) \<Longrightarrow> keeps g (modifyIO h)"
  by (simp add: keeps_def)

lemma keeps_bind [frame_rules]:
  assumes "keeps g m" and "\<And>x. keeps g (f x)"
  shows "keeps g (bindIO m f)"
proof (rule keepsI)
  fix w r w'' assume "bindIO m f w = (r, w'')"
  then show "g w'' = g w"
    by (cases rule: bindIO_cases) (metis assms keepsD)+
qed

lemma keeps_then [frame_rules]: "keeps g m \<Longrightarrow> keeps g n \<Longrightarrow> keeps g (thenIO m n)"
  unfolding thenIO_def by (rule keeps_bind)

lemma keeps_for [frame_rules]: "(\<And>x. keeps g (f x)) \<Longrightarrow> keeps g (forIO f xs)"
  by (induction xs) (auto intro: keeps_then)

lemma keeps_if [frame_rules]:
  "(b \<Longrightarrow> keeps g m) \<Longrightarrow> (\<not> b \<Longrightarrow> keeps g n) \<Longrightarrow> keeps g (if b then m else n)"
  by simp

lemma keeps_case_option [frame_rules]:
  "keeps g m \<Longrightarrow> (\<And>x. keeps g (f x)) \<Longrightarrow> keeps g (case x of None \<Rightarrow> m | Some y \<Rightarrow> f y)"
  by (cases x) auto

lemma keeps_case_sum [frame_rules]:
  "(\<And>x. keeps g (f x)) \<Longrightarrow> (\<And>y. keeps g (h y)) \<Longrightarrow>
    keeps g (case s of Inl x \<Rightarrow> f x | Inr y \<Rightarrow> h y)"
  by (cases s) auto

lemma keeps_case_prod [frame_rules]:
  "(\<And>x y. keeps g (f x y)) \<Longrightarrow> keeps g (case p of (x, y) \<Rightarrow> f x y)"
  by (cases p) auto

lemma keeps_comp:
  "keeps g m \<Longrightarrow> keeps (\<lambda>w. h (g w)) m"
  by (simp add: keeps_def)

lemma always_keeps: "keeps g m \<Longrightarrow> always (\<lambda>w. P (g w)) m"
  by (simp add: keeps_def always_def)

lemma always_return [inv_rules, simp]: "always I (return x)"
  by (simp add: always_def)

lemma always_panic [inv_rules, simp]: "always I (panicIO p)"
  by (simp add: always_def)

lemma always_gets [inv_rules, simp]: "always I (getsIO h)"
  by (simp add: always_def)

lemma always_Pair [inv_rules, simp]: "always I (Pair r)"
  by (simp add: always_def)

lemma always_modify [inv_rules]: "(\<And>w. I w \<Longrightarrow> I (h w)) \<Longrightarrow> always I (modifyIO h)"
  by (simp add: always_def)

lemma always_bind [inv_rules]:
  assumes "always I m" and "\<And>x. always I (f x)"
  shows "always I (bindIO m f)"
proof (rule alwaysI)
  fix w r w'' assume "I w" "bindIO m f w = (r, w'')"
  from this(2) show "I w''"
    by (cases rule: bindIO_cases) (use assms \<open>I w\<close> in \<open>auto dest: alwaysD\<close>)
qed

lemma always_then [inv_rules]: "always I m \<Longrightarrow> always I n \<Longrightarrow> always I (thenIO m n)"
  unfolding thenIO_def by (rule always_bind)

lemma always_for [inv_rules]: "(\<And>x. always I (f x)) \<Longrightarrow> always I (forIO f xs)"
proof (induction xs)
  case Nil
  show ?case by (simp add: always_def)
next
  case (Cons x xs)
  then show ?case by (simp add: always_then)
qed

lemma always_if [inv_rules]:
  "(b \<Longrightarrow> always I m) \<Longrightarrow> (\<not> b \<Longrightarrow> always I n) \<Longrightarrow> always I (if b then m else n)"
  by simp

lemma always_case_option [inv_rules]:
  "always I m \<Longrightarrow> (\<And>x. always I (f x)) \<Longrightarrow> always I (case x of None \<Rightarrow> m | Some y \<Rightarrow> f y)"
  by (cases x) auto

lemma always_case_sum [inv_rules]:
  "(\<And>x. always I (f x)) \<Longrightarrow> (\<And>y. always I (h y)) \<Longrightarrow>
    always I (case s of Inl x \<Rightarrow> f x | Inr y \<Rightarrow> h y)"
  by (cases s) auto

lemma always_case_prod [inv_rules]:
  "(\<And>x y. always I (f x y)) \<Longrightarrow> always I (case p of (x, y) \<Rightarrow> f x y)"
  by (cases p) auto

section \<open>Lists and options\<close>

lemma find_append: "find P (xs @ ys) = (case find P xs of None \<Rightarrow> find P ys | Some x \<Rightarrow> Some x)"
  by (induction xs) auto

lemma find_None_iff_all: "find P xs = None \<longleftrightarrow> (\<forall>x\<in>set xs. \<not> P x)"
  by (induction xs) auto

lemma find_SomeD: "find P xs = Some x \<Longrightarrow> x \<in> set xs \<and> P x"
  by (induction xs) (auto split: if_splits)

lemma find_unique:
  assumes "x \<in> set xs" "P x" "\<And>y. y \<in> set xs \<Longrightarrow> P y \<Longrightarrow> y = x"
  shows "find P xs = Some x"
proof (cases "find P xs")
  case None
  with assms(1,2) show ?thesis by (auto simp: find_None_iff_all)
next
  case (Some y)
  with assms(3) show ?thesis by (auto dest: find_SomeD)
qed

end
