(* ===== verification/GoStrings.thy ===== *)
theory GoStrings
  imports Prelude "HOL-Library.Char_ord" "HOL-Library.List_Lexorder"
begin

text \<open>
  The parts of Go's packages \<^verbatim>\<open>strings\<close>, \<^verbatim>\<open>strconv\<close>, \<^verbatim>\<open>path\<close> and \<^verbatim>\<open>path/filepath\<close> that the
  collector calls. A Go string is a sequence of bytes and so is an Isabelle \<open>string\<close>. Case
  mapping, white space and digits are those of ASCII: bytes from 128 on are kept as they are.
\<close>

section \<open>Package strings\<close>

definition HasPrefix :: "string \<Rightarrow> string \<Rightarrow> bool" where
  "HasPrefix s p \<longleftrightarrow> take (length p) s = p"

definition HasSuffix :: "string \<Rightarrow> string \<Rightarrow> bool" where
  "HasSuffix s p \<longleftrightarrow> length p \<le> length s \<and> drop (length s - length p) s = p"

fun Contains :: "string \<Rightarrow> string \<Rightarrow> bool" where
  "Contains [] sub = (sub = [])"
| "Contains (c # s) sub = (HasPrefix (c # s) sub \<or> Contains s sub)"

definition TrimPrefix :: "string \<Rightarrow> string \<Rightarrow> string" where
  "TrimPrefix s p = (if HasPrefix s p then drop (length p) s else s)"

text \<open>\<^verbatim>\<open>strings.Split\<close> at a separator of one byte: never an empty list.\<close>

fun Split :: "string \<Rightarrow> char \<Rightarrow> string list" where
  "Split [] sep = [[]]"
| "Split (c # s) sep =
     (if c = sep then [] # Split s sep
      else case Split s sep of p # ps \<Rightarrow> (c # p) # ps | [] \<Rightarrow> [[c]])"

fun Join :: "string list \<Rightarrow> char \<Rightarrow> string" where
  "Join [] sep = []"
| "Join [x] sep = x"
| "Join (x # y # ys) sep = x @ sep # Join (y # ys) sep"

text \<open>\<^verbatim>\<open>strings.FieldsFunc\<close>: the maximal runs of characters that are not separators.\<close>

fun fields_acc :: "(char \<Rightarrow> bool) \<Rightarrow> string \<Rightarrow> string \<Rightarrow> string list" where
  "fields_acc f acc [] = (if acc = [] then [] else [rev acc])"
| "fields_acc f acc (c # s) =
     (if f c then (if acc = [] then fields_acc f [] s else rev acc # fields_acc f [] s)
      else fields_acc f (c # acc) s)"

definition FieldsFunc :: "string \<Rightarrow> (char \<Rightarrow> bool) \<Rightarrow> string list" where
  "FieldsFunc s f = fields_acc f [] s"

definition isSpace :: "char \<Rightarrow> bool" where
  "isSpace c \<longleftrightarrow> of_char c \<in> {9, 10, 11, 12, 13, 32 :: nat}"

definition Fields :: "string \<Rightarrow> string list" where
  "Fields s = FieldsFunc s isSpace"

definition TrimSpace :: "string \<Rightarrow> string" where
  "TrimSpace s = rev (dropWhile isSpace (rev (dropWhile isSpace s)))"

definition toLower :: "char \<Rightarrow> char" where
  "toLower c = (if 65 \<le> (of_char c :: nat) \<and> (of_char c :: nat) \<le> 90 then char_of ((of_char c :: nat) + 32) else c)"

definition toUpper :: "char \<Rightarrow> char" where
  "toUpper c = (if 97 \<le> (of_char c :: nat) \<and> (of_char c :: nat) \<le> 122 then char_of ((of_char c :: nat) - 32) else c)"

definition ToLower :: "string \<Rightarrow> string" where
  "ToLower s = map toLower s"

definition ToUpper :: "string \<Rightarrow> string" where
  "ToUpper s = map toUpper s"

definition EqualFold :: "string \<Rightarrow> string \<Rightarrow> bool" where
  "EqualFold s t \<longleftrightarrow> ToLower s = ToLower t"

section \<open>Package strconv\<close>

definition isDigit :: "char \<Rightarrow> bool" where
  "isDigit c \<longleftrightarrow> 48 \<le> (of_char c :: nat) \<and> (of_char c :: nat) \<le> 57"

definition digitVal :: "char \<Rightarrow> nat" where
  "digitVal c = of_char c - 48"

definition digitChar :: "nat \<Rightarrow> char" where
  "digitChar d = char_of (48 + d)"

fun showNat :: "nat \<Rightarrow> string" where
  "showNat n = (if n < 10 then [digitChar n] else showNat (n div 10) @ [digitChar (n mod 10)])"

declare showNat.simps [simp del]

definition Itoa :: "int \<Rightarrow> string" where
  "Itoa i = (if i < 0 then CHR ''-'' # showNat (nat (- i)) else showNat (nat i))"

datatype num_error = ErrSyntax | ErrRange

text \<open>
  \<^verbatim>\<open>strconv.ParseUint(s, 10, bits)\<close>: the value returned beside an error is 0 for a syntax error
  and the largest value for a range error; callers of the collector ignore the error.
\<close>

fun parse_uint_loop :: "nat \<Rightarrow> nat \<Rightarrow> string \<Rightarrow> nat \<times> num_error option" where
  "parse_uint_loop mx n [] = (n, None)"
| "parse_uint_loop mx n (c # s) =
     (if \<not> isDigit c then (0, Some ErrSyntax)
      else let n1 = n * 10 + digitVal c
           in if n1 > mx then (mx, Some ErrRange) else parse_uint_loop mx n1 s)"

definition ParseUint :: "string \<Rightarrow> nat \<Rightarrow> nat \<times> num_error option" where
  "ParseUint s bits = (if s = [] then (0, Some ErrSyntax) else parse_uint_loop (2 ^ bits - 1) 0 s)"

section \<open>Packages path and path/filepath\<close>

definition filepathBase :: "string \<Rightarrow> string" where
  "filepathBase p =
     (if p = [] then ''.''
      else let q = rev (dropWhile (\<lambda>c. c = CHR ''/'') (rev p))
           in if q = [] then ''/'' else last (Split q (CHR ''/'')))"

fun clean_step :: "bool \<Rightarrow> string list \<Rightarrow> string \<Rightarrow> string list" where
  "clean_step rooted stack seg =
     (if seg = [] \<or> seg = ''.'' then stack
      else if seg = ''..'' then
        (case stack of
           prev # rest \<Rightarrow> if prev \<noteq> ''..'' then rest else ''..'' # stack
         | [] \<Rightarrow> if rooted then [] else [''..''])
      else seg # stack)"

definition pathClean :: "string \<Rightarrow> string" where
  "pathClean p =
     (if p = [] then ''.''
      else let rooted = (hd p = CHR ''/'');
               out = Join (rev (foldl (clean_step rooted) [] (Split p (CHR ''/'')))) (CHR ''/'')
           in if rooted then CHR ''/'' # out else if out = [] then ''.'' else out)"

definition pathJoin :: "string \<Rightarrow> string \<Rightarrow> string" where
  "pathJoin a b =
     (if a = [] \<and> b = [] then []
      else if a = [] then pathClean b
      else pathClean (a @ CHR ''/'' # b))"

section \<open>Lemmas\<close>

lemma HasPrefix_append [simp]: "HasPrefix (p @ s) p"
  by (simp add: HasPrefix_def)

lemma HasPrefix_iff: "HasPrefix s p \<longleftrightarrow> (\<exists>t. s = p @ t)"
  by (metis HasPrefix_append HasPrefix_def append_take_drop_id)

lemma HasSuffix_append [simp]: "HasSuffix (s @ p) p"
  by (simp add: HasSuffix_def)

lemma HasSuffix_iff: "HasSuffix s p \<longleftrightarrow> (\<exists>t. s = t @ p)"
  by (metis HasSuffix_append HasSuffix_def append_take_drop_id)

lemma HasPrefix_trans: "HasPrefix s (p @ q) \<Longrightarrow> HasPrefix s p"
  by (auto simp: HasPrefix_iff)

lemma HasSuffix_disjoint:
  assumes "HasSuffix s p" "HasSuffix s q" "length p = length q"
  shows "p = q"
  using assms by (simp add: HasSuffix_def)

lemma HasPrefix_disjoint:
  assumes "HasPrefix s p" "HasPrefix s q" "length p = length q"
  shows "p = q"
  using assms by (simp add: HasPrefix_def)

lemma Contains_iff: "Contains s sub \<longleftrightarrow> (\<exists>a b. s = a @ sub @ b)"
proof (induction s)
  case Nil
  show ?case by simp
next
  case (Cons c s)
  show ?case
  proof
    assume "Contains (c # s) sub"
    then consider "HasPrefix (c # s) sub" | "Contains s sub" by auto
    then show "\<exists>a b. c # s = a @ sub @ b"
    proof cases
      case 1
      then show ?thesis by (metis HasPrefix_iff append_Nil)
    next
      case 2
      then show ?thesis using Cons.IH by (metis append_Cons)
    qed
  next
    assume "\<exists>a b. c # s = a @ sub @ b"
    then obtain a b where ab: "c # s = a @ sub @ b" by blast
    then show "Contains (c # s) sub"
    proof (cases a)
      case Nil
      with ab have "HasPrefix (c # s) sub" by (simp add: HasPrefix_iff)
      then show ?thesis by simp
    next
      case (Cons d a')
      with ab Cons.IH show ?thesis by auto
    qed
  qed
qed

lemma Split_not_Nil [simp]: "Split s sep \<noteq> []"
  by (induction s) (auto split: list.splits)

lemma Join_Cons: "ys \<noteq> [] \<Longrightarrow> Join (x # ys) sep = x @ sep # Join ys sep"
  by (cases ys) auto

lemma Join_Cons_head: "Join ((c # p) # ps) sep = c # Join (p # ps) sep"
  by (cases ps) auto

lemma Join_Split [simp]: "Join (Split s sep) sep = s"
proof (induction s)
  case Nil
  show ?case by simp
next
  case (Cons c s)
  show ?case
  proof (cases "c = sep")
    case True
    with Cons show ?thesis by (simp add: Join_Cons)
  next
    case False
    obtain p ps where ps: "Split s sep = p # ps" by (cases "Split s sep") auto
    with False Cons show ?thesis by (simp add: Join_Cons_head)
  qed
qed

lemma Split_no_sep: "p \<in> set (Split s sep) \<Longrightarrow> sep \<notin> set p"
proof (induction s arbitrary: p)
  case Nil
  then show ?case by simp
next
  case (Cons c s)
  obtain q qs where q: "Split s sep = q # qs" by (cases "Split s sep") auto
  from Cons.IH[of q] Cons.IH[of p] Cons.prems q show ?case
    by (auto split: if_splits)
qed

lemma Split_plain: "sep \<notin> set s \<Longrightarrow> Split s sep = [s]"
  by (induction s) auto

lemma Split_append_sep: "sep \<notin> set p \<Longrightarrow> Split (p @ sep # s) sep = p # Split s sep"
  by (induction p) auto

lemma hd_Split_append: "sep \<notin> set p \<Longrightarrow> hd (Split (p @ sep # s) sep) = p"
  by (simp add: Split_append_sep)

lemma last_Split_append: "sep \<notin> set s \<Longrightarrow> last (Split (p @ sep # s) sep) = s"
proof (induction p)
  case Nil
  then show ?case by (simp add: Split_plain)
next
  case (Cons c p)
  obtain q qs where q: "Split (p @ sep # s) sep = q # qs" by (cases "Split (p @ sep # s) sep") auto
  show ?case
  proof (cases "c = sep")
    case True
    with Cons show ?thesis by simp
  next
    case False
    have "qs \<noteq> []"
    proof
      assume "qs = []"
      with q have "Join [q] sep = p @ sep # s" by (metis Join_Split)
      then have "sep \<in> set q" by simp
      moreover have "sep \<notin> set q" using q Split_no_sep[of q "p @ sep # s" sep] by simp
      ultimately show False by contradiction
    qed
    with q False Cons show ?thesis by simp
  qed
qed

lemma toLower_idem [simp]: "toLower (toLower c) = toLower c"
  by (auto simp: toLower_def)

lemma ToLower_idem [simp]: "ToLower (ToLower s) = ToLower s"
  by (simp add: ToLower_def)

lemma EqualFold_refl [simp]: "EqualFold s s"
  by (simp add: EqualFold_def)

lemma parse_uint_loop_bound: "n \<le> mx \<Longrightarrow> fst (parse_uint_loop mx n s) \<le> mx"
  by (induction mx n s rule: parse_uint_loop.induct) (auto simp: Let_def)

lemma ParseUint_bound: "fst (ParseUint s bits) \<le> 2 ^ bits - 1"
  by (simp add: ParseUint_def parse_uint_loop_bound)

lemma of_char_less: "(of_char c :: nat) < 256"
  by (rule nat_of_char_less_256)

lemma digitVal_digitChar [simp]: "d < 10 \<Longrightarrow> digitVal (digitChar d) = d"
  by (simp add: digitVal_def digitChar_def)

lemma isDigit_digitChar [simp]: "d < 10 \<Longrightarrow> isDigit (digitChar d)"
  by (simp add: isDigit_def digitChar_def)

lemma parse_uint_loop_snoc:
  "snd (parse_uint_loop mx n s) = None \<Longrightarrow>
   parse_uint_loop mx n (s @ t) = parse_uint_loop mx (fst (parse_uint_loop mx n s)) t"
  by (induction mx n s rule: parse_uint_loop.induct) (auto simp: Let_def split: if_splits)

lemma parse_uint_loop_showNat: "n \<le> mx \<Longrightarrow> parse_uint_loop mx 0 (showNat n) = (n, None)"
proof (induction n rule: showNat.induct)
  case (1 n)
  show ?case
  proof (cases "n < 10")
    case True
    with "1.prems" show ?thesis by (subst showNat.simps) simp
  next
    case False
    with "1.prems" have "n div 10 \<le> mx" by simp
    with "1.IH" False have IH: "parse_uint_loop mx 0 (showNat (n div 10)) = (n div 10, None)" by simp
    with False "1.prems" show ?thesis
      by (subst showNat.simps) (simp add: parse_uint_loop_snoc)
  qed
qed

lemma showNat_not_Nil [simp]: "showNat n \<noteq> []"
  by (subst showNat.simps) simp

lemma showNat_digits: "list_all isDigit (showNat n)"
  by (induction n rule: showNat.induct) (simp add: showNat.simps[of n for n])

lemma ParseUint_showNat: "n < 2 ^ bits \<Longrightarrow> ParseUint (showNat n) bits = (n, None)"
  by (simp add: ParseUint_def parse_uint_loop_showNat)

lemma filepathBase_slash:
  assumes "s \<noteq> []" "CHR ''/'' \<notin> set s"
  shows "filepathBase (p @ CHR ''/'' # s) = s"
proof -
  obtain t c where s: "s = t @ [c]" using assms(1) by (metis append_butlast_last_id)
  with assms(2) have "rev (dropWhile (\<lambda>c. c = CHR ''/'') (rev (p @ CHR ''/'' # s))) = p @ CHR ''/'' # s"
    by auto
  with assms show ?thesis by (simp add: filepathBase_def last_Split_append)
qed

lemma filepathBase_not_Nil: "filepathBase p \<noteq> []"
proof -
  { fix q :: string assume q: "q \<noteq> []" "last q \<noteq> CHR ''/''"
    then obtain t c where tc: "q = t @ [c]" "c \<noteq> CHR ''/''" by (metis append_butlast_last_id last_snoc)
    have "last (Split (t @ [c]) (CHR ''/'')) \<noteq> []"
      using tc(2) by (induction t) (auto split: list.splits)
    with tc have "last (Split q (CHR ''/'')) \<noteq> []" by simp }
  note * = this
  let ?q = "rev (dropWhile (\<lambda>c. c = CHR ''/'') (rev p))"
  have "?q \<noteq> [] \<Longrightarrow> last ?q \<noteq> CHR ''/''"
    using hd_dropWhile[of "\<lambda>c. c = CHR ''/''" "rev p"] by (simp add: last_rev)
  then show ?thesis using *[of ?q] by (auto simp: filepathBase_def Let_def)
qed

end
