(* ===== verification/Float64.thy ===== *)
theory Float64
  imports GoStrings
begin

text \<open>
  Go's \<^verbatim>\<open>float64\<close> as far as the collector uses it: reading a JSON number
  (\<^verbatim>\<open>strconv.ParseFloat(s, 64)\<close>) and printing it as the \<^verbatim>\<open>Value\<close> of a telemetry sample
  (\<^verbatim>\<open>strconv.FormatFloat(v, 'f', -1, 64)\<close>). A finite double is its sign, a significand and a power
  of two; reading rounds to nearest, ties to even; printing takes the shortest decimal that reads
  back as the same double and, among those, the closest.
\<close>

datatype float64 = F64 (f64_neg: bool) (f64_mant: int) (f64_exp: int)

definition f64_zero :: float64 where
  "f64_zero = F64 False 0 0"

section \<open>Rounding a ratio of integers\<close>

function bitlen :: "int \<Rightarrow> int" where
  "bitlen n = (if n \<le> 0 then 0 else 1 + bitlen (n div 2))"
  by pat_completeness auto
termination
  by (relation "measure nat") auto

declare bitlen.simps [simp del]

definition scale_num :: "int \<Rightarrow> int \<Rightarrow> int" where
  "scale_num p e = (if e < 0 then p * 2 ^ nat (- e) else p)"

definition scale_den :: "int \<Rightarrow> int \<Rightarrow> int" where
  "scale_den q e = (if e < 0 then q else q * 2 ^ nat e)"

text \<open>Division rounded to nearest, ties to even.\<close>

definition div_even :: "int \<Rightarrow> int \<Rightarrow> int" where
  "div_even n d =
     (let q = n div d; r = n mod d
      in if 2 * r > d \<or> 2 * r = d \<and> odd q then q + 1 else q)"

text \<open>The binary exponent under which \<open>p / q\<close> has a significand of 53 bits (or is subnormal).\<close>

definition f64_exponent :: "int \<Rightarrow> int \<Rightarrow> int" where
  "f64_exponent p q =
     (let e = max (bitlen p - bitlen q - 53) (- 1074)
      in if scale_den q e * 2 ^ 53 \<le> scale_num p e then e + 1 else e)"

definition round_ratio :: "bool \<Rightarrow> int \<Rightarrow> int \<Rightarrow> float64 option" where
  "round_ratio neg p q =
     (if p = 0 then Some (F64 neg 0 0)
      else let e = f64_exponent p q;
               m = div_even (scale_num p e) (scale_den q e);
               (m', e') = (if m = 2 ^ 53 then (2 ^ 52, e + 1) else (m, e))
           in if m' = 0 then Some (F64 neg 0 0)
              else if e' > 971 then None else Some (F64 neg m' e'))"

definition round_decimal :: "bool \<Rightarrow> int \<Rightarrow> int \<Rightarrow> float64 option" where
  "round_decimal neg d k =
     (if k < 0 then round_ratio neg d (10 ^ nat (- k)) else round_ratio neg (d * 10 ^ nat k) 1)"

section \<open>Reading a JSON number\<close>

definition digits_val :: "string \<Rightarrow> int" where
  "digits_val s = foldl (\<lambda>n c. 10 * n + int (digitVal c)) 0 s"

text \<open>
  A JSON number literal split into sign, integer digits, fraction digits and exponent. The
  scanner of package json has checked its shape before.
\<close>

definition split_literal :: "string \<Rightarrow> bool \<times> string \<times> string \<times> int" where
  "split_literal s =
     (let (neg, s1) = (case s of c # t \<Rightarrow> if c = CHR ''-'' then (True, t) else (False, s) | [] \<Rightarrow> (False, s));
          ip = takeWhile isDigit s1; s2 = dropWhile isDigit s1;
          (fp, s3) = (case s2 of
              c # t \<Rightarrow> if c = CHR ''.'' then (takeWhile isDigit t, dropWhile isDigit t) else ([], s2)
            | [] \<Rightarrow> ([], []));
          ex = (case s3 of
              [] \<Rightarrow> 0
            | c # t \<Rightarrow> (case t of
                  [] \<Rightarrow> 0
                | d # u \<Rightarrow> if d = CHR ''-'' then - digits_val u
                          else if d = CHR ''+'' then digits_val u else digits_val t))
      in (neg, ip, fp, ex))"

definition ParseFloat :: "string \<Rightarrow> float64 option" where
  "ParseFloat s =
     (let (neg, ip, fp, ex) = split_literal s
      in round_decimal neg (digits_val (ip @ fp)) (ex - int (length fp)))"

section \<open>Printing\<close>

function dexp_up :: "int \<Rightarrow> int \<Rightarrow> int" where
  "dexp_up p q = (if p < q \<or> q \<le> 0 then 0 else 1 + dexp_up p (10 * q))"
  by pat_completeness auto
termination
  by (relation "measure (\<lambda>(p, q). nat (p - q + 1))") auto

function dexp_down :: "int \<Rightarrow> int \<Rightarrow> int" where
  "dexp_down p q = (if q \<le> 10 * p \<or> p \<le> 0 then 0 else dexp_down (10 * p) q - 1)"
  by pat_completeness auto
termination
  by (relation "measure (\<lambda>(p, q). nat (q - p))") auto

declare dexp_up.simps [simp del] dexp_down.simps [simp del]

text \<open>The decimal exponent of a positive ratio: \<open>10 ^ (d - 1) \<le> p / q < 10 ^ d\<close>.\<close>

definition decimal_exp :: "int \<Rightarrow> int \<Rightarrow> int" where
  "decimal_exp p q = (if q \<le> p then dexp_up p q else dexp_down p q)"

definition f64_num :: "float64 \<Rightarrow> int" where
  "f64_num x = (if f64_exp x < 0 then f64_mant x else f64_mant x * 2 ^ nat (f64_exp x))"

definition f64_den :: "float64 \<Rightarrow> int" where
  "f64_den x = (if f64_exp x < 0 then 2 ^ nat (- f64_exp x) else 1)"

text \<open>The candidates with decimal exponent \<open>k\<close>: the neighbours of \<open>x / 10 ^ k\<close>.\<close>

definition pick_decimal :: "float64 \<Rightarrow> int \<Rightarrow> int option" where
  "pick_decimal x k =
     (let num = (if k < 0 then f64_num x * 10 ^ nat (- k) else f64_num x);
          den = (if k < 0 then f64_den x else f64_den x * 10 ^ nat k);
          lo = num div den;
          ok = (\<lambda>d. round_decimal (f64_neg x) d k = Some x);
          near = div_even num den
      in if ok near then Some near
         else if ok lo then Some lo
         else if ok (lo + 1) then Some (lo + 1)
         else None)"

fun shortest :: "nat \<Rightarrow> float64 \<Rightarrow> int \<Rightarrow> int \<times> int" where
  "shortest 0 x k =
     ((if k < 0 then f64_num x * 10 ^ nat (- k) div f64_den x else f64_num x div (f64_den x * 10 ^ nat k)), k)"
| "shortest (Suc n) x k =
     (case pick_decimal x k of Some d \<Rightarrow> (d, k) | None \<Rightarrow> shortest n x (k - 1))"

text \<open>Rounding up may carry to a power of ten: trailing zeros move into the exponent.\<close>

function strip_zeros :: "int \<Rightarrow> int \<Rightarrow> int \<times> int" where
  "strip_zeros d k = (if d \<noteq> 0 \<and> d mod 10 = 0 then strip_zeros (d div 10) (k + 1) else (d, k))"
  by pat_completeness auto
termination
  by (relation "measure (\<lambda>(d, k). nat \<bar>d\<bar>)") auto

declare strip_zeros.simps [simp del]

text \<open>At most \<open>d - e\<close> digits are tried, where \<open>e\<close> is the binary exponent: then the decimal is exact.\<close>

definition shortest_decimal :: "float64 \<Rightarrow> int \<times> int" where
  "shortest_decimal x =
     (let d = decimal_exp (f64_num x) (f64_den x)
      in case_prod strip_zeros (shortest (nat (d - min 0 (f64_exp x))) x (d - 1)))"

definition fixed_point :: "int \<Rightarrow> int \<Rightarrow> string" where
  "fixed_point d k =
     (let ds = showNat (nat d)
      in if 0 \<le> k then ds @ replicate (nat k) (CHR ''0'')
         else let w = nat (- k)
              in if w < length ds then take (length ds - w) ds @ CHR ''.'' # drop (length ds - w) ds
                 else CHR ''0'' # CHR ''.'' # replicate (w - length ds) (CHR ''0'') @ ds)"

definition FormatFloat :: "float64 \<Rightarrow> string" where
  "FormatFloat x =
     (if f64_neg x then ''-'' else []) @
     (if f64_mant x = 0 then ''0''
      else let (d, k) = shortest_decimal x in fixed_point d k)"

text \<open>
  How \<^verbatim>\<open>json.Marshal\<close> prints a float: like \<^verbatim>\<open>FormatFloat\<close>, but with an exponent for values below
  \<open>10 ^ -6\<close> or from \<open>10 ^ 21\<close> on.
\<close>

definition json_float :: "float64 \<Rightarrow> string" where
  "json_float x =
     (if f64_mant x = 0 \<or>
         f64_den x \<le> f64_num x * 10 ^ 6 \<and> f64_num x < 10 ^ 21 * f64_den x then FormatFloat x
      else let (d, k) = shortest_decimal x;
               ds = showNat (nat d);
               e = k + int (length ds) - 1
           in (if f64_neg x then ''-'' else []) @ take 1 ds @
              (if length ds = 1 then [] else CHR ''.'' # drop 1 ds) @
              ''e'' @ (if e < 0 then ''-'' else ''+'') @ showNat (nat \<bar>e\<bar>))"

section \<open>Lemmas\<close>

lemma pick_decimal_sound:
  "pick_decimal x k = Some d \<Longrightarrow> round_decimal (f64_neg x) d k = Some x"
  by (auto simp: pick_decimal_def Let_def split: if_splits)

lemma shortest_sound:
  assumes "shortest n x k = (d, k')" "k - int n < k'"
  shows "round_decimal (f64_neg x) d k' = Some x"
  using assms
proof (induction n arbitrary: k)
  case 0
  then show ?case by simp
next
  case (Suc n)
  show ?case
  proof (cases "pick_decimal x k")
    case None
    with Suc show ?thesis by simp
  next
    case (Some a)
    with Suc.prems show ?thesis by (auto dest: pick_decimal_sound)
  qed
qed

end
