(* ===== verification/Json.thy ===== *)
theory Json
  imports Float64 "HOL-Library.Word"
begin

text \<open>
  Go's package \<^verbatim>\<open>encoding/json\<close> as far as the collector uses it: the scanner and parser of
  \<^verbatim>\<open>json.Unmarshal\<close> (escapes, UTF-8 repair, number syntax, the nesting limit), decoding of a value
  into a struct field by field (exact key first, then ignoring case; \<^verbatim>\<open>null\<close> leaves a value alone; a
  value of the wrong type makes the call fail but later fields are still decoded), decoding into
  \<^verbatim>\<open>interface{}\<close>, and the printer of \<^verbatim>\<open>json.Marshal\<close> with its HTML escaping.
\<close>

datatype json =
    JNull
  | JBool bool
  | JNum string
  | JStr string
  | JArr "json list"
  | JObj "(string \<times> json) list"

section \<open>UTF-8\<close>

definition cont_byte :: "char \<Rightarrow> bool" where
  "cont_byte c \<longleftrightarrow> 128 \<le> (of_char c :: nat) \<and> (of_char c :: nat) \<le> 191"

definition in_range :: "char \<Rightarrow> nat \<Rightarrow> nat \<Rightarrow> bool" where
  "in_range c lo hi \<longleftrightarrow> lo \<le> of_char c \<and> of_char c \<le> hi"

text \<open>Length of the valid UTF-8 sequence at the start of a byte string, 0 if there is none.\<close>

fun utf8_len :: "string \<Rightarrow> nat" where
  "utf8_len [] = 0"
| "utf8_len (a # s) =
     (let n = (of_char a :: nat) in
      if n < 128 then 1
      else case s of
          b # s2 \<Rightarrow>
            if 194 \<le> n \<and> n \<le> 223 \<and> cont_byte b then 2
            else (case s2 of
                c # s3 \<Rightarrow>
                  if (n = 224 \<and> in_range b 160 191 \<or> 225 \<le> n \<and> n \<le> 236 \<and> cont_byte b \<or>
                      n = 237 \<and> in_range b 128 159 \<or> 238 \<le> n \<and> n \<le> 239 \<and> cont_byte b) \<and> cont_byte c
                  then 3
                  else (case s3 of
                      d # s4 \<Rightarrow>
                        if (n = 240 \<and> in_range b 144 191 \<or> 241 \<le> n \<and> n \<le> 243 \<and> cont_byte b \<or>
                            n = 244 \<and> in_range b 128 143) \<and> cont_byte c \<and> cont_byte d
                        then 4 else 0
                    | [] \<Rightarrow> 0)
              | [] \<Rightarrow> 0)
        | [] \<Rightarrow> 0)"

definition utf8_encode :: "nat \<Rightarrow> string" where
  "utf8_encode r =
     (if r < 128 then [char_of r]
      else if r < 2048 then [char_of (192 + r div 64), char_of (128 + r mod 64)]
      else if r < 65536 then
        [char_of (224 + r div 4096), char_of (128 + r div 64 mod 64), char_of (128 + r mod 64)]
      else [char_of (240 + r div 262144), char_of (128 + r div 4096 mod 64),
            char_of (128 + r div 64 mod 64), char_of (128 + r mod 64)])"

definition rune_error :: string where
  "rune_error = utf8_encode 65533"

section \<open>Scanning\<close>

definition isWS :: "char \<Rightarrow> bool" where
  "isWS c \<longleftrightarrow> of_char c \<in> {9, 10, 13, 32 :: nat}"

definition skipws :: "string \<Rightarrow> string" where
  "skipws s = dropWhile isWS s"

definition hexval :: "char \<Rightarrow> nat option" where
  "hexval c =
     (let n = (of_char c :: nat) in
      if 48 \<le> n \<and> n \<le> 57 then Some (n - 48)
      else if 97 \<le> n \<and> n \<le> 102 then Some (n - 87)
      else if 65 \<le> n \<and> n \<le> 70 then Some (n - 55)
      else None)"

definition hex4 :: "string \<Rightarrow> nat option" where
  "hex4 s =
     (case s of
        a # b # c # d # _ \<Rightarrow>
          (case (hexval a, hexval b, hexval c, hexval d) of
             (Some w, Some x, Some y, Some z) \<Rightarrow> Some (((w * 16 + x) * 16 + y) * 16 + z)
           | _ \<Rightarrow> None)
      | _ \<Rightarrow> None)"

definition is_surrogate :: "nat \<Rightarrow> bool" where
  "is_surrogate r \<longleftrightarrow> 55296 \<le> r \<and> r \<le> 57343"

text \<open>
  A \<^verbatim>\<open>\u\<close> escape: the bytes it stands for and how many bytes after the \<^verbatim>\<open>u\<close> it takes. A high
  surrogate takes the low surrogate escape that follows it; any other surrogate is U+FFFD.
\<close>

definition unicode_escape :: "string \<Rightarrow> (string \<times> nat) option" where
  "unicode_escape s =
     (case hex4 s of
        None \<Rightarrow> None
      | Some r \<Rightarrow>
          if is_surrogate r then
            (case drop 4 s of
               a # b # t \<Rightarrow>
                 (if a = CHR 0x5C \<and> b = CHR ''u'' then
                    (case hex4 t of
                       Some r2 \<Rightarrow>
                         if r \<le> 56319 \<and> 56320 \<le> r2 \<and> r2 \<le> 57343
                         then Some (utf8_encode (65536 + (r - 55296) * 1024 + (r2 - 56320)), 10)
                         else Some (rune_error, 4)
                     | None \<Rightarrow> Some (rune_error, 4))
                  else Some (rune_error, 4))
             | _ \<Rightarrow> Some (rune_error, 4))
          else Some (utf8_encode r, 4))"

definition simple_escape :: "char \<Rightarrow> string option" where
  "simple_escape c =
     (if c = CHR 0x22 \<or> c = CHR 0x5C \<or> c = CHR ''/'' then Some [c]
      else if c = CHR ''b'' then Some [CHR 0x08]
      else if c = CHR ''f'' then Some [CHR 0x0C]
      else if c = CHR ''n'' then Some [CHR 0x0A]
      else if c = CHR ''r'' then Some [CHR 0x0D]
      else if c = CHR ''t'' then Some [CHR 0x09]
      else None)"

text \<open>The body of a string after its opening quote: its value and the input after the closing quote.\<close>

function (sequential) str_body :: "string \<Rightarrow> (string \<times> string) option" where
  "str_body [] = None"
| "str_body (c # s) =
     (if c = CHR 0x22 then Some ([], s)
      else if of_char c < (32 :: nat) then None
      else if c = CHR 0x5C then
        (case s of
           [] \<Rightarrow> None
         | e # t \<Rightarrow>
             if e = CHR ''u'' then
               (case unicode_escape t of
                  None \<Rightarrow> None
                | Some (bs, k) \<Rightarrow> map_option (\<lambda>(v, r). (bs @ v, r)) (str_body (drop k t)))
             else
               (case simple_escape e of
                  None \<Rightarrow> None
                | Some bs \<Rightarrow> map_option (\<lambda>(v, r). (bs @ v, r)) (str_body t)))
      else if of_char c < (128 :: nat) then map_option (\<lambda>(v, r). (c # v, r)) (str_body s)
      else
        (let k = utf8_len (c # s) in
         if k = 0 then map_option (\<lambda>(v, r). (rune_error @ v, r)) (str_body s)
         else map_option (\<lambda>(v, r). (take k (c # s) @ v, r)) (str_body (drop (k - 1) s))))"
  by pat_completeness auto
termination
  by (relation "measure length") (auto simp: le_imp_less_Suc)

definition take_digits :: "string \<Rightarrow> (string \<times> string) option" where
  "take_digits s =
     (let d = takeWhile isDigit s in if d = [] then None else Some (d, dropWhile isDigit s))"

definition lex_number :: "string \<Rightarrow> (string \<times> string) option" where
  "lex_number s =
     (let (sg, s1) = (case s of c # t \<Rightarrow> if c = CHR ''-'' then ([c], t) else ([], s) | [] \<Rightarrow> ([], s))
      in case take_digits s1 of
           None \<Rightarrow> None
         | Some (d0, r0) \<Rightarrow>
             let (ip, s2) = (if hd d0 = CHR ''0'' then ([hd d0], tl d0 @ r0) else (d0, r0))
             in (case (case s2 of
                         c # t \<Rightarrow> if c = CHR ''.'' then map_option (\<lambda>(f, r). (c # f, r)) (take_digits t)
                                 else Some ([], s2)
                       | [] \<Rightarrow> Some ([], s2)) of
                   None \<Rightarrow> None
                 | Some (fp, s3) \<Rightarrow>
                     (case (case s3 of
                              c # t \<Rightarrow>
                                if c = CHR ''e'' \<or> c = CHR ''E'' then
                                  (case t of
                                     x # u \<Rightarrow>
                                       if x = CHR ''+'' \<or> x = CHR ''-''
                                       then map_option (\<lambda>(f, r). (c # x # f, r)) (take_digits u)
                                       else map_option (\<lambda>(f, r). (c # f, r)) (take_digits t)
                                   | [] \<Rightarrow> None)
                                else Some ([], s3)
                            | [] \<Rightarrow> Some ([], s3)) of
                        None \<Rightarrow> None
                      | Some (ex, s4) \<Rightarrow> Some (sg @ ip @ fp @ ex, s4))))"

section \<open>Parsing\<close>

definition lex_literal :: "string \<Rightarrow> (json \<times> string) option" where
  "lex_literal s =
     (if HasPrefix s ''null'' then Some (JNull, drop 4 s)
      else if HasPrefix s ''true'' then Some (JBool True, drop 4 s)
      else if HasPrefix s ''false'' then Some (JBool False, drop 5 s)
      else map_option (\<lambda>(l, r). (JNum l, r)) (lex_number s))"

fun pvalue :: "nat \<Rightarrow> string \<Rightarrow> (json \<times> string) option"
  and pelems :: "nat \<Rightarrow> string \<Rightarrow> (json list \<times> string) option"
  and pmembers :: "nat \<Rightarrow> string \<Rightarrow> ((string \<times> json) list \<times> string) option" where
  "pvalue 0 s = None"
| "pvalue (Suc n) s =
     (case skipws s of
        [] \<Rightarrow> None
      | c # t \<Rightarrow>
          if c = CHR ''{'' then
            (if (case skipws t of d # _ \<Rightarrow> d = CHR ''}'' | [] \<Rightarrow> False) then Some (JObj [], tl (skipws t))
             else map_option (\<lambda>(ms, r). (JObj ms, r)) (pmembers n t))
          else if c = CHR ''['' then
            (if (case skipws t of d # _ \<Rightarrow> d = CHR '']'' | [] \<Rightarrow> False) then Some (JArr [], tl (skipws t))
             else map_option (\<lambda>(vs, r). (JArr vs, r)) (pelems n t))
          else if c = CHR 0x22 then map_option (\<lambda>(v, r). (JStr v, r)) (str_body t)
          else lex_literal (c # t))"
| "pelems 0 s = None"
| "pelems (Suc n) s =
     (case pvalue n s of
        None \<Rightarrow> None
      | Some (v, r) \<Rightarrow>
          (case skipws r of
             c # u \<Rightarrow>
               if c = CHR '']'' then Some ([v], u)
               else if c = CHR '','' then map_option (\<lambda>(vs, r). (v # vs, r)) (pelems n u)
               else None
           | [] \<Rightarrow> None))"
| "pmembers 0 s = None"
| "pmembers (Suc n) s =
     (case skipws s of
        [] \<Rightarrow> None
      | q # t \<Rightarrow>
          if q \<noteq> CHR 0x22 then None
          else (case str_body t of
             None \<Rightarrow> None
           | Some (k, r) \<Rightarrow>
               (case skipws r of
                  [] \<Rightarrow> None
                | c # u \<Rightarrow>
                    if c \<noteq> CHR '':'' then None
                    else (case pvalue n u of
                       None \<Rightarrow> None
                     | Some (v, r2) \<Rightarrow>
                         (case skipws r2 of
                            d # u2 \<Rightarrow>
                              if d = CHR ''}'' then Some ([(k, v)], u2)
                              else if d = CHR '','' then
                                map_option (\<lambda>(ms, r). ((k, v) # ms, r)) (pmembers n u2)
                              else None
                          | [] \<Rightarrow> None)))))"

fun json_depth :: "json \<Rightarrow> nat" where
  "json_depth (JArr vs) = Suc (foldr (\<lambda>v m. max (json_depth v) m) vs 0)"
| "json_depth (JObj ms) = Suc (foldr (\<lambda>kv m. max (json_depth (snd kv)) m) ms 0)"
| "json_depth _ = 0"

text \<open>Every step of the parser consumes input or nests once, so twice the length is enough fuel.\<close>

definition json_parse :: "string \<Rightarrow> json option" where
  "json_parse s =
     (case pvalue (2 * length s + 2) s of
        Some (v, r) \<Rightarrow> if skipws r = [] \<and> json_depth v \<le> 10000 then Some v else None
      | None \<Rightarrow> None)"

section \<open>Printing\<close>

definition hexdigit :: "nat \<Rightarrow> char" where
  "hexdigit n = (if n < 10 then char_of (48 + n) else char_of (87 + n))"

definition quote_byte :: "char \<Rightarrow> string" where
  "quote_byte c =
     (if c = CHR 0x22 \<or> c = CHR 0x5C then [CHR 0x5C, c]
      else if c = CHR 0x08 then [CHR 0x5C, CHR ''b'']
      else if c = CHR 0x0C then [CHR 0x5C, CHR ''f'']
      else if c = CHR 0x0A then [CHR 0x5C, CHR ''n'']
      else if c = CHR 0x0D then [CHR 0x5C, CHR ''r'']
      else if c = CHR 0x09 then [CHR 0x5C, CHR ''t'']
      else if of_char c < (32 :: nat) \<or> c = CHR ''<'' \<or> c = CHR ''>'' \<or> c = CHR ''&'' then
        CHR 0x5C # ''u00'' @ [hexdigit (of_char c div 16), hexdigit (of_char c mod 16)]
      else [c])"

function (sequential) quote_body :: "string \<Rightarrow> string" where
  "quote_body [] = []"
| "quote_body (c # s) =
     (if of_char c < (128 :: nat) then quote_byte c @ quote_body s
      else
        (let k = utf8_len (c # s) in
         if k = 0 then CHR 0x5C # ''ufffd'' @ quote_body s
         else if take k (c # s) = utf8_encode 8232 then CHR 0x5C # ''u2028'' @ quote_body (drop (k - 1) s)
         else if take k (c # s) = utf8_encode 8233 then CHR 0x5C # ''u2029'' @ quote_body (drop (k - 1) s)
         else take k (c # s) @ quote_body (drop (k - 1) s)))"
  by pat_completeness auto
termination
  by (relation "measure length") (auto simp: le_imp_less_Suc)

definition json_quote :: "string \<Rightarrow> string" where
  "json_quote s = CHR 0x22 # quote_body s @ [CHR 0x22]"

fun json_render :: "json \<Rightarrow> string" where
  "json_render JNull = ''null''"
| "json_render (JBool b) = (if b then ''true'' else ''false'')"
| "json_render (JNum l) = l"
| "json_render (JStr s) = json_quote s"
| "json_render (JArr vs) = ''['' @ Join (map json_render vs) (CHR '','') @ '']''"
| "json_render (JObj ms) =
     ''{'' @ Join (map (\<lambda>kv. json_quote (fst kv) @ CHR '':'' # json_render (snd kv)) ms) (CHR '','') @ ''}''"

end
