(* ===== verification/JsonDecode.thy ===== *)
theory JsonDecode
  imports Json
begin

text \<open>
  How \<^verbatim>\<open>json.Unmarshal\<close> stores a parsed value into Go variables. A decoder takes the value and the
  old content of the variable and returns the new content with a flag: false when some value had
  the wrong type, which makes \<^verbatim>\<open>Unmarshal\<close> return an error although the rest was decoded.
\<close>

type_synonym 'a decoder = "json \<Rightarrow> 'a \<Rightarrow> 'a \<times> bool"

definition dec_string :: "string decoder" where
  "dec_string j old = (case j of JStr s \<Rightarrow> (s, True) | JNull \<Rightarrow> (old, True) | _ \<Rightarrow> (old, False))"

definition dec_bool :: "bool decoder" where
  "dec_bool j old = (case j of JBool b \<Rightarrow> (b, True) | JNull \<Rightarrow> (old, True) | _ \<Rightarrow> (old, False))"

definition dec_float64 :: "float64 decoder" where
  "dec_float64 j old =
     (case j of
        JNum l \<Rightarrow> (case ParseFloat l of Some x \<Rightarrow> (x, True) | None \<Rightarrow> (old, False))
      | JNull \<Rightarrow> (old, True)
      | _ \<Rightarrow> (old, False))"

text \<open>An integer literal of a signed type of the given width: no fraction, no exponent, in range.\<close>

definition parse_int_literal :: "nat \<Rightarrow> string \<Rightarrow> int option" where
  "parse_int_literal w l =
     (let (neg, ds) = (case l of c # t \<Rightarrow> if c = CHR ''-'' then (True, t) else (False, l) | [] \<Rightarrow> (False, l));
          v = (if neg then - digits_val ds else digits_val ds)
      in if ds \<noteq> [] \<and> list_all isDigit ds \<and> - (2 ^ (w - 1)) \<le> v \<and> v < 2 ^ (w - 1) then Some v else None)"

definition dec_int :: "nat \<Rightarrow> int decoder" where
  "dec_int w j old =
     (case j of
        JNum l \<Rightarrow> (case parse_int_literal w l of Some v \<Rightarrow> (v, True) | None \<Rightarrow> (old, False))
      | JNull \<Rightarrow> (old, True)
      | _ \<Rightarrow> (old, False))"

definition dec_int16 :: "16 word decoder" where
  "dec_int16 j old =
     (case j of
        JNum l \<Rightarrow> (case parse_int_literal 16 l of Some v \<Rightarrow> (word_of_int v, True) | None \<Rightarrow> (old, False))
      | JNull \<Rightarrow> (old, True)
      | _ \<Rightarrow> (old, False))"

definition dec_ptr :: "'a decoder \<Rightarrow> 'a \<Rightarrow> 'a option decoder" where
  "dec_ptr d zero j old =
     (case j of
        JNull \<Rightarrow> (None, True)
      | _ \<Rightarrow> (case d j (case old of Some x \<Rightarrow> x | None \<Rightarrow> zero) of (x, ok) \<Rightarrow> (Some x, ok)))"

text \<open>The elements of an array are decoded over the elements the slice already has.\<close>

fun dec_elems :: "'a decoder \<Rightarrow> 'a \<Rightarrow> json list \<Rightarrow> 'a list \<Rightarrow> 'a list \<times> bool" where
  "dec_elems d zero [] old = ([], True)"
| "dec_elems d zero (j # js) old =
     (let (x, ok) = d j (case old of y # _ \<Rightarrow> y | [] \<Rightarrow> zero);
          (xs, oks) = dec_elems d zero js (tl old)
      in (x # xs, ok \<and> oks))"

definition dec_list :: "'a decoder \<Rightarrow> 'a \<Rightarrow> 'a list decoder" where
  "dec_list d zero j old =
     (case j of
        JArr js \<Rightarrow> dec_elems d zero js old
      | JNull \<Rightarrow> ([], True)
      | _ \<Rightarrow> (old, False))"

text \<open>A slice whose nil value is told apart from an empty slice.\<close>

definition dec_slice :: "'a decoder \<Rightarrow> 'a \<Rightarrow> 'a list option decoder" where
  "dec_slice d zero j old =
     (case j of
        JArr js \<Rightarrow> (case dec_elems d zero js (case old of Some xs \<Rightarrow> xs | None \<Rightarrow> []) of (xs, ok) \<Rightarrow> (Some xs, ok))
      | JNull \<Rightarrow> (None, True)
      | _ \<Rightarrow> (old, False))"

section \<open>Objects\<close>

type_synonym 's field = "string \<times> (json \<Rightarrow> 's \<Rightarrow> 's \<times> bool)"

definition jfield :: "string \<Rightarrow> ('s \<Rightarrow> 'a) \<Rightarrow> (('a \<Rightarrow> 'a) \<Rightarrow> 's \<Rightarrow> 's) \<Rightarrow> 'a decoder \<Rightarrow> 's field" where
  "jfield name get upd d = (name, \<lambda>j s. case d j (get s) of (v, ok) \<Rightarrow> (upd (\<lambda>_. v) s, ok))"

definition find_field :: "'s field list \<Rightarrow> string \<Rightarrow> (json \<Rightarrow> 's \<Rightarrow> 's \<times> bool) option" where
  "find_field fs k =
     (case find (\<lambda>f. fst f = k) fs of
        Some f \<Rightarrow> Some (snd f)
      | None \<Rightarrow> map_option snd (find (\<lambda>f. EqualFold (fst f) k) fs))"

fun dec_members :: "'s field list \<Rightarrow> (string \<times> json) list \<Rightarrow> 's \<Rightarrow> 's \<times> bool" where
  "dec_members fs [] s = (s, True)"
| "dec_members fs ((k, v) # ms) s =
     (case find_field fs k of
        None \<Rightarrow> dec_members fs ms s
      | Some f \<Rightarrow> (case f v s of (s', ok) \<Rightarrow> (case dec_members fs ms s' of (s'', oks) \<Rightarrow> (s'', ok \<and> oks))))"

definition dec_struct :: "'s field list \<Rightarrow> 's decoder" where
  "dec_struct fs j s =
     (case j of
        JObj ms \<Rightarrow> dec_members fs ms s
      | JNull \<Rightarrow> (s, True)
      | _ \<Rightarrow> (s, False))"

text \<open>A Go map with string keys, kept as an association list sorted by key.\<close>

fun put_key :: "string \<Rightarrow> 'a \<Rightarrow> (string \<times> 'a) list \<Rightarrow> (string \<times> 'a) list" where
  "put_key k v [] = [(k, v)]"
| "put_key k v ((k', v') # m) =
     (if k < k' then (k, v) # (k', v') # m
      else if k = k' then (k, v) # m
      else (k', v') # put_key k v m)"

fun dec_map_members :: "'a decoder \<Rightarrow> 'a \<Rightarrow> (string \<times> json) list \<Rightarrow> (string \<times> 'a) list \<Rightarrow> (string \<times> 'a) list \<times> bool" where
  "dec_map_members d zero [] m = (m, True)"
| "dec_map_members d zero ((k, v) # ms) m =
     (case d v zero of (x, ok) \<Rightarrow>
        (case dec_map_members d zero ms (put_key k x m) of (m', oks) \<Rightarrow> (m', ok \<and> oks)))"

definition dec_map :: "'a decoder \<Rightarrow> 'a \<Rightarrow> (string \<times> 'a) list decoder" where
  "dec_map d zero j old =
     (case j of
        JObj ms \<Rightarrow> dec_map_members d zero ms old
      | JNull \<Rightarrow> ([], True)
      | _ \<Rightarrow> (old, False))"

text \<open>\<^verbatim>\<open>json.Unmarshal(bytes, &v)\<close> on a variable that holds \<open>zero\<close>; \<open>None\<close> is an error.\<close>

definition Unmarshal :: "'a decoder \<Rightarrow> 'a \<Rightarrow> string \<Rightarrow> 'a option" where
  "Unmarshal d zero bs =
     (case json_parse bs of
        None \<Rightarrow> None
      | Some j \<Rightarrow> (case d j zero of (v, ok) \<Rightarrow> if ok then Some v else None))"

section \<open>Decoding into interface values\<close>

text \<open>
  A value decoded into \<^verbatim>\<open>interface{}\<close> is again a JSON value: its numbers are doubles and are kept in
  the form in which \<^verbatim>\<open>json.Marshal\<close> prints them, its objects are Go maps and are kept sorted by key,
  as \<^verbatim>\<open>json.Marshal\<close> prints them, a repeated key keeping its last value.
\<close>

fun iface :: "json \<Rightarrow> json option"
  and iface_list :: "json list \<Rightarrow> json list option"
  and iface_members :: "(string \<times> json) list \<Rightarrow> (string \<times> json) list \<Rightarrow> (string \<times> json) list option" where
  "iface (JNum l) = map_option (\<lambda>x. JNum (json_float x)) (ParseFloat l)"
| "iface (JArr vs) = map_option JArr (iface_list vs)"
| "iface (JObj ms) = map_option JObj (iface_members ms [])"
| "iface j = Some j"
| "iface_list [] = Some []"
| "iface_list (v # vs) =
     (case (iface v, iface_list vs) of (Some x, Some xs) \<Rightarrow> Some (x # xs) | _ \<Rightarrow> None)"
| "iface_members [] acc = Some acc"
| "iface_members ((k, v) # ms) acc =
     (case iface v of Some x \<Rightarrow> iface_members ms (put_key k x acc) | None \<Rightarrow> None)"

text \<open>\<^verbatim>\<open>var m map[string]interface{}; json.Unmarshal(bytes, &m)\<close>: \<^verbatim>\<open>null\<close> leaves the nil map.\<close>

definition Unmarshal_object :: "string \<Rightarrow> (string \<times> json) list option" where
  "Unmarshal_object bs =
     (case json_parse bs of
        Some (JObj ms) \<Rightarrow> iface_members ms []
      | Some JNull \<Rightarrow> Some []
      | _ \<Rightarrow> None)"

definition delete_key :: "string \<Rightarrow> (string \<times> 'a) list \<Rightarrow> (string \<times> 'a) list" where
  "delete_key k m = filter (\<lambda>kv. fst kv \<noteq> k) m"

section \<open>Lemmas\<close>

lemma map_of_put_key [simp]: "map_of (put_key k v m) = (map_of m)(k \<mapsto> v)"
  by (induction k v m rule: put_key.induct) auto

lemma set_keys_put_key: "fst ` set (put_key k v m) = insert k (fst ` set m)"
  by (induction k v m rule: put_key.induct) auto

lemma sorted_put_key: "sorted_wrt (<) (map fst m) \<Longrightarrow> sorted_wrt (<) (map fst (put_key k v m))"
proof (induction k v m rule: put_key.induct)
  case (2 k v k' v' m)
  then show ?case using set_keys_put_key[of k v m] by fastforce
qed simp

lemma map_of_delete_key [simp]: "map_of (delete_key k m) = (map_of m)(k := None)"
  by (induction m) (auto simp: delete_key_def fun_eq_iff)

lemma iface_members_sorted:
  assumes "iface_members ms acc = Some r" "sorted_wrt (<) (map fst acc)"
  shows "sorted_wrt (<) (map fst r)"
  using assms by (induction ms arbitrary: acc) (auto split: option.splits, metis sorted_put_key)

lemma dec_elems_length: "length (fst (dec_elems d zero js old)) = length js"
  by (induction js arbitrary: old) (auto simp: Let_def split: prod.splits, metis fst_conv)

end
