(* ===== verification/Redfish.thy ===== *)
theory Redfish
  imports JsonDecode
begin

text \<open>
  The data of \<^verbatim>\<open>internal/hmcollector\<close>: the structs of \<^verbatim>\<open>redfish.go\<close> and \<^verbatim>\<open>defs.go\<close> with how they are
  read from JSON and, for the structs the collector sends, how they are written (\<^verbatim>\<open>omitempty\<close> drops
  empty strings, empty slices, nil pointers and zero numbers). The endpoint description comes from
  \<^verbatim>\<open>vendor/github.com/Cray-HPE/hms-smd/v2/pkg/redfish/rfendpoints.go\<close>.
\<close>

section \<open>Telemetry events\<close>

type_synonym int16 = "16 word"

record CrayJSONPayload =
  pl_Timestamp :: string
  pl_Location :: string
  pl_ParentalContext :: string
  pl_ParentalIndex :: "int16 option"
  pl_PhysicalContext :: string
  pl_Index :: "int16 option"
  pl_PhysicalSubContext :: string
  pl_DeviceSpecificContext :: string
  pl_SubIndex :: "int16 option"
  pl_Value :: string

definition payload_zero :: CrayJSONPayload where
  "payload_zero = \<lparr> pl_Timestamp = [], pl_Location = [], pl_ParentalContext = [], pl_ParentalIndex = None,
     pl_PhysicalContext = [], pl_Index = None, pl_PhysicalSubContext = [], pl_DeviceSpecificContext = [],
     pl_SubIndex = None, pl_Value = [] \<rparr>"

record Sensors =
  ss_Sensors :: "CrayJSONPayload list option"
  ss_TelemetrySource :: string

definition sensors_zero :: Sensors where
  "sensors_zero = \<lparr> ss_Sensors = None, ss_TelemetrySource = [] \<rparr>"

record ResourceID =
  rid_Oid :: string

definition resource_zero :: ResourceID where
  "resource_zero = \<lparr> rid_Oid = [] \<rparr>"

record Event =
  ev_EventType :: string
  ev_EventId :: string
  ev_EventTimestamp :: string
  ev_Severity :: string
  ev_Message :: string
  ev_MessageId :: string
  ev_MessageArgs :: "string list"
  ev_Context :: string
  ev_OriginOfCondition :: "ResourceID option"
  ev_Oem :: "Sensors option"

definition event_zero :: Event where
  "event_zero = \<lparr> ev_EventType = [], ev_EventId = [], ev_EventTimestamp = [], ev_Severity = [],
     ev_Message = [], ev_MessageId = [], ev_MessageArgs = [], ev_Context = [],
     ev_OriginOfCondition = None, ev_Oem = None \<rparr>"

record Events =
  evs_OContext :: string
  evs_Oid :: string
  evs_Otype :: string
  evs_Id :: string
  evs_Name :: string
  evs_Context :: string
  evs_Description :: string
  evs_Events :: "Event list"
  evs_EventsOCount :: int

definition events_zero :: Events where
  "events_zero = \<lparr> evs_OContext = [], evs_Oid = [], evs_Otype = [], evs_Id = [], evs_Name = [],
     evs_Context = [], evs_Description = [], evs_Events = [], evs_EventsOCount = 0 \<rparr>"

subsection \<open>Reading\<close>

definition payload_fields :: "CrayJSONPayload field list" where
  "payload_fields =
    [jfield ''Timestamp'' pl_Timestamp pl_Timestamp_update dec_string,
     jfield ''Location'' pl_Location pl_Location_update dec_string,
     jfield ''ParentalContext'' pl_ParentalContext pl_ParentalContext_update dec_string,
     jfield ''ParentalIndex'' pl_ParentalIndex pl_ParentalIndex_update (dec_ptr dec_int16 0),
     jfield ''PhysicalContext'' pl_PhysicalContext pl_PhysicalContext_update dec_string,
     jfield ''Index'' pl_Index pl_Index_update (dec_ptr dec_int16 0),
     jfield ''PhysicalSubContext'' pl_PhysicalSubContext pl_PhysicalSubContext_update dec_string,
     jfield ''DeviceSpecificContext'' pl_DeviceSpecificContext pl_DeviceSpecificContext_update dec_string,
     jfield ''SubIndex'' pl_SubIndex pl_SubIndex_update (dec_ptr dec_int16 0),
     jfield ''Value'' pl_Value pl_Value_update dec_string]"

definition sensors_fields :: "Sensors field list" where
  "sensors_fields =
    [jfield ''Sensors'' ss_Sensors ss_Sensors_update (dec_slice (dec_struct payload_fields) payload_zero),
     jfield ''TelemetrySource'' ss_TelemetrySource ss_TelemetrySource_update dec_string]"

definition resource_fields :: "ResourceID field list" where
  "resource_fields = [jfield ''@odata.id'' rid_Oid rid_Oid_update dec_string]"

definition event_fields :: "Event field list" where
  "event_fields =
    [jfield ''EventType'' ev_EventType ev_EventType_update dec_string,
     jfield ''EventId'' ev_EventId ev_EventId_update dec_string,
     jfield ''EventTimestamp'' ev_EventTimestamp ev_EventTimestamp_update dec_string,
     jfield ''Severity'' ev_Severity ev_Severity_update dec_string,
     jfield ''Message'' ev_Message ev_Message_update dec_string,
     jfield ''MessageId'' ev_MessageId ev_MessageId_update dec_string,
     jfield ''MessageArgs'' ev_MessageArgs ev_MessageArgs_update (dec_list dec_string []),
     jfield ''Context'' ev_Context ev_Context_update dec_string,
     jfield ''OriginOfCondition'' ev_OriginOfCondition ev_OriginOfCondition_update
       (dec_ptr (dec_struct resource_fields) resource_zero),
     jfield ''Oem'' ev_Oem ev_Oem_update (dec_ptr (dec_struct sensors_fields) sensors_zero)]"

definition events_fields :: "Events field list" where
  "events_fields =
    [jfield ''@odata.context'' evs_OContext evs_OContext_update dec_string,
     jfield ''@odata.id'' evs_Oid evs_Oid_update dec_string,
     jfield ''@odata.type'' evs_Otype evs_Otype_update dec_string,
     jfield ''Id'' evs_Id evs_Id_update dec_string,
     jfield ''Name'' evs_Name evs_Name_update dec_string,
     jfield ''Context'' evs_Context evs_Context_update dec_string,
     jfield ''Description'' evs_Description evs_Description_update dec_string,
     jfield ''Events'' evs_Events evs_Events_update (dec_list (dec_struct event_fields) event_zero),
     jfield ''Events@odata.count'' evs_EventsOCount evs_EventsOCount_update (dec_int 64)]"

subsection \<open>Writing\<close>

definition w_str :: "string \<Rightarrow> string \<Rightarrow> (string \<times> json) list" where
  "w_str k v = [(k, JStr v)]"

definition w_str_oe :: "string \<Rightarrow> string \<Rightarrow> (string \<times> json) list" where
  "w_str_oe k v = (if v = [] then [] else [(k, JStr v)])"

definition w_strs_oe :: "string \<Rightarrow> string list \<Rightarrow> (string \<times> json) list" where
  "w_strs_oe k v = (if v = [] then [] else [(k, JArr (map JStr v))])"

definition w_int16_oe :: "string \<Rightarrow> int16 option \<Rightarrow> (string \<times> json) list" where
  "w_int16_oe k v = (case v of None \<Rightarrow> [] | Some i \<Rightarrow> [(k, JNum (Itoa (sint i)))])"

definition enc_payload :: "CrayJSONPayload \<Rightarrow> json" where
  "enc_payload p = JObj
    (w_str ''Timestamp'' (pl_Timestamp p) @ w_str ''Location'' (pl_Location p) @
     w_str_oe ''ParentalContext'' (pl_ParentalContext p) @ w_int16_oe ''ParentalIndex'' (pl_ParentalIndex p) @
     w_str ''PhysicalContext'' (pl_PhysicalContext p) @ w_int16_oe ''Index'' (pl_Index p) @
     w_str_oe ''PhysicalSubContext'' (pl_PhysicalSubContext p) @
     w_str_oe ''DeviceSpecificContext'' (pl_DeviceSpecificContext p) @
     w_int16_oe ''SubIndex'' (pl_SubIndex p) @ w_str ''Value'' (pl_Value p))"

definition enc_sensors :: "Sensors \<Rightarrow> json" where
  "enc_sensors s = JObj
    [(''Sensors'', case ss_Sensors s of None \<Rightarrow> JNull | Some ps \<Rightarrow> JArr (map enc_payload ps)),
     (''TelemetrySource'', JStr (ss_TelemetrySource s))]"

definition enc_resource :: "ResourceID \<Rightarrow> json" where
  "enc_resource r = JObj [(''@odata.id'', JStr (rid_Oid r))]"

definition enc_event :: "Event \<Rightarrow> json" where
  "enc_event e = JObj
    (w_str_oe ''EventType'' (ev_EventType e) @ w_str_oe ''EventId'' (ev_EventId e) @
     w_str_oe ''EventTimestamp'' (ev_EventTimestamp e) @ w_str_oe ''Severity'' (ev_Severity e) @
     w_str_oe ''Message'' (ev_Message e) @ w_str_oe ''MessageId'' (ev_MessageId e) @
     w_strs_oe ''MessageArgs'' (ev_MessageArgs e) @ w_str_oe ''Context'' (ev_Context e) @
     (case ev_OriginOfCondition e of None \<Rightarrow> [] | Some r \<Rightarrow> [(''OriginOfCondition'', enc_resource r)]) @
     (case ev_Oem e of None \<Rightarrow> [] | Some s \<Rightarrow> [(''Oem'', enc_sensors s)]))"

definition enc_events :: "Events \<Rightarrow> json" where
  "enc_events e = JObj
    (w_str_oe ''@odata.context'' (evs_OContext e) @ w_str_oe ''@odata.id'' (evs_Oid e) @
     w_str_oe ''@odata.type'' (evs_Otype e) @ w_str_oe ''Id'' (evs_Id e) @
     w_str_oe ''Name'' (evs_Name e) @ w_str_oe ''Context'' (evs_Context e) @
     w_str_oe ''Description'' (evs_Description e) @
     (if evs_Events e = [] then [] else [(''Events'', JArr (map enc_event (evs_Events e)))]) @
     (if evs_EventsOCount e = 0 then []
      else [(''Events@odata.count'', JNum (Itoa (evs_EventsOCount e)))]))"

definition Marshal_events :: "Events \<Rightarrow> string" where
  "Marshal_events e = json_render (enc_events e)"

section \<open>Power and thermal readings\<close>

record PowerMetrics =
  pm_AverageConsumedWatts :: float64
  pm_IntervalInMin :: float64
  pm_MaxConsumedWatts :: float64
  pm_MinConsumedWatts :: float64

record PowerControl =
  pc_PhysicalContext :: string
  pc_Name :: string
  pc_MemberId :: string
  pc_PowerConsumedWatts :: float64
  pc_PowerMetrics :: PowerMetrics

record PowerSupply =
  ps_MemberId :: string
  ps_Name :: string
  ps_LastPowerOutputWatts :: float64
  ps_LineInputVoltage :: float64
  ps_PowerInputWatts :: float64
  ps_PowerOutputWatts :: float64

record Voltage =
  vt_Name :: string
  vt_MemberId :: string
  vt_PhysicalContext :: string
  vt_ReadingVolts :: float64

record Power =
  pw_PowerControl :: "PowerControl list"
  pw_PowerSupplies :: "PowerSupply list"
  pw_Voltages :: "Voltage list"

record Temperature =
  tm_Name :: string
  tm_MemberId :: string
  tm_PhysicalContext :: string
  tm_ReadingCelsius :: float64

record Fan =
  fn_Name :: string
  fn_PhysicalContext :: string
  fn_MemberId :: string
  fn_Reading :: float64

record EnclosureThermal =
  th_Temperatures :: "Temperature list"
  th_Fans :: "Fan list"

definition pm_zero :: PowerMetrics where
  "pm_zero = \<lparr> pm_AverageConsumedWatts = f64_zero, pm_IntervalInMin = f64_zero,
     pm_MaxConsumedWatts = f64_zero, pm_MinConsumedWatts = f64_zero \<rparr>"

definition pc_zero :: PowerControl where
  "pc_zero = \<lparr> pc_PhysicalContext = [], pc_Name = [], pc_MemberId = [],
     pc_PowerConsumedWatts = f64_zero, pc_PowerMetrics = pm_zero \<rparr>"

definition ps_zero :: PowerSupply where
  "ps_zero = \<lparr> ps_MemberId = [], ps_Name = [], ps_LastPowerOutputWatts = f64_zero,
     ps_LineInputVoltage = f64_zero, ps_PowerInputWatts = f64_zero, ps_PowerOutputWatts = f64_zero \<rparr>"

definition vt_zero :: Voltage where
  "vt_zero = \<lparr> vt_Name = [], vt_MemberId = [], vt_PhysicalContext = [], vt_ReadingVolts = f64_zero \<rparr>"

definition pw_zero :: Power where
  "pw_zero = \<lparr> pw_PowerControl = [], pw_PowerSupplies = [], pw_Voltages = [] \<rparr>"

definition tm_zero :: Temperature where
  "tm_zero = \<lparr> tm_Name = [], tm_MemberId = [], tm_PhysicalContext = [], tm_ReadingCelsius = f64_zero \<rparr>"

definition fn_zero :: Fan where
  "fn_zero = \<lparr> fn_Name = [], fn_PhysicalContext = [], fn_MemberId = [], fn_Reading = f64_zero \<rparr>"

definition th_zero :: EnclosureThermal where
  "th_zero = \<lparr> th_Temperatures = [], th_Fans = [] \<rparr>"

definition pm_fields :: "PowerMetrics field list" where
  "pm_fields =
    [jfield ''AverageConsumedWatts'' pm_AverageConsumedWatts pm_AverageConsumedWatts_update dec_float64,
     jfield ''IntervalInMin'' pm_IntervalInMin pm_IntervalInMin_update dec_float64,
     jfield ''MaxConsumedWatts'' pm_MaxConsumedWatts pm_MaxConsumedWatts_update dec_float64,
     jfield ''MinConsumedWatts'' pm_MinConsumedWatts pm_MinConsumedWatts_update dec_float64]"

definition pc_fields :: "PowerControl field list" where
  "pc_fields =
    [jfield ''PhysicalContext'' pc_PhysicalContext pc_PhysicalContext_update dec_string,
     jfield ''Name'' pc_Name pc_Name_update dec_string,
     jfield ''MemberId'' pc_MemberId pc_MemberId_update dec_string,
     jfield ''PowerConsumedWatts'' pc_PowerConsumedWatts pc_PowerConsumedWatts_update dec_float64,
     jfield ''PowerMetrics'' pc_PowerMetrics pc_PowerMetrics_update (dec_struct pm_fields)]"

definition ps_fields :: "PowerSupply field list" where
  "ps_fields =
    [jfield ''MemberId'' ps_MemberId ps_MemberId_update dec_string,
     jfield ''Name'' ps_Name ps_Name_update dec_string,
     jfield ''LastPowerOutputWatts'' ps_LastPowerOutputWatts ps_LastPowerOutputWatts_update dec_float64,
     jfield ''LineInputVoltage'' ps_LineInputVoltage ps_LineInputVoltage_update dec_float64,
     jfield ''PowerInputWatts'' ps_PowerInputWatts ps_PowerInputWatts_update dec_float64,
     jfield ''PowerOutputWatts'' ps_PowerOutputWatts ps_PowerOutputWatts_update dec_float64]"

definition vt_fields :: "Voltage field list" where
  "vt_fields =
    [jfield ''Name'' vt_Name vt_Name_update dec_string,
     jfield ''MemberId'' vt_MemberId vt_MemberId_update dec_string,
     jfield ''PhysicalContext'' vt_PhysicalContext vt_PhysicalContext_update dec_string,
     jfield ''ReadingVolts'' vt_ReadingVolts vt_ReadingVolts_update dec_float64]"

definition pw_fields :: "Power field list" where
  "pw_fields =
    [jfield ''PowerControl'' pw_PowerControl pw_PowerControl_update (dec_list (dec_struct pc_fields) pc_zero),
     jfield ''PowerSupplies'' pw_PowerSupplies pw_PowerSupplies_update (dec_list (dec_struct ps_fields) ps_zero),
     jfield ''Voltages'' pw_Voltages pw_Voltages_update (dec_list (dec_struct vt_fields) vt_zero)]"

definition tm_fields :: "Temperature field list" where
  "tm_fields =
    [jfield ''Name'' tm_Name tm_Name_update dec_string,
     jfield ''MemberId'' tm_MemberId tm_MemberId_update dec_string,
     jfield ''PhysicalContext'' tm_PhysicalContext tm_PhysicalContext_update dec_string,
     jfield ''ReadingCelsius'' tm_ReadingCelsius tm_ReadingCelsius_update dec_float64]"

definition fn_fields :: "Fan field list" where
  "fn_fields =
    [jfield ''Name'' fn_Name fn_Name_update dec_string,
     jfield ''PhysicalContext'' fn_PhysicalContext fn_PhysicalContext_update dec_string,
     jfield ''MemberId'' fn_MemberId fn_MemberId_update dec_string,
     jfield ''Reading'' fn_Reading fn_Reading_update dec_float64]"

definition th_fields :: "EnclosureThermal field list" where
  "th_fields =
    [jfield ''Temperatures'' th_Temperatures th_Temperatures_update (dec_list (dec_struct tm_fields) tm_zero),
     jfield ''Fans'' th_Fans th_Fans_update (dec_list (dec_struct fn_fields) fn_zero)]"

definition Unmarshal_Power :: "string \<Rightarrow> Power option" where
  "Unmarshal_Power = Unmarshal (dec_struct pw_fields) pw_zero"

definition Unmarshal_Thermal :: "string \<Rightarrow> EnclosureThermal option" where
  "Unmarshal_Thermal = Unmarshal (dec_struct th_fields) th_zero"

section \<open>Subscriptions\<close>

record EventSubscriptionCollection =
  sc_OType :: string
  sc_Name :: string
  sc_MembersOCount :: int
  sc_Members :: "ResourceID list"

record EventSubscription =
  es_OContext :: string
  es_Oid :: string
  es_Otype :: string
  es_Id :: string
  es_Name :: string
  es_Context :: string
  es_Destination :: string
  es_EventTypes :: "string list"
  es_Protocol :: string
  es_RegistryPrefixes :: "string list"
  es_Oem :: "int option"

definition sc_zero :: EventSubscriptionCollection where
  "sc_zero = \<lparr> sc_OType = [], sc_Name = [], sc_MembersOCount = 0, sc_Members = [] \<rparr>"

definition es_zero :: EventSubscription where
  "es_zero = \<lparr> es_OContext = [], es_Oid = [], es_Otype = [], es_Id = [], es_Name = [], es_Context = [],
     es_Destination = [], es_EventTypes = [], es_Protocol = [], es_RegistryPrefixes = [], es_Oem = None \<rparr>"

definition sc_fields :: "EventSubscriptionCollection field list" where
  "sc_fields =
    [jfield ''@odata.type'' sc_OType sc_OType_update dec_string,
     jfield ''Name'' sc_Name sc_Name_update dec_string,
     jfield ''Members@odata.count'' sc_MembersOCount sc_MembersOCount_update (dec_int 64),
     jfield ''Members'' sc_Members sc_Members_update (dec_list (dec_struct resource_fields) resource_zero)]"

text \<open>The \<^verbatim>\<open>RFOem\<close> struct has one field, \<^verbatim>\<open>EventTransmitIntervalSeconds\<close>, kept as its value.\<close>

definition rfoem_fields :: "int field list" where
  "rfoem_fields = [jfield ''EventTransmitIntervalSeconds'' (\<lambda>i. i) (\<lambda>f i. f i) (dec_int 64)]"

definition es_fields :: "EventSubscription field list" where
  "es_fields =
    [jfield ''@odata.context'' es_OContext es_OContext_update dec_string,
     jfield ''@odata.id'' es_Oid es_Oid_update dec_string,
     jfield ''@odata.type'' es_Otype es_Otype_update dec_string,
     jfield ''Id'' es_Id es_Id_update dec_string,
     jfield ''Name'' es_Name es_Name_update dec_string,
     jfield ''Context'' es_Context es_Context_update dec_string,
     jfield ''Destination'' es_Destination es_Destination_update dec_string,
     jfield ''EventTypes'' es_EventTypes es_EventTypes_update (dec_list dec_string []),
     jfield ''Protocol'' es_Protocol es_Protocol_update dec_string,
     jfield ''RegistryPrefixes'' es_RegistryPrefixes es_RegistryPrefixes_update (dec_list dec_string []),
     jfield ''Oem'' es_Oem es_Oem_update (dec_ptr (dec_struct rfoem_fields) 0)]"

definition enc_subscription :: "EventSubscription \<Rightarrow> json" where
  "enc_subscription e = JObj
    (w_str_oe ''@odata.context'' (es_OContext e) @ w_str_oe ''@odata.id'' (es_Oid e) @
     w_str_oe ''@odata.type'' (es_Otype e) @ w_str_oe ''Id'' (es_Id e) @ w_str_oe ''Name'' (es_Name e) @
     w_str_oe ''Context'' (es_Context e) @ w_str ''Destination'' (es_Destination e) @
     w_strs_oe ''EventTypes'' (es_EventTypes e) @ w_str ''Protocol'' (es_Protocol e) @
     w_strs_oe ''RegistryPrefixes'' (es_RegistryPrefixes e) @
     (case es_Oem e of None \<Rightarrow> []
      | Some i \<Rightarrow> [(''Oem'', JObj [(''EventTransmitIntervalSeconds'', JNum (Itoa i))])]))"

definition Unmarshal_Subscriptions :: "string \<Rightarrow> EventSubscriptionCollection option" where
  "Unmarshal_Subscriptions = Unmarshal (dec_struct sc_fields) sc_zero"

definition Unmarshal_Subscription :: "string \<Rightarrow> EventSubscription option" where
  "Unmarshal_Subscription = Unmarshal (dec_struct es_fields) es_zero"

text \<open>\<^verbatim>\<open>EventService\<close>: its only field.\<close>

definition Unmarshal_EventService :: "string \<Rightarrow> string list option" where
  "Unmarshal_EventService =
     Unmarshal (dec_struct [jfield ''EventTypesForSubscription'' (\<lambda>x. x) (\<lambda>f x. f x) (dec_list dec_string [])]) []"

section \<open>Hardware identification\<close>

text \<open>\<^verbatim>\<open>Systems\<close> and \<^verbatim>\<open>Chassis\<close> have the model as their only field.\<close>

definition Unmarshal_Model :: "string \<Rightarrow> string option" where
  "Unmarshal_Model = Unmarshal (dec_struct [jfield ''Model'' (\<lambda>x. x) (\<lambda>f x. f x) dec_string]) []"

record RackPDU =
  pdu_Manufacturer :: string
  pdu_Model :: string
  pdu_Outlets :: ResourceID
  pdu_Branches :: ResourceID
  pdu_Mains :: ResourceID

definition pdu_zero :: RackPDU where
  "pdu_zero = \<lparr> pdu_Manufacturer = [], pdu_Model = [], pdu_Outlets = resource_zero,
     pdu_Branches = resource_zero, pdu_Mains = resource_zero \<rparr>"

definition pdu_fields :: "RackPDU field list" where
  "pdu_fields =
    [jfield ''Manufacturer'' pdu_Manufacturer pdu_Manufacturer_update dec_string,
     jfield ''Model'' pdu_Model pdu_Model_update dec_string,
     jfield ''Outlets'' pdu_Outlets pdu_Outlets_update (dec_struct resource_fields),
     jfield ''Branches'' pdu_Branches pdu_Branches_update (dec_struct resource_fields),
     jfield ''Mains'' pdu_Mains pdu_Mains_update (dec_struct resource_fields)]"

definition Unmarshal_RackPDU :: "string \<Rightarrow> RackPDU option" where
  "Unmarshal_RackPDU = Unmarshal (dec_struct pdu_fields) pdu_zero"

text \<open>The three collections of a PDU, each a struct with one list of resources.\<close>

definition Unmarshal_members :: "string \<Rightarrow> string \<Rightarrow> ResourceID list option" where
  "Unmarshal_members name =
     Unmarshal (dec_struct [jfield name (\<lambda>x. x) (\<lambda>f x. f x) (dec_list (dec_struct resource_fields) resource_zero)]) []"

record PDUSensor =
  sn_DataSourceUri :: string
  sn_Reading :: float64

record Outlet =
  ol_Id :: string
  ol_Links :: ResourceID
  ol_PowerState :: string
  ol_Voltage :: PDUSensor
  ol_CurrentAmps :: PDUSensor
  ol_PowerWatts :: PDUSensor
  ol_EnergykWh :: PDUSensor

record Circuit =
  ci_Id :: string
  ci_Name :: string
  ci_CurrentAmps :: PDUSensor
  ci_EnergykWh :: PDUSensor
  ci_PolyPhasePowerWatts :: "(string \<times> PDUSensor) list"
  ci_PolyPhaseVoltage :: "(string \<times> PDUSensor) list"
  ci_PolyPhaseCurrentAmps :: "(string \<times> PDUSensor) list"

definition sn_zero :: PDUSensor where
  "sn_zero = \<lparr> sn_DataSourceUri = [], sn_Reading = f64_zero \<rparr>"

definition ol_zero :: Outlet where
  "ol_zero = \<lparr> ol_Id = [], ol_Links = resource_zero, ol_PowerState = [], ol_Voltage = sn_zero,
     ol_CurrentAmps = sn_zero, ol_PowerWatts = sn_zero, ol_EnergykWh = sn_zero \<rparr>"

definition ci_zero :: Circuit where
  "ci_zero = \<lparr> ci_Id = [], ci_Name = [], ci_CurrentAmps = sn_zero, ci_EnergykWh = sn_zero,
     ci_PolyPhasePowerWatts = [], ci_PolyPhaseVoltage = [], ci_PolyPhaseCurrentAmps = [] \<rparr>"

definition sn_fields :: "PDUSensor field list" where
  "sn_fields =
    [jfield ''DataSourceUri'' sn_DataSourceUri sn_DataSourceUri_update dec_string,
     jfield ''Reading'' sn_Reading sn_Reading_update dec_float64]"

definition ol_fields :: "Outlet field list" where
  "ol_fields =
    [jfield ''Id'' ol_Id ol_Id_update dec_string,
     jfield ''Links'' ol_Links ol_Links_update (dec_struct resource_fields),
     jfield ''PowerState'' ol_PowerState ol_PowerState_update dec_string,
     jfield ''Voltage'' ol_Voltage ol_Voltage_update (dec_struct sn_fields),
     jfield ''CurrentAmps'' ol_CurrentAmps ol_CurrentAmps_update (dec_struct sn_fields),
     jfield ''PowerWatts'' ol_PowerWatts ol_PowerWatts_update (dec_struct sn_fields),
     jfield ''EnergykWh'' ol_EnergykWh ol_EnergykWh_update (dec_struct sn_fields)]"

definition ci_fields :: "Circuit field list" where
  "ci_fields =
    [jfield ''Id'' ci_Id ci_Id_update dec_string,
     jfield ''Name'' ci_Name ci_Name_update dec_string,
     jfield ''CurrentAmps'' ci_CurrentAmps ci_CurrentAmps_update (dec_struct sn_fields),
     jfield ''EnergykWh'' ci_EnergykWh ci_EnergykWh_update (dec_struct sn_fields),
     jfield ''PolyPhasePowerWatts'' ci_PolyPhasePowerWatts ci_PolyPhasePowerWatts_update
       (dec_map (dec_struct sn_fields) sn_zero),
     jfield ''PolyPhaseVoltage'' ci_PolyPhaseVoltage ci_PolyPhaseVoltage_update
       (dec_map (dec_struct sn_fields) sn_zero),
     jfield ''PolyPhaseCurrentAmps'' ci_PolyPhaseCurrentAmps ci_PolyPhaseCurrentAmps_update
       (dec_map (dec_struct sn_fields) sn_zero)]"

definition Unmarshal_Outlet :: "string \<Rightarrow> Outlet option" where
  "Unmarshal_Outlet = Unmarshal (dec_struct ol_fields) ol_zero"

definition Unmarshal_Circuit :: "string \<Rightarrow> Circuit option" where
  "Unmarshal_Circuit = Unmarshal (dec_struct ci_fields) ci_zero"

end
