(* ===== verification/Url.thy ===== *)
theory Url
  imports GoStrings
begin

text \<open>
  Go's package \<^verbatim>\<open>net/url\<close>: \<^verbatim>\<open>url.Parse\<close>, \<^verbatim>\<open>URL.Port\<close> and \<^verbatim>\<open>URL.String\<close>, used to build the destination of
  an event subscription, and the check \<^verbatim>\<open>http.NewRequest\<close> makes of its URL.
\<close>

record url =
  u_Scheme :: string
  u_Opaque :: string
  u_User :: "(string \<times> string option) option"
  u_Host :: string
  u_Path :: string
  u_RawPath :: string
  u_OmitHost :: bool
  u_ForceQuery :: bool
  u_RawQuery :: string
  u_Fragment :: string
  u_RawFragment :: string

datatype encoding = EncPath | EncHost | EncZone | EncUser | EncFragment

section \<open>Escaping\<close>

definition isLetter :: "char \<Rightarrow> bool" where
  "isLetter c \<longleftrightarrow> 65 \<le> (of_char c :: nat) \<and> (of_char c :: nat) \<le> 90 \<or> 97 \<le> (of_char c :: nat) \<and> (of_char c :: nat) \<le> 122"

definition shouldEscape :: "char \<Rightarrow> encoding \<Rightarrow> bool" where
  "shouldEscape c mode =
     (if isLetter c \<or> isDigit c then False
      else if (mode = EncHost \<or> mode = EncZone) \<and>
        c \<in> set (''!$&()*+,;=:[]<>'' @ [CHR 0x22, CHR 0x27]) then False
      else if c \<in> set ''-_.~'' then False
      else if c \<in> set ''$&+,/:;=?@'' then
        (case mode of
           EncPath \<Rightarrow> c = CHR ''?''
         | EncUser \<Rightarrow> c \<in> set ''@/?:''
         | EncFragment \<Rightarrow> False
         | _ \<Rightarrow> True)
      else if mode = EncFragment then c \<notin> set ''!()*''
      else True)"

definition unhex :: "char \<Rightarrow> nat option" where
  "unhex c =
     (let n = (of_char c :: nat) in
      if 48 \<le> n \<and> n \<le> 57 then Some (n - 48)
      else if 97 \<le> n \<and> n \<le> 102 then Some (n - 87)
      else if 65 \<le> n \<and> n \<le> 70 then Some (n - 55)
      else None)"

fun unescape :: "string \<Rightarrow> encoding \<Rightarrow> string option" where
  "unescape [] mode = Some []"
| "unescape (c # s) mode =
     (if c = CHR ''%'' then
        (case s of
           a # b # t \<Rightarrow>
             (case (unhex a, unhex b) of
                (Some x, Some y) \<Rightarrow>
                  if mode = EncHost \<and> x < 8 \<and> (x, y) \<noteq> (2, 5) then None
                  else if mode = EncZone \<and> (x, y) \<noteq> (2, 5) \<and> x * 16 + y \<noteq> 32 \<and>
                    shouldEscape (char_of (x * 16 + y)) EncHost then None
                  else map_option ((#) (char_of (x * 16 + y))) (unescape t mode)
              | _ \<Rightarrow> None)
         | _ \<Rightarrow> None)
      else if (mode = EncHost \<or> mode = EncZone) \<and> of_char c < (128 :: nat) \<and> shouldEscape c mode then None
      else map_option ((#) c) (unescape s mode))"

definition upperhex :: "nat \<Rightarrow> char" where
  "upperhex n = (if n < 10 then char_of (48 + n) else char_of (55 + n))"

definition escape :: "string \<Rightarrow> encoding \<Rightarrow> string" where
  "escape s mode =
     concat (map (\<lambda>c. if shouldEscape c mode
                      then [CHR ''%'', upperhex (of_char c div 16), upperhex (of_char c mod 16)] else [c]) s)"

section \<open>Parsing\<close>

definition cut :: "string \<Rightarrow> char \<Rightarrow> string \<times> string \<times> bool" where
  "cut s sep =
     (let a = takeWhile (\<lambda>c. c \<noteq> sep) s; r = dropWhile (\<lambda>c. c \<noteq> sep) s
      in case r of [] \<Rightarrow> (s, [], False) | _ # t \<Rightarrow> (a, t, True))"

text \<open>Split at the last separator: what stands before it and, with the separator, after it.\<close>

definition cut_last :: "string \<Rightarrow> char \<Rightarrow> (string \<times> string) option" where
  "cut_last s sep =
     (if sep \<in> set s
      then let t = rev (takeWhile (\<lambda>c. c \<noteq> sep) (rev s)) in Some (take (length s - length t - 1) s, t)
      else None)"

definition validOptionalPort :: "string \<Rightarrow> bool" where
  "validOptionalPort p = (case p of [] \<Rightarrow> True | c # ds \<Rightarrow> c = CHR '':'' \<and> list_all isDigit ds)"

fun getScheme_loop :: "nat \<Rightarrow> string \<Rightarrow> string \<Rightarrow> (string \<times> string) option" where
  "getScheme_loop i raw [] = Some ([], raw)"
| "getScheme_loop i raw (c # s) =
     (if isLetter c then getScheme_loop (Suc i) raw s
      else if isDigit c \<or> c \<in> set ''+-.'' then
        (if i = 0 then Some ([], raw) else getScheme_loop (Suc i) raw s)
      else if c = CHR '':'' then (if i = 0 then None else Some (take i raw, s))
      else Some ([], raw))"

definition parseHost :: "string \<Rightarrow> string option" where
  "parseHost host =
     (if HasPrefix host ''['' then
        (case cut_last host (CHR '']'') of
           None \<Rightarrow> None
         | Some (inner, colonPort) \<Rightarrow>
             if \<not> validOptionalPort colonPort then None
             else unescape host EncHost)
      else (case cut_last host (CHR '':'') of
         Some (h, p) \<Rightarrow> if validOptionalPort (CHR '':'' # p) then unescape host EncHost else None
       | None \<Rightarrow> unescape host EncHost))"

definition validUserinfo :: "string \<Rightarrow> bool" where
  "validUserinfo s =
     list_all (\<lambda>c. isLetter c \<or> isDigit c \<or> c \<in> set (''-._:~!$&()*+,;=%@'' @ [CHR 0x27])) s"

definition parseAuthority :: "string \<Rightarrow> ((string \<times> string option) option \<times> string) option" where
  "parseAuthority authority =
     (case cut_last authority (CHR ''@'') of
        None \<Rightarrow> map_option (\<lambda>h. (None, h)) (parseHost authority)
      | Some (userinfo, h) \<Rightarrow>
          (case parseHost h of
             None \<Rightarrow> None
           | Some host \<Rightarrow>
               if \<not> validUserinfo userinfo then None
               else (case cut userinfo (CHR '':'') of
                 (name, pass, has) \<Rightarrow>
                   (case (unescape name EncUser, unescape pass EncUser) of
                      (Some n, Some p) \<Rightarrow> Some (Some (n, if has then Some p else None), host)
                    | _ \<Rightarrow> None))))"

definition empty_url :: url where
  "empty_url = \<lparr> u_Scheme = [], u_Opaque = [], u_User = None, u_Host = [], u_Path = [], u_RawPath = [],
     u_OmitHost = False, u_ForceQuery = False, u_RawQuery = [], u_Fragment = [], u_RawFragment = [] \<rparr>"

definition setPath :: "url \<Rightarrow> string \<Rightarrow> url option" where
  "setPath u p =
     (case unescape p EncPath of
        None \<Rightarrow> None
      | Some pth \<Rightarrow> Some (u\<lparr>u_Path := pth, u_RawPath := (if p = escape pth EncPath then [] else p)\<rparr>))"

definition parse_after_query :: "url \<Rightarrow> string \<Rightarrow> url option" where
  "parse_after_query u rest =
     (if \<not> HasPrefix rest ''/'' \<and> u_Scheme u \<noteq> [] then Some (u\<lparr>u_Opaque := rest\<rparr>)
      else if \<not> HasPrefix rest ''/'' \<and> CHR '':'' \<in> set (fst (cut rest (CHR ''/''))) then None
      else if (u_Scheme u \<noteq> [] \<or> \<not> HasPrefix rest ''///'') \<and> HasPrefix rest ''//'' then
        (let auth0 = drop 2 rest;
             authority = takeWhile (\<lambda>c. c \<noteq> CHR ''/'') auth0;
             path = dropWhile (\<lambda>c. c \<noteq> CHR ''/'') auth0
         in case parseAuthority authority of
              None \<Rightarrow> None
            | Some (user, host) \<Rightarrow> setPath (u\<lparr>u_User := user, u_Host := host\<rparr>) path)
      else setPath (u\<lparr>u_OmitHost := (u_Scheme u \<noteq> [] \<and> HasPrefix rest ''/'')\<rparr>) rest)"

definition parse_url :: "string \<Rightarrow> url option" where
  "parse_url rawURL =
     (if list_ex (\<lambda>c. of_char c < (32 :: nat) \<or> of_char c = (127 :: nat)) rawURL then None
      else if rawURL = ''*'' then Some (empty_url\<lparr>u_Path := ''*''\<rparr>)
      else case getScheme_loop 0 rawURL rawURL of
          None \<Rightarrow> None
        | Some (scheme, rest) \<Rightarrow>
            let u = empty_url\<lparr>u_Scheme := ToLower scheme\<rparr>
            in if HasSuffix rest ''?'' \<and> count_list rest (CHR ''?'') = 1
               then parse_after_query (u\<lparr>u_ForceQuery := True\<rparr>) (butlast rest)
               else (case cut rest (CHR ''?'') of
                 (rest', q, _) \<Rightarrow> parse_after_query (u\<lparr>u_RawQuery := q\<rparr>) rest'))"

definition Parse :: "string \<Rightarrow> url option" where
  "Parse rawURL =
     (case cut rawURL (CHR ''#'') of (u, frag, _) \<Rightarrow>
        (case parse_url u of
           None \<Rightarrow> None
         | Some url \<Rightarrow>
             if frag = [] then Some url
             else (case unescape frag EncFragment of
               None \<Rightarrow> None
             | Some f \<Rightarrow> Some (url\<lparr>u_Fragment := f,
                 u_RawFragment := (if frag = escape f EncFragment then [] else frag)\<rparr>))))"

section \<open>Accessors and printing\<close>

definition Port :: "url \<Rightarrow> string" where
  "Port u =
     (case cut_last (u_Host u) (CHR '':'') of
        Some (h, p) \<Rightarrow> if validOptionalPort (CHR '':'' # p) then p else []
      | None \<Rightarrow> [])"

definition EscapedPath :: "url \<Rightarrow> string" where
  "EscapedPath u =
     (if u_RawPath u \<noteq> [] \<and> list_all (\<lambda>c. c \<in> set (''!$&()*+,;=:@[]%'' @ [CHR 0x27]) \<or> \<not> shouldEscape c EncPath) (u_RawPath u) \<and>
         unescape (u_RawPath u) EncPath = Some (u_Path u) then u_RawPath u
      else if u_Path u = ''*'' then ''*''
      else escape (u_Path u) EncPath)"

definition EscapedFragment :: "url \<Rightarrow> string" where
  "EscapedFragment u =
     (if u_RawFragment u \<noteq> [] \<and> unescape (u_RawFragment u) EncFragment = Some (u_Fragment u) \<and>
         list_all (\<lambda>c. c \<in> set (''!$&()*+,;=:@[]%'' @ [CHR 0x27]) \<or> \<not> shouldEscape c EncFragment) (u_RawFragment u)
      then u_RawFragment u else escape (u_Fragment u) EncFragment)"

definition user_string :: "string \<times> string option \<Rightarrow> string" where
  "user_string up =
     escape (fst up) EncUser @ (case snd up of None \<Rightarrow> [] | Some p \<Rightarrow> CHR '':'' # escape p EncUser)"

definition authority_string :: "url \<Rightarrow> string" where
  "authority_string u =
     (if u_Scheme u = [] \<and> u_Host u = [] \<and> u_User u = None then []
      else if u_OmitHost u \<and> u_Host u = [] \<and> u_User u = None then []
      else (if u_Host u \<noteq> [] \<or> u_Path u \<noteq> [] \<or> u_User u \<noteq> None then ''//'' else []) @
           (case u_User u of None \<Rightarrow> [] | Some up \<Rightarrow> user_string up @ ''@'') @
           escape (u_Host u) EncHost)"

definition URL_String :: "url \<Rightarrow> string" where
  "URL_String u =
     (let sch = (if u_Scheme u = [] then [] else u_Scheme u @ '':'');
          hier =
            (if u_Opaque u \<noteq> [] then u_Opaque u
             else let a = authority_string u; p = EscapedPath u;
                      slash = (if p \<noteq> [] \<and> hd p \<noteq> CHR ''/'' \<and> u_Host u \<noteq> [] then ''/'' else []);
                      dot = (if sch @ a @ slash = [] \<and> CHR '':'' \<in> set (fst (cut p (CHR ''/''))) then ''./'' else [])
                  in a @ slash @ dot @ p)
      in sch @ hier @
         (if u_ForceQuery u \<or> u_RawQuery u \<noteq> [] then CHR ''?'' # u_RawQuery u else []) @
         (if u_Fragment u \<noteq> [] then CHR ''#'' # EscapedFragment u else []))"

section \<open>Plain URLs\<close>

lemma unescape_plain:
  assumes "list_all (\<lambda>c. c \<noteq> CHR ''%'' \<and> \<not> shouldEscape c mode) s"
  shows "unescape s mode = Some s"
  using assms by (induction s) auto

lemma escape_plain: "list_all (\<lambda>c. \<not> shouldEscape c mode) s \<Longrightarrow> escape s mode = s"
  by (induction s) (auto simp: escape_def)

lemma cut_last_None: "sep \<notin> set s \<Longrightarrow> cut_last s sep = None"
  by (simp add: cut_last_def)

lemma cut_no_sep: "sep \<notin> set s \<Longrightarrow> cut s sep = (s, [], False)"
proof -
  assume "sep \<notin> set s"
  then have d: "dropWhile (\<lambda>c. c \<noteq> sep) s = []" by (auto simp: dropWhile_eq_Nil_conv)
  show ?thesis by (simp only: cut_def Let_def d list.case)
qed

lemma cut_last_append:
  assumes "sep \<notin> set t"
  shows "cut_last (s @ sep # t) sep = Some (s, t)"
proof -
  have "takeWhile (\<lambda>c. c \<noteq> sep) (rev t @ sep # rev s) = rev t"
    using assms by (auto simp: takeWhile_append takeWhile_eq_all_conv[THEN iffD2])
  then show ?thesis by (simp add: cut_last_def)
qed

definition plain_char :: "char \<Rightarrow> bool" where
  "plain_char c \<longleftrightarrow> isLetter c \<or> isDigit c \<or> c = CHR ''-'' \<or> c = CHR ''.''"

lemma plain_char_simps [simp]:
  "\<not> plain_char (CHR '':'')" "\<not> plain_char (CHR ''/'')" "\<not> plain_char (CHR ''@'')"
  "\<not> plain_char (CHR ''?'')" "\<not> plain_char (CHR ''#'')" "\<not> plain_char (CHR ''%'')" "\<not> plain_char (CHR ''['')"
  by (simp_all add: plain_char_def isLetter_def isDigit_def)

lemma plain_char_unescaped:
  assumes "plain_char c"
  shows "\<not> shouldEscape c mode"
proof (cases "isLetter c \<or> isDigit c")
  case True
  then show ?thesis by (simp add: shouldEscape_def)
next
  case False
  with assms have "c = CHR ''-'' \<or> c = CHR ''.''" by (simp add: plain_char_def)
  then show ?thesis by (elim disjE) (simp_all add: shouldEscape_def)
qed

lemma plain_char_printable: "plain_char c \<Longrightarrow> 32 \<le> (of_char c :: nat) \<and> (of_char c :: nat) \<noteq> 127"
  by (auto simp: plain_char_def isLetter_def isDigit_def)

text \<open>A host name or address with nothing to escape and no port.\<close>

definition plain_host :: "string \<Rightarrow> bool" where
  "plain_host h \<longleftrightarrow> h \<noteq> [] \<and> list_all plain_char h"

lemma plain_hostD:
  assumes "plain_host h"
  shows "h \<noteq> []" "CHR '':'' \<notin> set h" "CHR ''/'' \<notin> set h" "CHR ''@'' \<notin> set h" "CHR ''?'' \<notin> set h"
    "CHR ''#'' \<notin> set h" "list_all (\<lambda>c. c \<noteq> CHR ''%'' \<and> \<not> shouldEscape c EncHost) h"
    "\<not> HasPrefix h ''[''" "list_all (\<lambda>c. 32 \<le> (of_char c :: nat) \<and> (of_char c :: nat) \<noteq> 127) h"
proof -
  from assms have *: "h \<noteq> []" "\<And>c. c \<in> set h \<Longrightarrow> plain_char c"
    by (auto simp: plain_host_def list_all_iff)
  show "h \<noteq> []" by fact
  show "CHR '':'' \<notin> set h" "CHR ''/'' \<notin> set h" "CHR ''@'' \<notin> set h" "CHR ''?'' \<notin> set h" "CHR ''#'' \<notin> set h"
    using *(2) plain_char_simps by blast+
  show "list_all (\<lambda>c. c \<noteq> CHR ''%'' \<and> \<not> shouldEscape c EncHost) h"
    unfolding list_all_iff
    by (intro ballI conjI) (metis *(2) plain_char_simps(6), metis *(2) plain_char_unescaped)
  show "list_all (\<lambda>c. 32 \<le> (of_char c :: nat) \<and> (of_char c :: nat) \<noteq> 127) h"
    unfolding list_all_iff by (intro ballI) (rule plain_char_printable[OF *(2)])
  show "\<not> HasPrefix h ''[''"
  proof (cases h)
    case (Cons c t)
    with *(2)[of c] have "c \<noteq> CHR ''[''" by (metis list.set_intros(1) plain_char_simps(7))
    with Cons show ?thesis by (simp add: HasPrefix_def)
  qed (use *(1) in simp)
qed

lemma parseAuthority_plain:
  assumes "plain_host h"
  shows "parseAuthority h = Some (None, h)"
  using plain_hostD[OF assms]
  by (simp add: parseAuthority_def parseHost_def cut_last_None unescape_plain)

definition plain_url :: "string \<Rightarrow> string \<Rightarrow> url" where
  "plain_url scheme h = empty_url\<lparr>u_Scheme := scheme, u_Host := h\<rparr>"

lemma parse_after_query_plain:
  assumes "plain_host h" "u_Scheme u \<noteq> []" "u_Path u = []" "u_RawPath u = []" "u_User u = None"
  shows "parse_after_query u (''//'' @ h) = Some (u\<lparr>u_Host := h\<rparr>)"
proof -
  note h = plain_hostD[OF assms(1)]
  from h(3) have tw: "takeWhile (\<lambda>c. c \<noteq> CHR ''/'') h = h" "dropWhile (\<lambda>c. c \<noteq> CHR ''/'') h = []"
    by (auto simp: takeWhile_eq_all_conv dropWhile_eq_Nil_conv)
  have "HasPrefix (''//'' @ h) ''/''" "HasPrefix (''//'' @ h) ''//''" by (simp_all add: HasPrefix_def)
  then have "parse_after_query u (''//'' @ h) = setPath (u\<lparr>u_User := None, u_Host := h\<rparr>) []"
    unfolding parse_after_query_def Let_def using assms(2)
    by (simp only: append_Cons append_Nil drop_Cons_numeral drop0 drop_Suc_Cons numeral_2_eq_2
        tw parseAuthority_plain[OF assms(1)] simp_thms if_True if_False option.case prod.case)
  with assms show ?thesis by (simp add: setPath_def escape_def)
qed

lemma getScheme_http: "getScheme_loop 0 (''http:'' @ r) (''http:'' @ r) = Some (''http'', r)"
  by (simp add: isLetter_def isDigit_def)

lemma Parse_plain:
  assumes "plain_host h"
  shows "Parse (''http://'' @ h) = Some (plain_url ''http'' h)"
proof -
  note h = plain_hostD[OF assms]
  let ?raw = "''http:'' @ ''//'' @ h"
  have frag: "cut ?raw (CHR ''#'') = (?raw, [], False)" using h(6) by (intro cut_no_sep) auto
  have q: "cut (''//'' @ h) (CHR ''?'') = (''//'' @ h, [], False)" using h(5) by (intro cut_no_sep) auto
  have nq: "count_list (''//'' @ h) (CHR ''?'') = 0" using h(5) by (simp add: count_list_0_iff)
  have printable: "\<not> list_ex (\<lambda>c. of_char c < (32 :: nat) \<or> of_char c = (127 :: nat)) ?raw"
    using h(9) by (auto simp: list_ex_iff list_all_iff)
  have "parse_url ?raw = parse_after_query (empty_url\<lparr>u_Scheme := ''http'', u_RawQuery := []\<rparr>) (''//'' @ h)"
    unfolding parse_url_def Let_def
    by (simp only: printable getScheme_http q nq option.case prod.case if_False)
      (simp add: ToLower_def toLower_def)
  also have "\<dots> = Some (plain_url ''http'' h)"
    by (subst parse_after_query_plain[OF assms]) (simp_all add: empty_url_def plain_url_def)
  finally have "parse_url ?raw = Some (plain_url ''http'' h)" .
  then have "Parse ?raw = Some (plain_url ''http'' h)"
    unfolding Parse_def by (simp only: frag prod.case option.case if_True refl)
  then show ?thesis by simp
qed

lemma URL_String_plain:
  assumes "s \<noteq> []" "h \<noteq> []" "list_all (\<lambda>c. \<not> shouldEscape c EncHost) h"
    "list_all (\<lambda>c. \<not> shouldEscape c EncPath) i"
  shows "URL_String ((plain_url s h)\<lparr>u_Path := CHR ''/'' # i\<rparr>) = s @ ''://'' @ h @ ''/'' @ i"
proof -
  have "escape (CHR ''/'' # i) EncPath = CHR ''/'' # i"
    using assms(4) by (intro escape_plain) (simp add: shouldEscape_def isLetter_def isDigit_def)
  with assms escape_plain[OF assms(3)] show ?thesis
    by (simp add: URL_String_def plain_url_def empty_url_def EscapedPath_def authority_string_def Let_def)
qed

end
