(* ===== verification/Xname.thy ===== *)
theory Xname
  imports GoStrings
begin

text \<open>
  Component names (xnames), from \<^verbatim>\<open>vendor/github.com/Cray-HPE/hms-xname/xnametypes/hmstypes.go\<close>:
  the recognition table, \<^verbatim>\<open>GetHMSType\<close> and \<^verbatim>\<open>NormalizeHMSCompID\<close>. The table is a Go map, so the
  order in which \<^verbatim>\<open>GetHMSType\<close> tries its regular expressions changes from call to call; the main
  result here is that the answer does not depend on that order.
\<close>

datatype (plugins only: code) HMSType =
    CDU | CDUMgmtSwitch | CabinetCDU | Cabinet | CabinetBMC | CabinetPDUController
  | CabinetPDU | CabinetPDUNic | CabinetPDUOutlet | CabinetPDUPowerConnector | Chassis
  | ChassisBMC | ChassisBMCNic | CMMRectifier | CMMFpga | CEC | ComputeModule | RouterModule
  | NodeBMC | NodeBMCNic | NodeEnclosure | NodeEnclosurePowerSupply | NodePowerConnector
  | Node | VirtualNode | Processor | StorageGroup | Drive | NodeNic | NodeHsnNic | Memory
  | NodeAccel | NodeAccelRiser | NodeFpga | HSNAsic | RouterFpga | RouterTOR | RouterTORFpga
  | RouterBMC | RouterBMCNic | RouterPowerConnector | HSNBoard | HSNLink | HSNConnector
  | HSNConnectorPort | MgmtSwitch | MgmtHLSwitchEnclosure | MgmtHLSwitch | MgmtSwitchConnector
  | SMSBox | Partition | System | HMSTypeAll | HMSTypeAllComp | HMSTypeAllSvc | HMSTypeInvalid

text \<open>The regular expressions of the table: one character of a set, a run of digits, any character.\<close>

datatype seg = One string | Digits0 | Digits1 | Digits14 | AnyChar

datatype regex = Anchored "seg list list" | Substring string

fun match_segs :: "seg list \<Rightarrow> string \<Rightarrow> bool" where
  "match_segs [] s = (s = [])"
| "match_segs (One cs # p) s = (case s of [] \<Rightarrow> False | c # t \<Rightarrow> c \<in> set cs \<and> match_segs p t)"
| "match_segs (AnyChar # p) s =
     (case s of [] \<Rightarrow> False | c # t \<Rightarrow> of_char c \<noteq> (10 :: nat) \<and> match_segs p t)"
| "match_segs (Digits0 # p) s =
     list_ex (\<lambda>k. list_all isDigit (take k s) \<and> match_segs p (drop k s)) [0..<Suc (length s)]"
| "match_segs (Digits1 # p) s =
     list_ex (\<lambda>k. list_all isDigit (take k s) \<and> match_segs p (drop k s)) [1..<Suc (length s)]"
| "match_segs (Digits14 # p) s =
     list_ex (\<lambda>k. list_all isDigit (take k s) \<and> match_segs p (drop k s))
       [1..<Suc (min 4 (length s))]"

fun MatchString :: "regex \<Rightarrow> string \<Rightarrow> bool" where
  "MatchString (Anchored ps) s = list_ex (\<lambda>p. match_segs p s) ps"
| "MatchString (Substring sub) s = Contains s sub"

definition hmsCompRecognitionTable :: "(HMSType \<times> regex) list" where
  "hmsCompRecognitionTable =
    [
     (HMSTypeInvalid, Substring ''INVALID''),
     (HMSTypeAll, Anchored [[One ''a'', One ''l'', One ''l'']]),
     (HMSTypeAllSvc, Anchored [[One ''a'', One ''l'', One ''l'', One ''_'', One ''s'', One ''v'',
        One ''c'']]),
     (HMSTypeAllComp, Anchored [[One ''a'', One ''l'', One ''l'', One ''_'', One ''c'', One ''o'',
        One ''m'', One ''p'']]),
     (Partition, Anchored [[One ''p'', Digits1], [One ''p'', Digits1, AnyChar, Digits1]]),
     (System, Anchored [[One ''s'', One ''0'']]),
     (SMSBox, Anchored [[One ''s'', One ''m'', One ''s'', Digits1]]),
     (CDU, Anchored [[One ''d'', Digits1]]),
     (CDUMgmtSwitch, Anchored [[One ''d'', Digits1, One ''w'', Digits1]]),
     (CabinetCDU, Anchored [[One ''x'', Digits14, One ''d'', One ''01'']]),
     (CabinetPDUController, Anchored [[One ''x'', Digits14, One ''m'', One ''0123'']]),
     (CabinetPDU, Anchored [[One ''x'', Digits14, One ''m'', One ''0123'', One ''p'', One
        ''01234567'']]),
     (CabinetPDUNic, Anchored [[One ''x'', Digits14, One ''m'', One ''0123'', One ''i'', One
        ''0123'']]),
     (CabinetPDUOutlet, Anchored [[One ''x'', Digits14, One ''m'', One ''0123'', One ''p'', One
        ''01234567'', One ''j'', One ''123456789'', Digits0]]),
     (CabinetPDUPowerConnector, Anchored [[One ''x'', Digits14, One ''m'', One ''0123'', One ''p'',
        One ''01234567'', One ''v'', One ''123456789'', Digits0]]),
     (CEC, Anchored [[One ''x'', Digits14, One ''e'', One ''01'']]),
     (Cabinet, Anchored [[One ''x'', Digits14]]),
     (CabinetBMC, Anchored [[One ''x'', Digits14, One ''b'', One ''0'']]),
     (Chassis, Anchored [[One ''x'', Digits14, One ''c'', One ''01234567'']]),
     (ChassisBMC, Anchored [[One ''x'', Digits14, One ''c'', One ''01234567'', One ''b'', One
        ''0'']]),
     (ChassisBMCNic, Anchored [[One ''x'', Digits14, One ''c'', One ''01234567'', One ''b'', One
        ''0'', One ''i'', One ''0123'']]),
     (CMMFpga, Anchored [[One ''x'', Digits14, One ''c'', One ''01234567'', One ''f'', One ''0'']]),
     (CMMRectifier, Anchored [[One ''x'', Digits14, One ''c'', One ''01234567'', One ''t'', One
        ''0123456789'']]),
     (ComputeModule, Anchored [[One ''x'', Digits14, One ''c'', One ''01234567'', One ''s'',
        Digits1]]),
     (StorageGroup, Anchored [[One ''x'', Digits14, One ''c'', One ''01234567'', One ''s'', Digits1,
        One ''b'', Digits1, One ''n'', Digits1, One ''g'', Digits1]]),
     (Drive, Anchored [[One ''x'', Digits14, One ''c'', One ''01234567'', One ''s'', Digits1, One
        ''b'', Digits1, One ''n'', Digits1, One ''g'', Digits1, One ''k'', Digits1]]),
     (NodeFpga, Anchored [[One ''x'', Digits14, One ''c'', One ''01234567'', One ''s'', Digits1, One
        ''b'', Digits1, One ''f'', One ''0'']]),
     (NodeBMC, Anchored [[One ''x'', Digits14, One ''c'', One ''01234567'', One ''s'', Digits1, One
        ''b'', Digits1]]),
     (NodeBMCNic, Anchored [[One ''x'', Digits14, One ''c'', One ''01234567'', One ''s'', Digits1,
        One ''b'', Digits1, One ''i'', One ''0123'']]),
     (NodeEnclosure, Anchored [[One ''x'', Digits14, One ''c'', One ''01234567'', One ''s'',
        Digits1, One ''e'', Digits1]]),
     (NodeEnclosurePowerSupply, Anchored [[One ''x'', Digits14, One ''c'', One ''01234567'', One
        ''s'', Digits1, One ''e'', Digits1, One ''t'', Digits1]]),
     (NodePowerConnector, Anchored [[One ''x'', Digits14, One ''c'', One ''01234567'', One ''s'',
        Digits1, One ''jv'', One ''12'']]),
     (HSNBoard, Anchored [[One ''x'', Digits14, One ''c'', One ''01234567'', One ''r'', Digits1, One
        ''e'', Digits1]]),
     (Node, Anchored [[One ''x'', Digits14, One ''c'', One ''01234567'', One ''s'', Digits1, One
        ''b'', Digits1, One ''n'', Digits1]]),
     (VirtualNode, Anchored [[One ''x'', Digits14, One ''c'', One ''01234567'', One ''s'', Digits1,
        One ''b'', Digits1, One ''n'', Digits1, One ''v'', Digits1]]),
     (NodeNic, Anchored [[One ''x'', Digits14, One ''c'', One ''01234567'', One ''s'', Digits1, One
        ''b'', Digits1, One ''n'', Digits1, One ''i'', One ''0123'']]),
     (NodeHsnNic, Anchored [[One ''x'', Digits14, One ''c'', One ''01234567'', One ''s'', Digits1,
        One ''b'', Digits1, One ''n'', Digits1, One ''h'', One ''0123'']]),
     (NodeAccel, Anchored [[One ''x'', Digits14, One ''c'', One ''01234567'', One ''s'', Digits1,
        One ''b'', Digits1, One ''n'', Digits1, One ''a'', Digits1]]),
     (NodeAccelRiser, Anchored [[One ''x'', Digits14, One ''c'', One ''01234567'', One ''s'',
        Digits1, One ''b'', Digits1, One ''n'', Digits1, One ''r'', One ''01234567'']]),
     (Memory, Anchored [[One ''x'', Digits14, One ''c'', One ''01234567'', One ''s'', Digits1, One
        ''b'', Digits1, One ''n'', Digits1, One ''d'', Digits1]]),
     (Processor, Anchored [[One ''x'', Digits14, One ''c'', One ''01234567'', One ''s'', Digits1,
        One ''b'', Digits1, One ''n'', Digits1, One ''p'', One ''0123'']]),
     (RouterModule, Anchored [[One ''x'', Digits14, One ''c'', One ''01234567'', One ''r'',
        Digits1]]),
     (RouterFpga, Anchored [[One ''x'', Digits14, One ''c'', One ''01234567'', One ''r'', Digits1,
        One ''f'', One ''01'']]),
     (RouterTOR, Anchored [[One ''x'', Digits14, One ''c'', One ''01234567'', One ''r'', Digits1,
        One ''t'', Digits1]]),
     (RouterTORFpga, Anchored [[One ''x'', Digits14, One ''c'', One ''01234567'', One ''r'',
        Digits1, One ''t'', Digits1, One ''f'', One ''01'']]),
     (RouterBMC, Anchored [[One ''x'', Digits14, One ''c'', One ''01234567'', One ''r'', Digits1,
        One ''b'', Digits1]]),
     (RouterBMCNic, Anchored [[One ''x'', Digits14, One ''c'', One ''01234567'', One ''r'', Digits1,
        One ''b'', Digits1, One ''i'', One ''0123'']]),
     (RouterPowerConnector, Anchored [[One ''x'', Digits14, One ''c'', One ''01234567'', One ''r'',
        Digits1, One ''v'', One ''12'']]),
     (HSNAsic, Anchored [[One ''x'', Digits14, One ''c'', One ''01234567'', One ''r'', Digits1, One
        ''a'', One ''0123'']]),
     (HSNConnector, Anchored [[One ''x'', Digits14, One ''c'', One ''01234567'', One ''r'', Digits1,
        One ''j'', One ''123456789'', Digits0]]),
     (HSNConnectorPort, Anchored [[One ''x'', Digits14, One ''c'', One ''01234567'', One ''r'',
        Digits1, One ''j'', One ''123456789'', Digits0, One ''p'', One ''012'']]),
     (HSNLink, Anchored [[One ''x'', Digits14, One ''c'', One ''01234567'', One ''r'', Digits1, One
        ''a'', One ''0123'', One ''l'', Digits1]]),
     (MgmtSwitch, Anchored [[One ''x'', Digits14, One ''c'', One ''01234567'', One ''w'', One
        ''123456789'', Digits0]]),
     (MgmtSwitchConnector, Anchored [[One ''x'', Digits14, One ''c'', One ''01234567'', One ''w'',
        One ''123456789'', Digits0, One ''j'', One ''123456789'', Digits0]]),
     (MgmtHLSwitchEnclosure, Anchored [[One ''x'', Digits14, One ''c'', One ''01234567'', One ''h'',
        One ''123456789'', Digits0]]),
     (MgmtHLSwitch, Anchored [[One ''x'', Digits14, One ''c'', One ''01234567'', One ''h'', One
        ''123456789'', Digits0, One ''s'', One ''123456789'']])
    ]"

definition GetHMSType_in :: "(HMSType \<times> regex) list \<Rightarrow> string \<Rightarrow> HMSType" where
  "GetHMSType_in tbl xname =
     (case find (\<lambda>(ty, re). MatchString re xname) tbl of
        Some (ty, re) \<Rightarrow> ty
      | None \<Rightarrow> HMSTypeInvalid)"

definition GetHMSType :: "string \<Rightarrow> HMSType" where
  "GetHMSType xname = GetHMSType_in hmsCompRecognitionTable xname"

text \<open>
  \<^verbatim>\<open>unicode.IsNumber\<close> of a single byte read as a rune: the ASCII digits and the numbers of Latin-1.
\<close>

definition isNumberByte :: "char \<Rightarrow> bool" where
  "isNumberByte c \<longleftrightarrow> isDigit c \<or> of_char c \<in> {178, 179, 185, 188, 189, 190 :: nat}"

fun rlz_loop :: "bool \<Rightarrow> string \<Rightarrow> string" where
  "rlz_loop lastLetter [] = []"
| "rlz_loop lastLetter [c] = [c]"
| "rlz_loop lastLetter (c # d # s) =
     (if c = CHR ''0'' \<and> lastLetter \<and> isNumberByte d then rlz_loop lastLetter (d # s)
      else c # rlz_loop (\<not> isNumberByte c) (d # s))"

definition RemoveLeadingZeros :: "string \<Rightarrow> string" where
  "RemoveLeadingZeros s = (if length s < 2 then s else rlz_loop True s)"

definition NormalizeHMSCompID :: "string \<Rightarrow> string" where
  "NormalizeHMSCompID xname = ToLower (RemoveLeadingZeros (TrimSpace xname))"

section \<open>The patterns of the table exclude each other\<close>

text \<open>
  The skeleton of a string is what is left when its digits are dropped. A pattern without
  \<open>AnyChar\<close> fixes the skeleton of what it matches.
\<close>

definition skel :: "string \<Rightarrow> string" where
  "skel s = filter (\<lambda>c. \<not> isDigit c) s"

fun skels :: "seg list \<Rightarrow> string list" where
  "skels [] = [[]]"
| "skels (One cs # p) =
     (let r = skels p
      in (if list_ex isDigit cs then r else []) @
         concat (map (\<lambda>c. map ((#) c) r) (filter (\<lambda>c. \<not> isDigit c) cs)))"
| "skels (g # p) = skels p"

fun letters :: "seg list \<Rightarrow> nat" where
  "letters [] = 0"
| "letters (One cs # p) = Suc (letters p)"
| "letters (AnyChar # p) = Suc (letters p)"
| "letters (g # p) = letters p"

definition no_any :: "seg list \<Rightarrow> bool" where
  "no_any p \<longleftrightarrow> list_all (\<lambda>g. g \<noteq> AnyChar) p"

definition disjoint_lists :: "'a list \<Rightarrow> 'a list \<Rightarrow> bool" where
  "disjoint_lists xs ys \<longleftrightarrow> list_all (\<lambda>x. \<not> List.member ys x) xs"

definition first_set :: "seg list \<Rightarrow> string option" where
  "first_set p = (case p of One cs # _ \<Rightarrow> Some cs | _ \<Rightarrow> None)"

definition apart_segs :: "seg list \<Rightarrow> seg list \<Rightarrow> bool" where
  "apart_segs p q \<longleftrightarrow>
     (case (first_set p, first_set q) of (Some cs, Some ds) \<Rightarrow> disjoint_lists cs ds | _ \<Rightarrow> False)
     \<or> no_any p \<and> no_any q \<and> disjoint_lists (skels p) (skels q)"

definition apart_sub :: "string \<Rightarrow> seg list \<Rightarrow> bool" where
  "apart_sub sub p \<longleftrightarrow>
     no_any p \<and> list_all (\<lambda>k. \<not> Contains k (skel sub)) (skels p) \<or> letters p < length (skel sub)"

lemma skel_simps [simp]:
  "skel [] = []"
  "skel (c # s) = (if isDigit c then skel s else c # skel s)"
  "skel (s @ t) = skel s @ skel t"
  by (simp_all add: skel_def)

lemma skel_digits: "list_all isDigit ds \<Longrightarrow> skel ds = []"
  by (induction ds) auto

lemma skel_drop_digits: "list_all isDigit (take k s) \<Longrightarrow> skel (drop k s) = skel s"
  by (metis append_Nil append_take_drop_id skel_digits skel_simps(3))

lemma match_digits:
  assumes "match_segs (g # p) s" "g \<in> {Digits0, Digits1, Digits14}"
  obtains k where "skel (drop k s) = skel s" "match_segs p (drop k s)"
proof -
  from assms obtain k where "list_all isDigit (take k s)" "match_segs p (drop k s)"
    by (auto simp: list_ex_iff simp del: upt_Suc)
  then show thesis using that skel_drop_digits by blast
qed

lemma match_skel: "match_segs p s \<Longrightarrow> no_any p \<Longrightarrow> skel s \<in> set (skels p)"
proof (induction p arbitrary: s)
  case Nil
  then show ?case by simp
next
  case (Cons g p)
  then have IH: "match_segs p t \<Longrightarrow> skel t \<in> set (skels p)" for t by (simp add: no_any_def)
  show ?case
  proof (cases g)
    case (One cs)
    with Cons.prems IH show ?thesis
      by (auto simp: Let_def list_ex_iff split: list.splits)
  next
    case AnyChar
    with Cons.prems show ?thesis by (simp add: no_any_def)
  qed (use Cons.prems IH in \<open>auto elim!: match_digits simp del: match_segs.simps, metis+\<close>)
qed

lemma match_letters: "match_segs p s \<Longrightarrow> length (skel s) \<le> letters p"
proof (induction p arbitrary: s)
  case Nil
  then show ?case by simp
next
  case (Cons g p)
  show ?case
  proof (cases g)
    case (One cs)
    with Cons show ?thesis by (fastforce split: list.splits)
  next
    case AnyChar
    with Cons show ?thesis by (fastforce split: list.splits)
  qed (use Cons in \<open>auto elim!: match_digits simp del: match_segs.simps dest!: Cons.IH\<close>)
qed

lemma match_first: "match_segs p s \<Longrightarrow> first_set p = Some cs \<Longrightarrow> \<exists>c t. s = c # t \<and> c \<in> set cs"
  by (cases p; cases "hd p") (auto simp: first_set_def split: list.splits seg.splits)

lemma apart_segs_sound: "apart_segs p q \<Longrightarrow> match_segs p s \<Longrightarrow> \<not> match_segs q s"
  unfolding apart_segs_def disjoint_lists_def list_all_iff
  by (auto split: option.splits dest: match_skel match_first)

lemma apart_sub_sound: 
  assumes "apart_sub sub p" "match_segs p s"
  shows "\<not> Contains s sub"
proof
  assume "Contains s sub"
  then obtain a b where "s = a @ sub @ b" by (auto simp: Contains_iff)
  then have sk: "skel s = skel a @ skel sub @ skel b" by simp
  with match_letters[OF assms(2)] have len: "length (skel sub) \<le> letters p" by simp
  with assms(1) have "no_any p" "list_all (\<lambda>k. \<not> Contains k (skel sub)) (skels p)"
    by (auto simp: apart_sub_def)
  with match_skel[OF assms(2)] have "\<not> Contains (skel s) (skel sub)" by (auto simp: list_all_iff)
  then show False using sk by (auto simp: Contains_iff)
qed



fun entry_skels :: "regex \<Rightarrow> string list" where
  "entry_skels (Anchored ps) = concat (map skels ps)"
| "entry_skels (Substring sub) = []"

fun plain :: "regex \<Rightarrow> bool" where
  "plain (Anchored ps) = list_all no_any ps"
| "plain (Substring sub) = False"

definition plain_entries :: "(HMSType \<times> regex) list" where
  "plain_entries = filter (\<lambda>e. plain (snd e)) hmsCompRecognitionTable"

definition partition_segs :: "seg list list" where
  "partition_segs = [[One ''p'', Digits1], [One ''p'', Digits1, AnyChar, Digits1]]"

lemma plain_skels: "MatchString r s \<Longrightarrow> plain r \<Longrightarrow> skel s \<in> set (entry_skels r)"
  by (cases r) (auto simp: list_ex_iff list_all_iff dest: match_skel)

lemma table_skels_distinct: "distinct (concat (map (\<lambda>e. entry_skels (snd e)) plain_entries))"
  by code_simp

lemma table_special:
  "filter (\<lambda>e. \<not> plain (snd e)) hmsCompRecognitionTable =
     [(HMSTypeInvalid, Substring ''INVALID''), (Partition, Anchored partition_segs)]"
  by code_simp

lemma partition_apart:
  "list_all (\<lambda>e. case snd e of Anchored ps \<Rightarrow> list_all (\<lambda>p. list_all (apart_segs p) partition_segs) ps
     | Substring _ \<Rightarrow> False) plain_entries"
  by code_simp

lemma invalid_apart:
  "list_all (\<lambda>e. case snd e of Anchored ps \<Rightarrow> list_all (apart_sub ''INVALID'') ps
     | Substring _ \<Rightarrow> False) ((Partition, Anchored partition_segs) # plain_entries)"
  by code_simp

lemma distinct_concat_unique:
  assumes "distinct (concat (map f xs))" "a \<in> set xs" "b \<in> set xs" "x \<in> set (f a)" "x \<in> set (f b)"
  shows "a = b"
  using assms by (induction xs) auto

lemma table_cases:
  assumes "e \<in> set hmsCompRecognitionTable"
  obtains "e \<in> set plain_entries" "plain (snd e)"
    | "e = (HMSTypeInvalid, Substring ''INVALID'')" | "e = (Partition, Anchored partition_segs)"
proof (cases "plain (snd e)")
  case True
  with assms that(1) show thesis by (simp add: plain_entries_def)
next
  case False
  with assms have "e \<in> set (filter (\<lambda>e. \<not> plain (snd e)) hmsCompRecognitionTable)" by simp
  then show thesis using that(2,3) unfolding table_special by auto
qed

lemma plain_entries_Anchored:
  assumes "e \<in> set plain_entries"
  obtains ps where "snd e = Anchored ps"
  using assms by (cases "snd e") (auto simp: plain_entries_def)

lemma partition_apart_sound:
  assumes "e \<in> set plain_entries" "MatchString (snd e) s"
  shows "\<not> MatchString (Anchored partition_segs) s"
proof -
  from assms(1) obtain ps where ps: "snd e = Anchored ps" by (rule plain_entries_Anchored)
  have "list_all (\<lambda>p. list_all (apart_segs p) partition_segs) ps"
    using partition_apart[unfolded list_all_iff[of _ plain_entries], rule_format, OF assms(1)] ps by simp
  then have "\<forall>p\<in>set ps. \<forall>q\<in>set partition_segs. apart_segs p q" by (simp add: list_all_iff)
  moreover from ps assms(2) obtain p where "p \<in> set ps" "match_segs p s" by (auto simp: list_ex_iff)
  ultimately show ?thesis by (auto simp: list_ex_iff dest: apart_segs_sound)
qed

lemma invalid_apart_sound:
  assumes "e \<in> set ((Partition, Anchored partition_segs) # plain_entries)" "MatchString (snd e) s"
  shows "\<not> MatchString (Substring ''INVALID'') s"
proof -
  from assms(1) obtain ps where ps: "snd e = Anchored ps"
    by (metis plain_entries_Anchored set_ConsD snd_conv)
  have "list_all (apart_sub ''INVALID'') ps"
    using invalid_apart[unfolded list_all_iff[of _ "_ # plain_entries"], rule_format, OF assms(1)] ps by simp
  then have "\<forall>p\<in>set ps. apart_sub ''INVALID'' p" by (simp add: list_all_iff)
  moreover from ps assms(2) obtain p where "p \<in> set ps" "match_segs p s" by (auto simp: list_ex_iff)
  ultimately show ?thesis using apart_sub_sound by auto
qed

lemma special_apart:
  assumes "e \<in> set hmsCompRecognitionTable" "MatchString (snd e) s"
  shows "MatchString (Substring ''INVALID'') s \<Longrightarrow> e = (HMSTypeInvalid, Substring ''INVALID'')"
    and "MatchString (Anchored partition_segs) s \<Longrightarrow> e = (Partition, Anchored partition_segs)"
proof -
  note part = invalid_apart_sound[of "(Partition, Anchored partition_segs)" s, simplified snd_conv]
  show "e = (HMSTypeInvalid, Substring ''INVALID'')" if "MatchString (Substring ''INVALID'') s"
    using assms that
    by (cases rule: table_cases[OF assms(1)]) (metis invalid_apart_sound list.set_intros snd_conv)+
  show "e = (Partition, Anchored partition_segs)" if "MatchString (Anchored partition_segs) s"
    using assms that
    by (cases rule: table_cases[OF assms(1)])
      (metis invalid_apart_sound partition_apart_sound list.set_intros snd_conv)+
qed

lemma table_unique:
  assumes "a \<in> set hmsCompRecognitionTable" "b \<in> set hmsCompRecognitionTable"
    "MatchString (snd a) s" "MatchString (snd b) s"
  shows "a = b"
proof (cases rule: table_cases[OF assms(1)])
  case 1
  note A = this
  show ?thesis
  proof (cases rule: table_cases[OF assms(2)])
    case 1
    then show ?thesis
      using distinct_concat_unique[OF table_skels_distinct A(1)] plain_skels[OF assms(3) A(2)]
        plain_skels[OF assms(4)] by blast
  qed (use special_apart[OF assms(1,3)] assms(4) in \<open>metis snd_conv\<close>)+
qed (use special_apart[OF assms(2,4)] assms(3) in \<open>metis snd_conv\<close>)+

lemma find_table_unique:
  assumes "set tbl = set hmsCompRecognitionTable" "e \<in> set tbl" "MatchString (snd e) x"
  shows "find (\<lambda>(ty, re). MatchString re x) tbl = Some e"
proof (rule find_unique)
  show "y = e" if "y \<in> set tbl" "case y of (ty, re) \<Rightarrow> MatchString re x" for y
    by (rule table_unique[of y e x]) (use that assms in \<open>simp_all add: case_prod_beta\<close>)
qed (use assms in \<open>simp_all add: case_prod_beta\<close>)

lemma GetHMSType_iff:
  assumes "(ty, re) \<in> set hmsCompRecognitionTable" "MatchString re x"
  shows "GetHMSType x = ty"
  using find_table_unique[OF refl assms(1)] assms(2) by (simp add: GetHMSType_def GetHMSType_in_def)

lemma GetHMSType_in_set:
  assumes "set tbl = set hmsCompRecognitionTable"
  shows "GetHMSType_in tbl xname = GetHMSType xname"
proof (cases "\<exists>e \<in> set tbl. MatchString (snd e) xname")
  case True
  then obtain e where e: "e \<in> set tbl" "MatchString (snd e) xname" by blast
  with find_table_unique[OF assms e] find_table_unique[OF refl _ e(2)] assms show ?thesis
    by (simp add: GetHMSType_def GetHMSType_in_def)
next
  case False
  then have "find (\<lambda>(ty, re). MatchString re xname) tbl = None"
    and "find (\<lambda>(ty, re). MatchString re xname) hmsCompRecognitionTable = None"
    using assms by (auto simp: find_None_iff_all)
  then show ?thesis by (simp add: GetHMSType_def GetHMSType_in_def)
qed

section \<open>Normal forms\<close>

lemma rlz_loop_Nil [simp]: "rlz_loop b s = [] \<longleftrightarrow> s = []"
  by (induction b s rule: rlz_loop.induct) auto

lemma rlz_loop_last: "s \<noteq> [] \<Longrightarrow> last (rlz_loop b s) = last s"
  by (induction b s rule: rlz_loop.induct) auto

lemma rlz_loop_hd:
  "s \<noteq> [] \<Longrightarrow> hd (rlz_loop b s) = hd s \<or> hd s = CHR ''0'' \<and> isNumberByte (hd (rlz_loop b s))"
proof (induction b s rule: rlz_loop.induct)
  case (3 b c d s)
  then show ?case by (auto simp: isNumberByte_def isDigit_def)
qed auto

lemma rlz_loop_idem: "rlz_loop b (rlz_loop b s) = rlz_loop b s"
proof (induction b s rule: rlz_loop.induct)
  case (3 b c d s)
  show ?case
  proof (cases "c = CHR ''0'' \<and> b \<and> isNumberByte d")
    case True
    with 3 show ?thesis by simp
  next
    case False
    let ?t = "rlz_loop (\<not> isNumberByte c) (d # s)"
    obtain e u where t: "?t = e # u" by (cases ?t) auto
    from False 3 have IH: "rlz_loop (\<not> isNumberByte c) ?t = ?t" by simp
    have "\<not> (c = CHR ''0'' \<and> b \<and> isNumberByte e)"
    proof
      assume e: "c = CHR ''0'' \<and> b \<and> isNumberByte e"
      with False have "\<not> isNumberByte d" by simp
      then have "e = d" using rlz_loop_hd[of "d # s" "\<not> isNumberByte c"] t
        by (auto simp: isNumberByte_def isDigit_def)
      with e \<open>\<not> isNumberByte d\<close> show False by simp
    qed
    then have "rlz_loop b (c # ?t) = c # ?t" using IH t by auto
    moreover have "rlz_loop b (c # d # s) = c # ?t" using False by auto
    ultimately show ?thesis by (simp only:)
  qed
qed auto

lemma toLower_isNumberByte [simp]: "isNumberByte (toLower c) = isNumberByte c"
  by (auto simp: isNumberByte_def isDigit_def toLower_def)

lemma toLower_zero [simp]: "toLower c = CHR ''0'' \<longleftrightarrow> c = CHR ''0''"
proof
  assume a: "toLower c = CHR ''0''"
  show "c = CHR ''0''"
  proof (cases "65 \<le> (of_char c :: nat) \<and> (of_char c :: nat) \<le> 90")
    case True
    then have "(of_char (toLower c) :: nat) = of_char c + 32" by (simp add: toLower_def)
    with a True show ?thesis by simp
  next
    case False
    with a show ?thesis by (simp add: toLower_def split: if_splits)
  qed
qed (simp add: toLower_def)

lemma toLower_isSpace [simp]: "isSpace (toLower c) = isSpace c"
  by (auto simp: isSpace_def toLower_def)

lemma rlz_loop_lower: "rlz_loop b (map toLower s) = map toLower (rlz_loop b s)"
  by (induction b s rule: rlz_loop.induct) auto

definition no_edge_space :: "string \<Rightarrow> bool" where
  "no_edge_space s \<longleftrightarrow> s = [] \<or> \<not> isSpace (hd s) \<and> \<not> isSpace (last s)"

lemma TrimSpace_id: "no_edge_space s \<Longrightarrow> TrimSpace s = s"
proof (cases s)
  case (Cons c t)
  assume "no_edge_space s"
  with Cons have "dropWhile isSpace s = s" "dropWhile isSpace (rev s) = rev s"
    by (auto simp: no_edge_space_def dropWhile_eq_self_iff hd_append hd_rev)
  then show ?thesis by (simp add: TrimSpace_def)
qed (simp add: TrimSpace_def)

lemma TrimSpace_no_edge: "no_edge_space (TrimSpace s)"
proof -
  let ?t = "dropWhile isSpace s"
  let ?u = "dropWhile isSpace (rev ?t)"
  have "\<not> isSpace (last (rev ?u))" if "?u \<noteq> []"
    using that hd_dropWhile[of isSpace "rev ?t"] by (simp add: last_rev)
  moreover have "\<not> isSpace (hd (rev ?u))" if "?u \<noteq> []"
  proof -
    obtain p where p: "?t = rev ?u @ p"
      by (metis rev_append rev_rev_ident takeWhile_dropWhile_id)
    then have "hd (rev ?u) = hd ?t" using that by (metis hd_append rev_is_Nil_conv)
    moreover have "?t \<noteq> []" using that by fastforce
    ultimately show ?thesis using hd_dropWhile[of isSpace s] by simp
  qed
  ultimately show ?thesis by (auto simp: TrimSpace_def no_edge_space_def)
qed

lemma RemoveLeadingZeros_eq: "RemoveLeadingZeros s = rlz_loop True s"
  by (cases s; cases "tl s") (auto simp: RemoveLeadingZeros_def)

lemma isNumberByte_not_space: "isNumberByte c \<Longrightarrow> \<not> isSpace c"
  by (auto simp: isSpace_def isNumberByte_def isDigit_def)

lemma Normalize_no_edge: "no_edge_space (NormalizeHMSCompID x)"
proof (cases "TrimSpace x = []")
  case True
  then show ?thesis
    by (simp add: NormalizeHMSCompID_def RemoveLeadingZeros_eq ToLower_def no_edge_space_def)
next
  case False
  with TrimSpace_no_edge[of x] rlz_loop_hd[of "TrimSpace x" True] rlz_loop_last[of "TrimSpace x" True]
  show ?thesis
    by (auto simp: NormalizeHMSCompID_def RemoveLeadingZeros_eq ToLower_def no_edge_space_def
        hd_map last_map dest: isNumberByte_not_space)
qed

lemma Normalize_idem: "NormalizeHMSCompID (NormalizeHMSCompID x) = NormalizeHMSCompID x"
proof -
  have "NormalizeHMSCompID (NormalizeHMSCompID x) = ToLower (rlz_loop True (NormalizeHMSCompID x))"
    using TrimSpace_id[OF Normalize_no_edge] by (simp add: NormalizeHMSCompID_def[of "NormalizeHMSCompID x"] RemoveLeadingZeros_eq)
  also have "\<dots> = NormalizeHMSCompID x"
    by (simp add: NormalizeHMSCompID_def RemoveLeadingZeros_eq ToLower_def rlz_loop_lower rlz_loop_idem
        o_def)
  finally show ?thesis .
qed

end
