(* ===== verification/World.thy ===== *)
theory World
  imports Redfish Url Xname
begin

text \<open>
  The state the parts of \<^verbatim>\<open>cmd/hmcollector\<close> share: the package variables, the objects behind the
  pointers that are copied between goroutines (endpoint descriptions, subscription statuses, PDU
  sensor maps, contact times), the command-line flags, and the outside world. What is not in the
  repository (the BMCs behind the HTTP client, Vault, the Kafka client, the clock) is a record of
  functions on an abstract outside state, a parameter of every definition that uses it.
\<close>

section \<open>Endpoint descriptions\<close>

record DiscoveryInfo =
  di_LastAttempt :: string
  di_LastStatus :: string
  di_RedfishVersion :: string

record RedfishEPDescription =
  ep_ID :: string
  ep_Type :: string
  ep_Name :: string
  ep_Hostname :: string
  ep_Domain :: string
  ep_FQDN :: string
  ep_Enabled :: bool
  ep_UUID :: string
  ep_User :: string
  ep_Password :: string
  ep_UseSSDP :: bool
  ep_MACRequired :: bool
  ep_MACAddr :: string
  ep_IPAddr :: string
  ep_RediscOnUpdate :: bool
  ep_TemplateID :: string
  ep_DiscInfo :: DiscoveryInfo

definition di_zero :: DiscoveryInfo where
  "di_zero = \<lparr> di_LastAttempt = [], di_LastStatus = [], di_RedfishVersion = [] \<rparr>"

definition ep_zero :: RedfishEPDescription where
  "ep_zero = \<lparr> ep_ID = [], ep_Type = [], ep_Name = [], ep_Hostname = [], ep_Domain = [], ep_FQDN = [],
     ep_Enabled = False, ep_UUID = [], ep_User = [], ep_Password = [], ep_UseSSDP = False,
     ep_MACRequired = False, ep_MACAddr = [], ep_IPAddr = [], ep_RediscOnUpdate = False,
     ep_TemplateID = [], ep_DiscInfo = di_zero \<rparr>"

definition di_fields :: "DiscoveryInfo field list" where
  "di_fields =
    [jfield ''LastDiscoveryAttempt'' di_LastAttempt di_LastAttempt_update dec_string,
     jfield ''LastDiscoveryStatus'' di_LastStatus di_LastStatus_update dec_string,
     jfield ''RedfishVersion'' di_RedfishVersion di_RedfishVersion_update dec_string]"

definition ep_fields :: "RedfishEPDescription field list" where
  "ep_fields =
    [jfield ''ID'' ep_ID ep_ID_update dec_string,
     jfield ''Type'' ep_Type ep_Type_update dec_string,
     jfield ''Name'' ep_Name ep_Name_update dec_string,
     jfield ''Hostname'' ep_Hostname ep_Hostname_update dec_string,
     jfield ''Domain'' ep_Domain ep_Domain_update dec_string,
     jfield ''FQDN'' ep_FQDN ep_FQDN_update dec_string,
     jfield ''Enabled'' ep_Enabled ep_Enabled_update dec_bool,
     jfield ''UUID'' ep_UUID ep_UUID_update dec_string,
     jfield ''User'' ep_User ep_User_update dec_string,
     jfield ''Password'' ep_Password ep_Password_update dec_string,
     jfield ''UseSSDP'' ep_UseSSDP ep_UseSSDP_update dec_bool,
     jfield ''MACRequired'' ep_MACRequired ep_MACRequired_update dec_bool,
     jfield ''MACAddr'' ep_MACAddr ep_MACAddr_update dec_string,
     jfield ''IPAddress'' ep_IPAddr ep_IPAddr_update dec_string,
     jfield ''RediscoverOnUpdate'' ep_RediscOnUpdate ep_RediscOnUpdate_update dec_bool,
     jfield ''TemplateID'' ep_TemplateID ep_TemplateID_update dec_string,
     jfield ''DiscoveryInfo'' ep_DiscInfo ep_DiscInfo_update (dec_struct di_fields)]"

definition Unmarshal_RedfishEndpoints :: "string \<Rightarrow> RedfishEPDescription list option" where
  "Unmarshal_RedfishEndpoints =
     Unmarshal (dec_struct [jfield ''RedfishEndpoints'' (\<lambda>x. x) (\<lambda>f x. f x) (dec_list (dec_struct ep_fields) ep_zero)]) []"

section \<open>Types of the package variables\<close>

datatype RfType =
  CrayRfType | GigabyteRfType | HpeRfType | IntelRfType | OpenBmcRfType | UnknownRfType | UnsetRfType

record EndpointCache =
  ec_LastDiscoveryAttempt :: string
  ec_Type :: RfType

datatype RFSubStatus = RFSUBSTATUS_ERROR | RFSUBSTATUS_PENDING | RFSUBSTATUS_COMPLETE

text \<open>
  The structs copied through the channels; the pointers in them are addresses. A list of registry
  prefixes is optional where the code tells \<^verbatim>\<open>nil\<close> from an empty list.
\<close>

record RFSub =
  sub_Endpoint :: nat
  sub_Status :: nat
  sub_PrefixGroups :: nat

datatype RiverCollector =
    GigabyteRiverCollector
  | IntelRiverCollector
  | HPERiverCollector
  | OpenBMCRiverCollector
  | HPEPDURiverCollector nat

record EndpointWithCollector =
  ec_Endpoint :: nat
  ec_RiverCollector :: RiverCollector
  ec_LastContacted :: nat
  ec_Model :: string

record KafkaBroker =
  kb_BrokerAddress :: string
  kb_TopicsToPublish :: "string list"
  kb_KafkaProducer :: bool

record kafka_message =
  km_Topic :: string
  km_Key :: "string option"
  km_Value :: string
  km_Timestamp :: int

text \<open>What the polling workers hand to the workers that publish.\<close>

record jsonPayload =
  jp_context :: string
  jp_messageId :: string
  jp_payload :: string
  jp_topic :: string

section \<open>Flags and the outside world\<close>

record http_request =
  rq_method :: string
  rq_url :: string
  rq_auth :: "(string \<times> string) option"
  rq_body :: "string option"

record http_response =
  rs_StatusCode :: int
  rs_Body :: string
  rs_readErr :: bool

record config =
  pollingEnabled :: bool
  rfSubscribeEnabled :: bool
  rfStreamingEnabled :: bool
  restEnabled :: bool
  VaultEnabled :: bool
  pruneOldSubscriptions :: bool
  pduPollingInterval :: int
  restURL :: string
  restPort :: int
  smURL :: string
  IgnoreProvidedTimestamp :: bool
  httpFuel :: nat

text \<open>
  \<^verbatim>\<open>env_Do\<close> is \<^verbatim>\<open>HTTPClientPair.Do\<close> of the Redfish client, \<^verbatim>\<open>env_smdDo\<close> of the State Manager client,
  \<^verbatim>\<open>env_GetCompCred\<close> the credential lookup in Vault, \<^verbatim>\<open>env_Produce\<close> the producer of a broker,
  \<^verbatim>\<open>env_Now\<close>, \<^verbatim>\<open>env_RFC3339\<close> and \<^verbatim>\<open>env_RFC3339Nano\<close> the clock in nanoseconds and its two texts, \<^verbatim>\<open>env_range\<close> the order in which the run-time
  system visits the keys of a map. \<^verbatim>\<open>httpFuel\<close> bounds the retries of one HTTP action.
\<close>

record 'e env = config +
  env_Do :: "http_request \<Rightarrow> 'e \<Rightarrow> (string + http_response) \<times> 'e"
  env_smdDo :: "http_request \<Rightarrow> 'e \<Rightarrow> (string + http_response) \<times> 'e"
  env_GetCompCred :: "string \<Rightarrow> 'e \<Rightarrow> (string + string \<times> string) \<times> 'e"
  env_Produce :: "string \<Rightarrow> kafka_message \<Rightarrow> 'e \<Rightarrow> string option \<times> 'e"
  env_Now :: "'e \<Rightarrow> int \<times> 'e"
  env_RFC3339 :: "int \<Rightarrow> string"
  env_RFC3339Nano :: "int \<Rightarrow> string"
  env_range :: "string list \<Rightarrow> 'e \<Rightarrow> string list \<times> 'e"

section \<open>The shared state\<close>

record 'e world =
  w_ext :: 'e
  w_ep :: "nat \<Rightarrow> RedfishEPDescription"
  w_nextEp :: nat
  w_HSMEndpoints :: "(string \<times> nat) list"
  w_endpointsCache :: "string \<Rightarrow> EndpointCache option"
  w_compCredStore :: bool
  w_kafkaBrokers :: "KafkaBroker list"
  w_smaOK :: bool
  w_smaOKPrev :: bool
  w_smaBroker :: string
  w_caURI :: string
  w_rfClient :: "string option"
  w_endpoints :: "EndpointWithCollector list"
  w_nonPolledEndpoints :: "nat list"
  w_jsonPayloads :: "jsonPayload list"
  w_lastContacted :: "nat \<Rightarrow> int"
  w_sensors :: "nat \<Rightarrow> (string \<times> string) list"
  w_nextObj :: nat
  w_status :: "nat \<Rightarrow> RFSubStatus"
  w_prefixGroups :: "nat \<Rightarrow> string list option list"
  w_nextSub :: nat

text \<open>A call into the outside world.\<close>

definition extIO :: "('e \<Rightarrow> 'a \<times> 'e) \<Rightarrow> ('e world, 'a) io" where
  "extIO f = (\<lambda>w. case f (w_ext w) of (x, e) \<Rightarrow> (Ret x, w\<lparr>w_ext := e\<rparr>))"

definition readEp :: "nat \<Rightarrow> ('e world, RedfishEPDescription) io" where
  "readEp p = getsIO (\<lambda>w. w_ep w p)"

definition writeEp :: "nat \<Rightarrow> (RedfishEPDescription \<Rightarrow> RedfishEPDescription) \<Rightarrow> ('e world, unit) io" where
  "writeEp p f = modifyIO (\<lambda>w. w\<lparr>w_ep := (w_ep w)(p := f (w_ep w p))\<rparr>)"

definition readStatus :: "nat \<Rightarrow> ('e world, RFSubStatus) io" where
  "readStatus p = getsIO (\<lambda>w. w_status w p)"

definition writeStatus :: "nat \<Rightarrow> RFSubStatus \<Rightarrow> ('e world, unit) io" where
  "writeStatus p st = modifyIO (\<lambda>w. w\<lparr>w_status := (w_status w)(p := st)\<rparr>)"

text \<open>\<^verbatim>\<open>time.Now().Format(time.RFC3339)\<close>.\<close>

definition nowString :: "'e env \<Rightarrow> ('e world, string) io" where
  "nowString E = bindIO (extIO (env_Now E)) (\<lambda>t. return (env_RFC3339 E t))"

lemma extIO_run [simp]: "extIO f w = (Ret (fst (f (w_ext w))), w\<lparr>w_ext := snd (f (w_ext w))\<rparr>)"
  by (simp add: extIO_def split: prod.splits)

lemma readEp_run [simp]: "readEp p w = (Ret (w_ep w p), w)"
  by (simp add: readEp_def)

lemma writeEp_run [simp]: "writeEp p f w = (Ret (), w\<lparr>w_ep := (w_ep w)(p := f (w_ep w p))\<rparr>)"
  by (simp add: writeEp_def)

lemma readStatus_run [simp]: "readStatus p w = (Ret (w_status w p), w)"
  by (simp add: readStatus_def)

lemma writeStatus_run [simp]: "writeStatus p st w = (Ret (), w\<lparr>w_status := (w_status w)(p := st)\<rparr>)"
  by (simp add: writeStatus_def)

lemma bind_extIO [simp]:
  "bindIO (extIO f) k w = k (fst (f (w_ext w))) (w\<lparr>w_ext := snd (f (w_ext w))\<rparr>)"
  by (simp add: bindIO_def)

lemma bind_readEp [simp]: "bindIO (readEp p) k w = k (w_ep w p) w"
  by (simp add: bindIO_def)

lemma keeps_extIO [frame_rules]: "(\<And>w e. g (w\<lparr>w_ext := e\<rparr>) = g w) \<Longrightarrow> keeps g (extIO f)"
  by (simp add: keeps_def)

lemma keeps_readEp [frame_rules, simp]: "keeps g (readEp p)"
  by (simp add: keeps_def)

lemma keeps_readStatus [frame_rules, simp]: "keeps g (readStatus p)"
  by (simp add: keeps_def)

lemma keeps_writeEp [frame_rules]:
  "(\<And>w h. g (w\<lparr>w_ep := h\<rparr>) = g w) \<Longrightarrow> keeps g (writeEp p f)"
  by (simp add: keeps_def)

lemma keeps_writeStatus [frame_rules]:
  "(\<And>w h. g (w\<lparr>w_status := h\<rparr>) = g w) \<Longrightarrow> keeps g (writeStatus p st)"
  by (simp add: keeps_def)

lemma keeps_nowString [frame_rules]: "(\<And>w e. g (w\<lparr>w_ext := e\<rparr>) = g w) \<Longrightarrow> keeps g (nowString E)"
  unfolding nowString_def by (intro frame_rules) auto

section \<open>A concrete outside world\<close>

text \<open>An empty state and an outside world that refuses every request, for examples.\<close>

definition world0 :: "'e \<Rightarrow> 'e world" where
  "world0 e = \<lparr> w_ext = e, w_ep = (\<lambda>_. ep_zero), w_nextEp = 0, w_HSMEndpoints = [],
     w_endpointsCache = (\<lambda>_. None), w_compCredStore = True, w_kafkaBrokers = [], w_smaOK = False, w_smaOKPrev = False,
     w_smaBroker = [], w_caURI = [], w_rfClient = None,
     w_endpoints = [], w_nonPolledEndpoints = [], w_jsonPayloads = [], w_lastContacted = (\<lambda>_. 0), w_sensors = (\<lambda>_. []),
     w_nextObj = 0, w_status = (\<lambda>_. RFSUBSTATUS_ERROR), w_prefixGroups = (\<lambda>_. []), w_nextSub = 0 \<rparr>"

definition env0 :: "'e env" where
  "env0 = \<lparr> pollingEnabled = True, rfSubscribeEnabled = True, rfStreamingEnabled = True, restEnabled = True,
     VaultEnabled = True, pruneOldSubscriptions = True, pduPollingInterval = 30, restURL = ''http://10.94.100.71'',
     restPort = 80, smURL = ''http://smd'', IgnoreProvidedTimestamp = False, httpFuel = 2,
     env_Do = (\<lambda>r e. (Inl ''refused'', e)), env_smdDo = (\<lambda>r e. (Inl ''refused'', e)),
     env_GetCompCred = (\<lambda>i e. (Inr (''root'', ''initial0''), e)), env_Produce = (\<lambda>a m e. (None, e)),
     env_Now = (\<lambda>e. (0, e)), env_RFC3339 = (\<lambda>t. ''1970-01-01T00:00:00Z''),
     env_RFC3339Nano = (\<lambda>t. ''1970-01-01T00:00:00Z''), env_range = (\<lambda>ks e. (ks, e)) \<rparr>"

end
