(* ===== verification/Http.thy ===== *)
theory Http
  imports World
begin

text \<open>
  HTTP requests to an endpoint (\<^verbatim>\<open>cmd/hmcollector/http.go\<close>) and the refresh of its credentials from
  Vault (\<^verbatim>\<open>cmd/hmcollector/vault.go\<close>). A 401 or 403 answer refreshes the credentials and repeats the
  request as long as they change; the repetition is bounded by fuel, and with a Vault that answers
  the same for the same endpoint two rounds are enough.
\<close>

datatype http_error = DoError string | CredentialError string | CredentialsUnchanged | ReadError

type_synonym http_result = "string \<times> int \<times> http_error option"

definition updateEndpointWithCredentials :: "'e env \<Rightarrow> nat \<Rightarrow> ('e world, string option) io" where
  "updateEndpointWithCredentials E p =
     bindIO (getsIO w_compCredStore) (\<lambda>store.
     if \<not> store then return (Some ''vault not set up for credentials storage'')
     else
       bindIO (readEp p) (\<lambda>endpoint.
       bindIO (extIO (env_GetCompCred E (ep_ID endpoint))) (\<lambda>r.
       case r of
         Inl credErr \<Rightarrow>
           return (Some (''unable to get credentials for endpoint '' @ ep_ID endpoint @ '': '' @ credErr))
       | Inr (username, password) \<Rightarrow>
           thenIO (writeEp p (\<lambda>ep. ep\<lparr>ep_User := username, ep_Password := password\<rparr>))
           (return None))))"

definition build_request :: "RedfishEPDescription \<Rightarrow> string \<Rightarrow> string \<Rightarrow> string option \<Rightarrow> http_request" where
  "build_request endpoint meth fullURL body =
     \<lparr> rq_method = meth, rq_url = fullURL,
       rq_auth = (if ep_User endpoint = [] \<and> ep_Password endpoint = [] then None
                  else Some (ep_User endpoint, ep_Password endpoint)),
       rq_body = body \<rparr>"

fun doHTTPAction_fuel ::
  "nat \<Rightarrow> 'e env \<Rightarrow> nat \<Rightarrow> string \<Rightarrow> string \<Rightarrow> string option \<Rightarrow> ('e world, http_result) io" where
  "doHTTPAction_fuel 0 E p meth fullURL body = liftIO NoFuel"
| "doHTTPAction_fuel (Suc n) E p meth fullURL body =
     (if Parse fullURL = None then panicIO NilDereference
      else
        bindIO (readEp p) (\<lambda>endpoint.
        bindIO (extIO (env_Do E (build_request endpoint meth fullURL body))) (\<lambda>r.
        case r of
          Inl doErr \<Rightarrow> return ([], 0, Some (DoError doErr))
        | Inr resp \<Rightarrow>
            if rs_StatusCode resp = 401 \<or> rs_StatusCode resp = 403 then
              bindIO (updateEndpointWithCredentials E p) (\<lambda>updateErr.
              case updateErr of
                Some e \<Rightarrow> return ([], rs_StatusCode resp, Some (CredentialError e))
              | None \<Rightarrow>
                  bindIO (readEp p) (\<lambda>endpoint'.
                  if ep_User endpoint' \<noteq> ep_User endpoint \<or> ep_Password endpoint' \<noteq> ep_Password endpoint
                  then doHTTPAction_fuel n E p meth fullURL body
                  else return ([], rs_StatusCode resp, Some CredentialsUnchanged)))
            else if rs_readErr resp then return (rs_Body resp, rs_StatusCode resp, Some ReadError)
            else return (rs_Body resp, rs_StatusCode resp, None))))"

definition doHTTPAction ::
  "'e env \<Rightarrow> nat \<Rightarrow> string \<Rightarrow> string \<Rightarrow> string option \<Rightarrow> ('e world, http_result) io" where
  "doHTTPAction E p meth fullURL body = doHTTPAction_fuel (httpFuel E) E p meth fullURL body"

section \<open>What a request leaves unchanged\<close>

text \<open>An endpoint without its credentials.\<close>

definition identity :: "RedfishEPDescription \<Rightarrow> RedfishEPDescription" where
  "identity ep = ep\<lparr>ep_User := [], ep_Password := []\<rparr>"

text \<open>
  The contract the rest of the collector relies on: a part of the state that neither the outside
  world nor the credentials of an endpoint belong to is kept by every HTTP action.
\<close>

locale http_frame =
  fixes g :: "'e world \<Rightarrow> 'b"
  assumes g_ext: "g (w\<lparr>w_ext := e\<rparr>) = g w"
    and g_creds: "g (w\<lparr>w_ep := (w_ep w)(p := (w_ep w p)\<lparr>ep_User := u, ep_Password := v\<rparr>)\<rparr>) = g w"
begin

lemma keeps_ext: "keeps g (extIO f)"
  by (simp add: keeps_def g_ext)

lemma keeps_creds: "keeps g (writeEp p (\<lambda>ep. ep\<lparr>ep_User := u, ep_Password := v\<rparr>))"
  by (simp add: keeps_def g_creds)

lemma keeps_update: "keeps g (updateEndpointWithCredentials E p)"
  unfolding updateEndpointWithCredentials_def
  by (intro frame_rules keeps_ext keeps_creds)

lemma keeps_http_fuel: "keeps g (doHTTPAction_fuel n E p m u b)"
  by (induction n) (auto intro!: frame_rules keeps_ext keeps_update)

lemma keeps_http: "keeps g (doHTTPAction E p m u b)"
  by (simp add: doHTTPAction_def keeps_http_fuel)

end

interpretation frame_identity: http_frame "\<lambda>w q. identity (w_ep w q)"
  by unfold_locales (auto simp: identity_def)

interpretation frame_cache: http_frame w_endpointsCache
  by unfold_locales auto

interpretation frame_hsm: http_frame w_HSMEndpoints
  by unfold_locales auto

interpretation frame_subs: http_frame "\<lambda>w. (w_status w, w_prefixGroups w, w_nextSub w)"
  by unfold_locales auto

interpretation frame_polling:
  http_frame "\<lambda>w. (w_endpoints w, w_nonPolledEndpoints w, w_lastContacted w, w_sensors w, w_nextObj w)"
  by unfold_locales auto

section \<open>Results of a request\<close>

text \<open>Vault answers by the endpoint asked for, not by the moment it is asked.\<close>

definition vault_stable :: "'e env \<Rightarrow> (string \<Rightarrow> string + string \<times> string) \<Rightarrow> bool" where
  "vault_stable E f \<longleftrightarrow> (\<forall>i e. fst (env_GetCompCred E i e) = f i)"

lemma update_result:
  "updateEndpointWithCredentials E p w =
     (if \<not> w_compCredStore w then (Ret (Some ''vault not set up for credentials storage''), w)
      else let (r, e) = env_GetCompCred E (ep_ID (w_ep w p)) (w_ext w); w1 = w\<lparr>w_ext := e\<rparr>
           in case r of
                Inl err \<Rightarrow>
                  (Ret (Some (''unable to get credentials for endpoint '' @ ep_ID (w_ep w p) @ '': '' @ err)), w1)
              | Inr (u, v) \<Rightarrow>
                  (Ret None, w1\<lparr>w_ep := (w_ep w)(p := (w_ep w p)\<lparr>ep_User := u, ep_Password := v\<rparr>)\<rparr>))"
  by (simp add: updateEndpointWithCredentials_def thenIO_def bindIO_def Let_def
      split: prod.splits sum.splits)

lemma update_creds:
  assumes "vault_stable E f" "updateEndpointWithCredentials E p w = (Ret None, w')"
  shows "f (ep_ID (w_ep w p)) = Inr (ep_User (w_ep w' p), ep_Password (w_ep w' p))"
    and "ep_ID (w_ep w' p) = ep_ID (w_ep w p)"
proof -
  from assms(1) have "fst (env_GetCompCred E (ep_ID (w_ep w p)) (w_ext w)) = f (ep_ID (w_ep w p))"
    by (simp add: vault_stable_def)
  with assms(2) show "f (ep_ID (w_ep w p)) = Inr (ep_User (w_ep w' p), ep_Password (w_ep w' p))"
    and "ep_ID (w_ep w' p) = ep_ID (w_ep w p)"
    by (auto simp: update_result Let_def split: if_splits prod.splits sum.splits)
qed

text \<open>An endpoint whose credentials are those of Vault is never asked twice.\<close>

lemma update_same_creds:
  assumes "vault_stable E f" "f (ep_ID (w_ep w p)) = Inr (ep_User (w_ep w p), ep_Password (w_ep w p))"
    and "updateEndpointWithCredentials E p w = (r, w')"
  shows "w_ep w' p = w_ep w p" and "\<exists>x. r = Ret x"
proof -
  have "fst (env_GetCompCred E (ep_ID (w_ep w p)) (w_ext w)) = Inr (ep_User (w_ep w p), ep_Password (w_ep w p))"
    using assms(1,2) by (simp add: vault_stable_def)
  with assms(3) show "w_ep w' p = w_ep w p" and "\<exists>x. r = Ret x"
    by (auto simp: update_result Let_def split: if_splits prod.splits)
qed

lemma http_step:
  "doHTTPAction_fuel (Suc n) E p m u b w =
     (if Parse u = None then (Panic NilDereference, w)
      else case env_Do E (build_request (w_ep w p) m u b) (w_ext w) of
        (Inl err, e) \<Rightarrow> (Ret ([], 0, Some (DoError err)), w\<lparr>w_ext := e\<rparr>)
      | (Inr resp, e) \<Rightarrow>
          if rs_StatusCode resp = 401 \<or> rs_StatusCode resp = 403 then
            (case updateEndpointWithCredentials E p (w\<lparr>w_ext := e\<rparr>) of
               (Ret (Some err), w') \<Rightarrow> (Ret ([], rs_StatusCode resp, Some (CredentialError err)), w')
             | (Ret None, w') \<Rightarrow>
                 if ep_User (w_ep w' p) \<noteq> ep_User (w_ep w p) \<or> ep_Password (w_ep w' p) \<noteq> ep_Password (w_ep w p)
                 then doHTTPAction_fuel n E p m u b w'
                 else (Ret ([], rs_StatusCode resp, Some CredentialsUnchanged), w')
             | (Panic q, w') \<Rightarrow> (Panic q, w')
             | (NoFuel, w') \<Rightarrow> (NoFuel, w'))
          else (Ret (rs_Body resp, rs_StatusCode resp, if rs_readErr resp then Some ReadError else None),
                w\<lparr>w_ext := e\<rparr>))"
  by (simp add: bindIO_def split: prod.splits sum.splits res.splits option.splits)

declare doHTTPAction_fuel.simps(2) [simp del]

lemma update_total:
  obtains x w' where "updateEndpointWithCredentials E p w = (Ret x, w')"
proof (cases "env_GetCompCred E (ep_ID (w_ep w p)) (w_ext w)")
  case (Pair r e)
  then show thesis by (cases r; cases "w_compCredStore w") (rule that, auto simp: update_result)+
qed

text \<open>One round of a request, whatever the fuel that is left.\<close>

lemma http_round:
  assumes "Parse u \<noteq> None"
  obtains
    (failed) err e where
      "env_Do E (build_request (w_ep w p) m u b) (w_ext w) = (Inl err, e)"
      "\<And>n. doHTTPAction_fuel (Suc n) E p m u b w = (Ret ([], 0, Some (DoError err)), w\<lparr>w_ext := e\<rparr>)"
  | (answered) resp e where
      "env_Do E (build_request (w_ep w p) m u b) (w_ext w) = (Inr resp, e)"
      "rs_StatusCode resp \<noteq> 401" "rs_StatusCode resp \<noteq> 403"
      "\<And>n. doHTTPAction_fuel (Suc n) E p m u b w =
         (Ret (rs_Body resp, rs_StatusCode resp, if rs_readErr resp then Some ReadError else None), w\<lparr>w_ext := e\<rparr>)"
  | (refused) resp e x code err w' where
      "env_Do E (build_request (w_ep w p) m u b) (w_ext w) = (Inr resp, e)"
      "rs_StatusCode resp = 401 \<or> rs_StatusCode resp = 403"
      "updateEndpointWithCredentials E p (w\<lparr>w_ext := e\<rparr>) = (Ret x, w')"
      "\<And>n. doHTTPAction_fuel (Suc n) E p m u b w = (Ret ([], code, Some err), w')"
  | (again) resp e w' where
      "env_Do E (build_request (w_ep w p) m u b) (w_ext w) = (Inr resp, e)"
      "updateEndpointWithCredentials E p (w\<lparr>w_ext := e\<rparr>) = (Ret None, w')"
      "ep_User (w_ep w' p) \<noteq> ep_User (w_ep w p) \<or> ep_Password (w_ep w' p) \<noteq> ep_Password (w_ep w p)"
      "\<And>n. doHTTPAction_fuel (Suc n) E p m u b w = doHTTPAction_fuel n E p m u b w'"
proof (cases "env_Do E (build_request (w_ep w p) m u b) (w_ext w)")
  case (Pair r e)
  show thesis
  proof (cases r)
    case (Inl err)
    with Pair assms show thesis by (intro failed[of err e]) (auto simp: http_step)
  next
    case (Inr resp)
    show thesis
    proof (cases "rs_StatusCode resp = 401 \<or> rs_StatusCode resp = 403")
      case False
      with Inr Pair assms show thesis by (intro answered[of resp e]) (auto simp: http_step)
    next
      case True
      obtain x w' where upd: "updateEndpointWithCredentials E p (w\<lparr>w_ext := e\<rparr>) = (Ret x, w')"
        by (rule update_total)
      note step = http_step[where w = w and u = u and E = E and p = p and m = m and b = b]
      show thesis
      proof (cases x)
        case (Some err)
        with step upd Inr Pair True assms show thesis
          by (intro refused[of resp e x w' "rs_StatusCode resp" "CredentialError err"]) simp_all
      next
        case None
        with step upd Inr Pair True assms show thesis
          by (cases "ep_User (w_ep w' p) \<noteq> ep_User (w_ep w p) \<or> ep_Password (w_ep w' p) \<noteq> ep_Password (w_ep w p)")
             (auto intro: again[of resp e w'] refused[of resp e x w' "rs_StatusCode resp" CredentialsUnchanged])
      qed
    qed
  qed
qed

lemma http_unparsable: "Parse u = None \<Longrightarrow> doHTTPAction_fuel (Suc n) E p m u b w = (Panic NilDereference, w)"
  by (simp add: http_step)

lemma http_current_creds:
  assumes "vault_stable E f" "f (ep_ID (w_ep w p)) = Inr (ep_User (w_ep w p), ep_Password (w_ep w p))"
  shows "doHTTPAction_fuel (Suc n) E p m u b w = doHTTPAction_fuel (Suc 0) E p m u b w
      \<and> fst (doHTTPAction_fuel (Suc n) E p m u b w) \<noteq> NoFuel"
proof (cases "Parse u = None")
  case False
  then show ?thesis
  proof (cases rule: http_round[where E = E and p = p and w = w and m = m and b = b])
    case (again resp e w')
    then show ?thesis using update_same_creds(1)[OF assms(1) _ again(2)] assms(2) by simp
  qed simp_all
qed (simp add: http_unparsable)

text \<open>After one refresh the credentials are those of Vault: two rounds are enough.\<close>

lemma http_fuel_enough:
  assumes "vault_stable E f"
  shows "doHTTPAction_fuel (Suc (Suc n)) E p m u b w = doHTTPAction_fuel 2 E p m u b w
      \<and> fst (doHTTPAction_fuel (Suc (Suc n)) E p m u b w) \<noteq> NoFuel"
proof (cases "Parse u = None")
  case False
  then show ?thesis
  proof (cases rule: http_round[where E = E and p = p and w = w and m = m and b = b])
    case (again resp e w')
    have "f (ep_ID (w_ep w' p)) = Inr (ep_User (w_ep w' p), ep_Password (w_ep w' p))"
      using update_creds[OF assms again(2)] by simp
    from http_current_creds[OF assms this, of n m u b] show ?thesis
      unfolding numeral_2_eq_2 again(4) by metis
  qed (simp_all add: numeral_2_eq_2)
qed (simp add: http_unparsable numeral_2_eq_2)

text \<open>
  A request that succeeds was answered, with the credentials the endpoint has afterwards, by
  something other than 401 and 403.
\<close>

lemma http_answered:
  "doHTTPAction_fuel n E p m u b w = (Ret (body, code, None), w') \<Longrightarrow>
     \<exists>e resp. env_Do E (build_request (w_ep w' p) m u b) e = (Inr resp, w_ext w')
       \<and> rs_Body resp = body \<and> rs_StatusCode resp = code \<and> code \<noteq> 401 \<and> code \<noteq> 403 \<and> \<not> rs_readErr resp"
proof (induction n arbitrary: w)
  case (Suc n)
  from Suc.prems have "Parse u \<noteq> None" using http_unparsable[of u n E p m b w] by auto
  then show ?case
  proof (cases rule: http_round[where E = E and p = p and w = w and m = m and b = b])
    case (answered resp e)
    with Suc.prems show ?thesis by (intro exI[of _ "w_ext w"] exI[of _ resp]) (auto split: if_splits)
  qed (use Suc in auto)
qed simp

text \<open>Only a URL that does not parse makes a request panic.\<close>

lemma http_no_panic: "Parse u \<noteq> None \<Longrightarrow> fst (doHTTPAction_fuel n E p m u b w) \<noteq> Panic q"
proof (induction n arbitrary: w)
  case (Suc n)
  from Suc.prems show ?case
    by (cases rule: http_round[where E = E and p = p and w = w and m = m and b = b])
       (use Suc in auto)
qed simp

text \<open>Besides the outside world, a request changes at most the credentials of its endpoint.\<close>

definition only_creds :: "nat \<Rightarrow> 'e world \<Rightarrow> 'e world \<Rightarrow> bool" where
  "only_creds p w w' \<longleftrightarrow> (\<exists>e u v. w' = w\<lparr>w_ext := e,
     w_ep := (w_ep w)(p := (w_ep w p)\<lparr>ep_User := u, ep_Password := v\<rparr>)\<rparr>)"

lemma only_creds_ext: "only_creds p w (w\<lparr>w_ext := e\<rparr>)"
proof -
  have "w\<lparr>w_ext := e\<rparr> = w\<lparr>w_ext := e, w_ep := (w_ep w)(p := (w_ep w p)\<lparr>ep_User := ep_User (w_ep w p),
          ep_Password := ep_Password (w_ep w p)\<rparr>)\<rparr>"
    by simp
  then show ?thesis unfolding only_creds_def by blast
qed

lemma only_creds_trans: "only_creds p w1 w2 \<Longrightarrow> only_creds p w2 w3 \<Longrightarrow> only_creds p w1 w3"
  by (auto simp: only_creds_def) blast

lemma update_only_creds:
  assumes "updateEndpointWithCredentials E p w = (r, w')"
  shows "only_creds p w w'"
proof (cases "env_GetCompCred E (ep_ID (w_ep w p)) (w_ext w)")
  case (Pair s e)
  have "only_creds p w w" using only_creds_ext[of p w "w_ext w"] by simp
  with Pair assms show ?thesis
    by (cases s) (auto simp: update_result only_creds_ext Let_def split: if_splits, auto simp: only_creds_def)
qed

lemma http_only_creds: "doHTTPAction_fuel n E p m u b w = (r, w') \<Longrightarrow> only_creds p w w'"
proof (induction n arbitrary: w)
  case 0
  then show ?case using only_creds_ext[of p w "w_ext w"] by simp
next
  case (Suc n)
  have refl: "only_creds p w w" using only_creds_ext[of p w "w_ext w"] by simp
  have upd: "only_creds p w w1" if "updateEndpointWithCredentials E p (w\<lparr>w_ext := e\<rparr>) = (x, w1)" for e x w1
    using only_creds_trans[OF only_creds_ext update_only_creds[OF that]] .
  show ?case
  proof (cases "Parse u = None")
    case True
    with Suc.prems refl show ?thesis by (simp add: http_unparsable)
  next
    case False
    then show ?thesis
    proof (cases rule: http_round[where E = E and p = p and w = w and m = m and b = b])
      case (again resp e w1)
      with Suc show ?thesis using only_creds_trans[OF upd[OF again(2)]] by simp
    qed (use Suc.prems upd in \<open>auto simp: only_creds_ext\<close>)
  qed
qed

section \<open>An example\<close>

text \<open>An endpoint that refuses every password but the one in Vault, and a description without one.\<close>

definition login_env :: "unit env" where
  "login_env = env0\<lparr>env_Do := (\<lambda>r e. (Inr \<lparr>rs_StatusCode =
     (if rq_auth r = Some (''root'', ''initial0'') then 200 else 401), rs_Body = ''{}'', rs_readErr = False\<rparr>, e))\<rparr>"

lemma login_stable: "vault_stable login_env (\<lambda>_. Inr (''root'', ''initial0''))" "2 \<le> httpFuel login_env"
  by (simp_all add: vault_stable_def login_env_def env0_def)

section \<open>Properties\<close>

text \<open>
  C4: a request ends. When Vault gives the same answer for the same endpoint, a request that is
  refused with 401 or 403 is repeated at most once: with any bound of two rounds or more
  \<^verbatim>\<open>doHTTPAction\<close> does not run out of rounds, and its result and effects do not depend on the bound.
\<close>

theorem http_terminates:
  assumes "vault_stable E f" "2 \<le> httpFuel E"
  shows "fst (doHTTPAction E p m u b w) \<noteq> NoFuel
       \<and> doHTTPAction E p m u b w = doHTTPAction_fuel 2 E p m u b w"
proof -
  from assms(2) obtain n where "httpFuel E = Suc (Suc n)"
    by (metis Suc_le_D le_SucE numeral_2_eq_2 Suc_le_mono)
  with http_fuel_enough[OF assms(1), of n p m u b w] show ?thesis
    unfolding doHTTPAction_def by metis
qed

theorem http_terminates_witness:
  "fst (doHTTPAction login_env 0 ''GET'' ''https://x0c0s0b0/'' None (world0 ())) \<noteq> NoFuel"
  using http_terminates[OF login_stable] by blast

text \<open>
  A request that reports no error was answered by the endpoint, to a request carrying the
  credentials the endpoint description holds afterwards, with the body and the status code
  returned; the status is neither 401 nor 403.
\<close>

theorem http_success:
  assumes "doHTTPAction E p m u b w = (Ret (body, code, None), w')"
  shows "\<exists>e resp. env_Do E (build_request (w_ep w' p) m u b) e = (Inr resp, w_ext w')
       \<and> rs_Body resp = body \<and> rs_StatusCode resp = code \<and> code \<noteq> 401 \<and> code \<noteq> 403 \<and> \<not> rs_readErr resp"
  using assms http_answered unfolding doHTTPAction_def by blast

lemma login_result:
  "fst (doHTTPAction login_env 0 ''GET'' ''https://x0c0s0b0/'' None (world0 ())) = Ret (''{}'', 200, None)"
  by code_simp

theorem http_success_witness:
  "let w' = snd (doHTTPAction login_env 0 ''GET'' ''https://x0c0s0b0/'' None (world0 ()))
   in \<exists>e resp. env_Do login_env (build_request (w_ep w' 0) ''GET'' ''https://x0c0s0b0/'' None) e = (Inr resp, w_ext w')
        \<and> rs_StatusCode resp = 200"
proof -
  have "doHTTPAction login_env 0 ''GET'' ''https://x0c0s0b0/'' None (world0 ()) =
      (Ret (''{}'', 200, None), snd (doHTTPAction login_env 0 ''GET'' ''https://x0c0s0b0/'' None (world0 ())))"
    by (simp add: prod_eq_iff login_result)
  from http_success[OF this] show ?thesis unfolding Let_def by blast
qed

text \<open>
  A request changes nothing of the collector's state but the user name and the password of the
  endpoint it is sent to, whether it returns or panics.
\<close>

theorem http_effects:
  assumes "doHTTPAction E p m u b w = (r, w')"
  shows "\<exists>e user password. w' = w\<lparr>w_ext := e,
     w_ep := (w_ep w)(p := (w_ep w p)\<lparr>ep_User := user, ep_Password := password\<rparr>)\<rparr>"
  using http_only_creds assms unfolding doHTTPAction_def only_creds_def by blast

theorem http_effects_witness:
  "\<exists>e user password. snd (doHTTPAction login_env 0 ''GET'' ''https://x0c0s0b0/'' None (world0 ())) =
     (world0 ())\<lparr>w_ext := e, w_ep := (w_ep (world0 ()))(0 := (w_ep (world0 ()) 0)\<lparr>ep_User := user, ep_Password := password\<rparr>)\<rparr>"
  by (rule http_effects[OF prod.collapse[symmetric]])

end
