(* ===== verification/RfType.thy ===== *)
theory RfType
  imports Http
begin

text \<open>
  The kind of Redfish implementation of a BMC (\<^verbatim>\<open>cmd/hmcollector/rf.go\<close>) and the cache of the kinds
  found so far (\<^verbatim>\<open>cmd/hmcollector/cache.go\<close>). The cache is a map from the endpoint to the kind and the
  time of the last discovery the kind was found at; a later discovery makes the entry stale.
\<close>

section \<open>The cache\<close>

type_synonym EndpointsCache = "string \<Rightarrow> EndpointCache option"

definition NewEndpointsCache :: EndpointsCache where
  "NewEndpointsCache = (\<lambda>_. None)"

definition ReadRfType :: "EndpointsCache \<Rightarrow> string \<Rightarrow> string \<Rightarrow> RfType" where
  "ReadRfType c endpointId lastDiscoveryAttempt =
     (case c endpointId of
        Some v \<Rightarrow> if lastDiscoveryAttempt = ec_LastDiscoveryAttempt v then ec_Type v else UnsetRfType
      | None \<Rightarrow> UnsetRfType)"

definition WriteRfType :: "EndpointsCache \<Rightarrow> string \<Rightarrow> string \<Rightarrow> RfType \<Rightarrow> EndpointsCache" where
  "WriteRfType c endpointId lastDiscoveryAttempt rfType =
     c(endpointId \<mapsto> \<lparr> ec_LastDiscoveryAttempt = lastDiscoveryAttempt, ec_Type = rfType \<rparr>)"

fun rfTypeToString :: "RfType \<Rightarrow> string" where
  "rfTypeToString CrayRfType = ''Cray''"
| "rfTypeToString GigabyteRfType = ''Gigabyte''"
| "rfTypeToString HpeRfType = ''HPE''"
| "rfTypeToString IntelRfType = ''Intel''"
| "rfTypeToString OpenBmcRfType = ''OpenBMC''"
| "rfTypeToString UnknownRfType = ''Unknown''"
| "rfTypeToString UnsetRfType = ''Unset''"

section \<open>Finding the kind\<close>

definition CrayRedfishPath :: string where "CrayRedfishPath = ''/redfish/v1/Chassis/Enclosure''"
definition GigabyteRedfishPath :: string where "GigabyteRedfishPath = ''/redfish/v1/Chassis/Self''"
definition HpeRedfishPath :: string where "HpeRedfishPath = ''/redfish/v1/Chassis/1''"
definition IntelRedfishPath :: string where "IntelRedfishPath = ''/redfish/v1/Chassis/RackMount''"
definition OpenBmcRedfishPath :: string where "OpenBmcRedfishPath = ''/redfish/v1/Chassis/BMC_0''"

text \<open>\<^verbatim>\<open>rfChassis\<close>: the identifiers of its members.\<close>

definition Unmarshal_rfChassis :: "string \<Rightarrow> string list option" where
  "Unmarshal_rfChassis =
     Unmarshal (dec_struct [jfield ''Members'' (\<lambda>x. x) (\<lambda>f x. f x)
       (dec_list (dec_struct [jfield ''@odata.id'' (\<lambda>x. x) (\<lambda>f x. f x) dec_string]) [])]) []"

fun chassis_type :: "string list \<Rightarrow> RfType" where
  "chassis_type [] = UnknownRfType"
| "chassis_type (member # members) =
     (if EqualFold member CrayRedfishPath then CrayRfType
      else if EqualFold member GigabyteRedfishPath then GigabyteRfType
      else if EqualFold member HpeRedfishPath then HpeRfType
      else if EqualFold member IntelRedfishPath then IntelRfType
      else if EqualFold member OpenBmcRedfishPath then OpenBmcRfType
      else chassis_type members)"

definition httpGetRedfishType :: "'e env \<Rightarrow> nat \<Rightarrow> ('e world, RfType) io" where
  "httpGetRedfishType E p =
     bindIO (readEp p) (\<lambda>endpoint.
     if GetHMSType (ep_ID endpoint) \<noteq> NodeBMC then return UnknownRfType
     else
       bindIO (doHTTPAction E p ''GET'' (''https://'' @ ep_FQDN endpoint @ ''/redfish/v1/Chassis'') None)
       (\<lambda>(payloadBytes, statusCode, err).
       if err \<noteq> None then return UnsetRfType
       else if statusCode \<noteq> 200 then return UnsetRfType
       else case Unmarshal_rfChassis payloadBytes of
              None \<Rightarrow> return UnknownRfType
            | Some members \<Rightarrow> return (chassis_type members)))"

definition isOpenBmcModel :: "string \<Rightarrow> bool" where
  "isOpenBmcModel model = (let m = ToLower model
     in Contains m ''p4352'' \<or> Contains m ''p4353'' \<or> Contains m ''falcon'')"

definition GetRedfishType :: "'e env \<Rightarrow> nat \<Rightarrow> ('e world, RfType) io" where
  "GetRedfishType E p =
     bindIO (readEp p) (\<lambda>endpoint.
     bindIO (getsIO (\<lambda>w. ReadRfType (w_endpointsCache w) (ep_ID endpoint) (di_LastAttempt (ep_DiscInfo endpoint))))
     (\<lambda>rfType.
     if rfType = UnsetRfType then
       bindIO (httpGetRedfishType E p) (\<lambda>rfType'.
       bindIO (readEp p) (\<lambda>endpoint'.
       thenIO (modifyIO (\<lambda>w. w\<lparr>w_endpointsCache :=
           WriteRfType (w_endpointsCache w) (ep_ID endpoint') (di_LastAttempt (ep_DiscInfo endpoint')) rfType'\<rparr>))
       (return rfType')))
     else return rfType))"

section \<open>The contract of the cache\<close>

text \<open>
  What the rest of the program relies on: nothing is known at first, a reading returns the last
  kind written for the endpoint and the discovery asked for, a different discovery makes it
  unknown, and endpoints do not disturb each other.
\<close>

locale type_cache =
  fixes empty :: 'c
    and get :: "'c \<Rightarrow> string \<Rightarrow> string \<Rightarrow> RfType"
    and put :: "'c \<Rightarrow> string \<Rightarrow> string \<Rightarrow> RfType \<Rightarrow> 'c"
  assumes get_empty: "get empty i t = UnsetRfType"
    and get_put: "get (put c i t k) j t' = (if j = i then (if t' = t then k else UnsetRfType) else get c j t')"
begin

text \<open>After any sequence of writes, the last one at the head, a reading is what the last write says.\<close>

lemma get_history:
  "get (foldr (\<lambda>(i, t, k) c. put c i t k) ops empty) i t =
     (case map_of ops i of Some (t', k) \<Rightarrow> if t' = t then k else UnsetRfType | None \<Rightarrow> UnsetRfType)"
  by (induction ops) (auto simp: get_empty get_put)

lemma put_put: "get (put (put c i t k) i t' k') j u = get (put c i t' k') j u"
  by (simp add: get_put)

end

interpretation endpointsCache: type_cache NewEndpointsCache ReadRfType WriteRfType
  by unfold_locales (auto simp: NewEndpointsCache_def ReadRfType_def WriteRfType_def)

section \<open>Lemmas\<close>

lemma rfTypeToString_inj: "inj rfTypeToString"
  by (rule injI) (case_tac x; case_tac y; simp)

lemma chassis_type_not_Unset [simp]: "chassis_type ms \<noteq> UnsetRfType"
  by (induction ms) auto

lemma identity_eqD:
  assumes "identity a = identity b"
  shows "ep_ID a = ep_ID b" "ep_FQDN a = ep_FQDN b" "ep_DiscInfo a = ep_DiscInfo b" "ep_Type a = ep_Type b"
  using assms by (cases a; cases b; simp add: identity_def)+

lemma http_identity: "doHTTPAction E p m u b w = (r, w') \<Longrightarrow> identity (w_ep w' q) = identity (w_ep w q)"
  using keepsD[OF frame_identity.keeps_http] by meson

lemma http_cache: "doHTTPAction E p m u b w = (r, w') \<Longrightarrow> w_endpointsCache w' = w_endpointsCache w"
  using keepsD[OF frame_cache.keeps_http] by meson

context http_frame
begin

lemma keeps_httpGetRedfishType: "keeps g (httpGetRedfishType E p)"
  unfolding httpGetRedfishType_def by (intro frame_rules keeps_http)

lemma keeps_GetRedfishType:
  assumes "\<And>w c. g (w\<lparr>w_endpointsCache := c\<rparr>) = g w"
  shows "keeps g (GetRedfishType E p)"
  unfolding GetRedfishType_def by (intro frame_rules keeps_httpGetRedfishType assms)

end

lemma GetRedfishType_hit:
  assumes "ReadRfType (w_endpointsCache w) (ep_ID (w_ep w p)) (di_LastAttempt (ep_DiscInfo (w_ep w p))) = k"
    and "k \<noteq> UnsetRfType"
  shows "GetRedfishType E p w = (Ret k, w)"
  using assms by (simp add: GetRedfishType_def bindIO_def)

lemma GetRedfishType_miss:
  assumes "ReadRfType (w_endpointsCache w) (ep_ID (w_ep w p)) (di_LastAttempt (ep_DiscInfo (w_ep w p))) = UnsetRfType"
    and "httpGetRedfishType E p w = (Ret k, w1)"
  shows "GetRedfishType E p w = (Ret k, w1\<lparr>w_endpointsCache :=
           WriteRfType (w_endpointsCache w1) (ep_ID (w_ep w1 p)) (di_LastAttempt (ep_DiscInfo (w_ep w1 p))) k\<rparr>)"
  using assms by (simp add: GetRedfishType_def bindIO_def thenIO_def)

lemma GetRedfishType_caches:
  assumes "GetRedfishType E p w = (Ret k, w')"
  shows "ReadRfType (w_endpointsCache w') (ep_ID (w_ep w' p)) (di_LastAttempt (ep_DiscInfo (w_ep w' p))) = k"
  using assms
  by (auto simp: GetRedfishType_def bindIO_eq_Ret thenIO_def endpointsCache.get_put split: if_splits)

section \<open>Properties\<close>

text \<open>
  C24: the cache of Redfish kinds refines the history of its writes. Started empty and written any
  number of times, a reading for an endpoint and a discovery time returns the kind of the last
  write for that endpoint when that write was made for the same discovery, and unset otherwise.
\<close>

theorem cache_history:
  "ReadRfType (foldr (\<lambda>(i, t, k) c. WriteRfType c i t k) ops NewEndpointsCache) i t =
     (case map_of ops i of Some (t', k) \<Rightarrow> if t' = t then k else UnsetRfType | None \<Rightarrow> UnsetRfType)"
  by (rule endpointsCache.get_history)

text \<open>
  When \<^verbatim>\<open>GetRedfishType\<close> has returned a kind, a second call in the state it left returns the same kind with
  no request and no change of state, unless the first could not determine the kind; then the second call makes
  the inquiry again. \<^verbatim>\<open>Memo\<close> shows that the kind is kept until the next discovery.
\<close>

theorem rf_type_repeated:
  assumes "GetRedfishType E p w = (Ret k, w')"
  shows "(k \<noteq> UnsetRfType \<longrightarrow> GetRedfishType E p w' = (Ret k, w'))
       \<and> (k = UnsetRfType \<longrightarrow> httpGetRedfishType E p w' = (Ret k', w'') \<longrightarrow>
            fst (GetRedfishType E p w') = Ret k' \<and> w_ext (snd (GetRedfishType E p w')) = w_ext w'')"
  using GetRedfishType_hit[OF GetRedfishType_caches[OF assms]] GetRedfishType_caches[OF assms]
    GetRedfishType_miss[of w' p E k' w'']
  by simp

definition openbmc_env :: "unit env" where
  "openbmc_env = env0\<lparr>env_Do := (\<lambda>r e. (Inr \<lparr>rs_StatusCode = 200,
     rs_Body = ''{\"Members\":[{\"@odata.id\":\"/redfish/v1/chassis/BMC_0\"}]}'', rs_readErr = False\<rparr>, e))\<rparr>"

definition openbmc_world :: "unit world" where
  "openbmc_world = (world0 ())\<lparr>w_ep := (\<lambda>_. ep_zero\<lparr>ep_ID := ''x3000c0s19b1'', ep_FQDN := ''x3000c0s19b1''\<rparr>)\<rparr>"

lemma openbmc_answer: "fst (GetRedfishType openbmc_env 0 openbmc_world) = Ret OpenBmcRfType"
  by code_simp

theorem rf_type_repeated_witness:
  "let w' = snd (GetRedfishType openbmc_env 0 openbmc_world)
   in GetRedfishType openbmc_env 0 w' = (Ret OpenBmcRfType, w')"
proof -
  have "GetRedfishType openbmc_env 0 openbmc_world = (Ret OpenBmcRfType, snd (GetRedfishType openbmc_env 0 openbmc_world))"
    by (simp add: prod_eq_iff openbmc_answer)
  from rf_type_repeated[OF this] show ?thesis by simp
qed

end
