(* ===== verification/Subscriptions.thy ===== *)
theory Subscriptions
  imports RfType
begin

text \<open>
  Event subscriptions on the BMCs, \<^verbatim>\<open>cmd/hmcollector/rf_subscriptions.go\<close>: the functions that ask an
  endpoint for its subscriptions, create, correct and delete them, and the bodies of the goroutines
  \<^verbatim>\<open>rfSubscribe\<close> and \<^verbatim>\<open>rfVerifySub\<close> run for one endpoint.
\<close>

datatype sub_error = HttpErr http_error | JsonErr

section \<open>The destination of the events\<close>

definition checkILO :: "'e env \<Rightarrow> nat \<Rightarrow> ('e world, bool) io" where
  "checkILO E p =
     bindIO (readEp p) (\<lambda>endpoint.
     bindIO (doHTTPAction E p ''GET'' (''https://'' @ ep_FQDN endpoint @ ''/redfish/v1/Registries/iLO'') None)
     (\<lambda>(_, statusCode, err). return (err = None \<and> statusCode < 300)))"

definition checkOpenBmc :: "'e env \<Rightarrow> nat \<Rightarrow> ('e world, bool) io" where
  "checkOpenBmc E p = bindIO (GetRedfishType E p) (\<lambda>rfType. return (rfType = OpenBmcRfType))"

definition getDestination :: "'e env \<Rightarrow> nat \<Rightarrow> ('e world, string) io" where
  "getDestination E p =
     (case Parse (restURL E) of
        None \<Rightarrow> panicIO NilDereference
      | Some destination \<Rightarrow>
          bindIO (if u_Scheme destination = ''http''
                  then bindIO (checkILO E p) (\<lambda>ilo. if ilo then return True else checkOpenBmc E p)
                  else return False)
          (\<lambda>secure.
          let d1 = (if secure then destination\<lparr>u_Scheme := ''https''\<rparr> else destination);
              d2 = (if Port d1 = [] \<and> restPort E \<noteq> 80 \<and> restPort E \<noteq> 443
                    then d1\<lparr>u_Host := u_Host d1 @ '':'' @ Itoa (restPort E)\<rparr> else d1)
          in bindIO (readEp p) (\<lambda>endpoint.
             return (URL_String (d2\<lparr>u_Path := ''/'' @ ep_ID endpoint\<rparr>)))))"

section \<open>Creating a subscription\<close>

definition new_subscription :: "string \<Rightarrow> string \<Rightarrow> string list \<Rightarrow> string list option \<Rightarrow> EventSubscription" where
  "new_subscription context destination evTypes registryPrefixes =
     es_zero\<lparr>es_Context := context, es_Destination := destination, es_EventTypes := evTypes,
       es_Protocol := ''Redfish'', es_RegistryPrefixes := (case registryPrefixes of None \<Rightarrow> [] | Some ps \<Rightarrow> ps)\<rparr>"

definition postRFSubscription ::
  "'e env \<Rightarrow> nat \<Rightarrow> string list \<Rightarrow> string list option \<Rightarrow> ('e world, bool \<times> sub_error option) io" where
  "postRFSubscription E p evTypes registryPrefixes =
     bindIO (readEp p) (\<lambda>endpoint.
     bindIO (getDestination E p) (\<lambda>destination.
     let payloadBytes = json_render (enc_subscription
           (new_subscription (ep_ID endpoint) destination evTypes registryPrefixes));
         fullURL = ''https://'' @ ep_FQDN endpoint @ ''/redfish/v1/EventService/Subscriptions''
     in bindIO (doHTTPAction E p ''POST'' fullURL (Some payloadBytes)) (\<lambda>(_, statusCode, postErr).
        if postErr \<noteq> None then return (False, None)
        else if statusCode = 400 \<and> registryPrefixes \<noteq> None \<and> registryPrefixes \<noteq> Some [] then return (False, None)
        else if statusCode \<noteq> 201 \<and> statusCode \<noteq> 204 \<and> statusCode \<noteq> 200 then return (False, None)
        else return (True, None))))"

section \<open>Subscriptions of another endpoint\<close>

definition isSubscriptionForWrongXname :: "'a config_scheme \<Rightarrow> string \<Rightarrow> EventSubscription \<Rightarrow> bool" where
  "isSubscriptionForWrongXname C xname eventSub =
     (if \<not> pruneOldSubscriptions C then False
      else if GetHMSType xname = HMSTypeInvalid then False
      else
        let xnameOfSub =
              (if GetHMSType (es_Context eventSub) = HMSTypeInvalid
               then last (Split (es_Destination eventSub) (CHR ''/''))
               else es_Context eventSub)
        in if GetHMSType xnameOfSub = HMSTypeInvalid then False
           else NormalizeHMSCompID xnameOfSub \<noteq> NormalizeHMSCompID xname)"

definition deleteSubscriptionForWrongXname ::
  "'e env \<Rightarrow> nat \<Rightarrow> string \<Rightarrow> EventSubscription \<Rightarrow> ('e world, unit) io" where
  "deleteSubscriptionForWrongXname E p subUri eventSub =
     bindIO (readEp p) (\<lambda>endpoint.
     bindIO (doHTTPAction E p ''DELETE'' (''https://'' @ ep_FQDN endpoint @ subUri) None) (\<lambda>_.
     return ()))"

section \<open>Reading subscriptions\<close>

definition getSubscriptions ::
  "'e env \<Rightarrow> nat \<Rightarrow> ('e world, sub_error + EventSubscriptionCollection) io" where
  "getSubscriptions E p =
     bindIO (readEp p) (\<lambda>endpoint.
     bindIO (doHTTPAction E p ''GET''
        (''https://'' @ ep_FQDN endpoint @ ''/redfish/v1/EventService/Subscriptions'') None)
     (\<lambda>(payloadBytes, _, err).
     case err of
       Some e \<Rightarrow> return (Inl (HttpErr e))
     | None \<Rightarrow> (case Unmarshal_Subscriptions payloadBytes of
                  None \<Rightarrow> return (Inl JsonErr)
                | Some subList \<Rightarrow> return (Inr subList))))"

definition getSubscription ::
  "'e env \<Rightarrow> nat \<Rightarrow> string \<Rightarrow> ('e world, sub_error + EventSubscription) io" where
  "getSubscription E p subUri =
     bindIO (readEp p) (\<lambda>endpoint.
     bindIO (doHTTPAction E p ''GET'' (''https://'' @ ep_FQDN endpoint @ subUri) None)
     (\<lambda>(payloadBytes, _, err).
     case err of
       Some e \<Rightarrow> return (Inl (HttpErr e))
     | None \<Rightarrow> (case Unmarshal_Subscription payloadBytes of
                  None \<Rightarrow> return (Inl JsonErr)
                | Some eventSub \<Rightarrow> return (Inr eventSub))))"

text \<open>Whether a subscription found has the registry prefixes asked for.\<close>

definition prefixes_match :: "string list option \<Rightarrow> string list \<Rightarrow> bool" where
  "prefixes_match registryPrefixes present =
     (if (registryPrefixes = None \<or> registryPrefixes = Some []) \<and> present = [] then True
      else case registryPrefixes of
             None \<Rightarrow> False
           | Some necessary \<Rightarrow> list_all (\<lambda>n. list_ex (\<lambda>q. n = q) present) necessary)"

definition fixSubscriptionMismatch ::
  "'e env \<Rightarrow> nat \<Rightarrow> ResourceID \<Rightarrow> string list option \<Rightarrow> ('e world, bool) io" where
  "fixSubscriptionMismatch E p sub registryPrefixes =
     bindIO (readEp p) (\<lambda>endpoint.
     let payload = json_render (JObj (w_str_oe ''Context'' (ep_ID endpoint)));
         fullURL = ''https://'' @ pathJoin (ep_FQDN endpoint) (rid_Oid sub)
     in bindIO (doHTTPAction E p ''PATCH'' fullURL (Some payload)) (\<lambda>(_, _, patchErr).
        if patchErr \<noteq> None then
          bindIO (doHTTPAction E p ''DELETE'' fullURL None) (\<lambda>_. return False)
        else return True))"

fun isDup_members ::
  "'e env \<Rightarrow> nat \<Rightarrow> string \<Rightarrow> string list option \<Rightarrow> ResourceID list \<Rightarrow> ('e world, bool \<times> sub_error option) io"
where
  "isDup_members E p baseEndpointURL registryPrefixes [] = return (False, None)"
| "isDup_members E p baseEndpointURL registryPrefixes (sub # members) =
     bindIO (doHTTPAction E p ''GET'' (baseEndpointURL @ rid_Oid sub) None) (\<lambda>(payloadBytes, _, err).
     case err of
       Some e \<Rightarrow> return (False, Some (HttpErr e))
     | None \<Rightarrow>
       (case Unmarshal_Subscription payloadBytes of
          None \<Rightarrow> return (False, Some JsonErr)
        | Some eventSub \<Rightarrow>
            bindIO (getDestination E p) (\<lambda>destination.
            bindIO (readEp p) (\<lambda>endpoint.
            if es_Destination eventSub = destination then
              (if prefixes_match registryPrefixes (es_RegistryPrefixes eventSub) then
                 (if es_Context eventSub \<noteq> ep_ID endpoint
                  then bindIO (fixSubscriptionMismatch E p sub registryPrefixes) (\<lambda>match. return (match, None))
                  else return (True, None))
               else isDup_members E p baseEndpointURL registryPrefixes members)
            else
              thenIO
                (if pruneOldSubscriptions E \<and> isSubscriptionForWrongXname E (ep_ID endpoint) eventSub
                 then deleteSubscriptionForWrongXname E p (rid_Oid sub) eventSub
                 else return ())
                (isDup_members E p baseEndpointURL registryPrefixes members)))))"

definition isDupRFSubscription ::
  "'e env \<Rightarrow> nat \<Rightarrow> string list option \<Rightarrow> ('e world, bool \<times> sub_error option) io" where
  "isDupRFSubscription E p registryPrefixes =
     bindIO (readEp p) (\<lambda>endpoint.
     bindIO (doHTTPAction E p ''GET''
        (''https://'' @ ep_FQDN endpoint @ ''/redfish/v1/EventService/Subscriptions'') None)
     (\<lambda>(payloadBytes, _, err).
     case err of
       Some e \<Rightarrow> return (False, Some (HttpErr e))
     | None \<Rightarrow>
       (case Unmarshal_Subscriptions payloadBytes of
          None \<Rightarrow> return (False, Some JsonErr)
        | Some subList \<Rightarrow>
            isDup_members E p (''https://'' @ ep_FQDN endpoint) registryPrefixes (sc_Members subList))))"

definition doGetEventTypes :: "'e env \<Rightarrow> nat \<Rightarrow> ('e world, sub_error + string list) io" where
  "doGetEventTypes E p =
     bindIO (readEp p) (\<lambda>endpoint.
     bindIO (doHTTPAction E p ''GET'' (''https://'' @ ep_FQDN endpoint @ ''/redfish/v1/EventService'') None)
     (\<lambda>(payloadBytes, _, err).
     case err of
       Some e \<Rightarrow> return (Inl (HttpErr e))
     | None \<Rightarrow> (case Unmarshal_EventService payloadBytes of
                  None \<Rightarrow> return (Inl JsonErr)
                | Some evTypes \<Rightarrow> return (Inr evTypes))))"

section \<open>The goroutines\<close>

text \<open>The body \<^verbatim>\<open>rfVerifySub\<close> starts for one subscription, and the check in front of it.\<close>

definition verify_group :: "'e env \<Rightarrow> RFSub \<Rightarrow> string list option \<Rightarrow> ('e world, unit) io" where
  "verify_group E inSub registryPrefixGroup =
     bindIO (isDupRFSubscription E (sub_Endpoint inSub) registryPrefixGroup) (\<lambda>(isDup, err).
     if err \<noteq> None then writeStatus (sub_Status inSub) RFSUBSTATUS_ERROR
     else if \<not> isDup then writeStatus (sub_Status inSub) RFSUBSTATUS_ERROR
     else return ())"

definition rfVerifySub_body :: "'e env \<Rightarrow> RFSub \<Rightarrow> ('e world, unit) io" where
  "rfVerifySub_body E inSub =
     bindIO (getsIO (\<lambda>w. w_prefixGroups w (sub_PrefixGroups inSub))) (forIO (verify_group E inSub))"

definition rfVerifySub_receive :: "'e env \<Rightarrow> RFSub \<Rightarrow> ('e world, unit) io" where
  "rfVerifySub_receive E sub =
     bindIO (readStatus (sub_Status sub)) (\<lambda>status.
     if status \<noteq> RFSUBSTATUS_COMPLETE then return () else rfVerifySub_body E sub)"

text \<open>A group of prefixes as a list; \<^verbatim>\<open>nil\<close> has no elements.\<close>

definition group_elems :: "string list option \<Rightarrow> string list" where
  "group_elems g = (case g of None \<Rightarrow> [] | Some ps \<Rightarrow> ps)"

definition same_group :: "string list option \<Rightarrow> string list option \<Rightarrow> bool" where
  "same_group inPrefix registryPrefixGroup \<longleftrightarrow>
     length (group_elems inPrefix) = length (group_elems registryPrefixGroup)
     \<and> list_all (\<lambda>x. list_ex (\<lambda>y. y = x) (group_elems registryPrefixGroup)) (group_elems inPrefix)"

definition appendUniqueRegPrefix :: "string list option \<Rightarrow> string list option list \<Rightarrow> string list option list" where
  "appendUniqueRegPrefix inPrefix pg = (if list_ex (same_group inPrefix) pg then pg else pg @ [inPrefix])"

definition appendGroup :: "RFSub \<Rightarrow> string list option \<Rightarrow> ('e world, unit) io" where
  "appendGroup sub grp = modifyIO (\<lambda>w. w\<lparr>w_prefixGroups := (w_prefixGroups w)(sub_PrefixGroups sub :=
     appendUniqueRegPrefix grp (w_prefixGroups w (sub_PrefixGroups sub)))\<rparr>)"

text \<open>The body \<^verbatim>\<open>rfSubscribe\<close> starts for one subscription.\<close>

definition registryPrefixGroups :: "'a config_scheme \<Rightarrow> string list option list" where
  "registryPrefixGroups C = (if rfStreamingEnabled C then [None, Some [''CrayTelemetry'']] else [None])"

definition prune_member :: "'e env \<Rightarrow> nat \<Rightarrow> ResourceID \<Rightarrow> ('e world, unit) io" where
  "prune_member E p member =
     bindIO (getSubscription E p (rid_Oid member)) (\<lambda>r.
     case r of
       Inl err \<Rightarrow> return ()
     | Inr eventSub \<Rightarrow>
         bindIO (readEp p) (\<lambda>endpoint.
         if isSubscriptionForWrongXname E (ep_ID endpoint) eventSub
         then deleteSubscriptionForWrongXname E p (rid_Oid member) eventSub
         else return ()))"

definition prune :: "'e env \<Rightarrow> nat \<Rightarrow> ('e world, unit) io" where
  "prune E p =
     (if pruneOldSubscriptions E then
        bindIO (getSubscriptions E p) (\<lambda>r.
        case r of Inl err \<Rightarrow> return () | Inr subscriptions \<Rightarrow> forIO (prune_member E p) (sc_Members subscriptions))
      else return ())"

definition subscribe_group :: "'e env \<Rightarrow> RFSub \<Rightarrow> string list option \<Rightarrow> ('e world, unit) io" where
  "subscribe_group E sub registryPrefixGroup =
     bindIO (isDupRFSubscription E (sub_Endpoint sub) registryPrefixGroup) (\<lambda>(isDup, err).
     if err \<noteq> None then writeStatus (sub_Status sub) RFSUBSTATUS_ERROR
     else if isDup then
       thenIO (writeStatus (sub_Status sub) RFSUBSTATUS_COMPLETE) (appendGroup sub registryPrefixGroup)
     else
       bindIO (doGetEventTypes E (sub_Endpoint sub)) (\<lambda>r.
       case r of
         Inl err \<Rightarrow> writeStatus (sub_Status sub) RFSUBSTATUS_ERROR
       | Inr evTypes \<Rightarrow>
           bindIO (postRFSubscription E (sub_Endpoint sub) evTypes registryPrefixGroup) (\<lambda>(subscribed, err).
           if err \<noteq> None then writeStatus (sub_Status sub) RFSUBSTATUS_ERROR
           else if subscribed then appendGroup sub registryPrefixGroup
           else return ())))"

definition rfSubscribe_body :: "'e env \<Rightarrow> RFSub \<Rightarrow> ('e world, unit) io" where
  "rfSubscribe_body E sub =
     thenIO (prune E (sub_Endpoint sub))
     (thenIO (forIO (subscribe_group E sub) (registryPrefixGroups E))
     (writeStatus (sub_Status sub) RFSUBSTATUS_COMPLETE))"

section \<open>What the requests leave unchanged\<close>

text \<open>
  The contract of everything that only talks to an endpoint: a part of the state that does not
  involve the outside world, credentials and the cache of Redfish kinds is kept.
\<close>

locale sub_frame = http_frame g for g :: "'e world \<Rightarrow> 'b" +
  assumes g_cache: "g (w\<lparr>w_endpointsCache := c\<rparr>) = g w"
begin

lemma keeps_getDestination: "keeps g (getDestination E p)"
  unfolding getDestination_def checkILO_def checkOpenBmc_def Let_def
  by (intro frame_rules keeps_http keeps_GetRedfishType g_cache)

lemma keeps_post: "keeps g (postRFSubscription E p ts rp)"
  unfolding postRFSubscription_def Let_def by (intro frame_rules keeps_http keeps_getDestination)

lemma keeps_delete: "keeps g (deleteSubscriptionForWrongXname E p u es)"
  unfolding deleteSubscriptionForWrongXname_def by (intro frame_rules keeps_http)

lemma keeps_fix: "keeps g (fixSubscriptionMismatch E p s rp)"
  unfolding fixSubscriptionMismatch_def Let_def by (intro frame_rules keeps_http)

lemma keeps_isDup_members: "keeps g (isDup_members E p u rp ms)"
  by (induction ms)
     (auto intro!: frame_rules keeps_http keeps_getDestination keeps_fix keeps_delete)

lemma keeps_isDup: "keeps g (isDupRFSubscription E p rp)"
  unfolding isDupRFSubscription_def by (intro frame_rules keeps_http keeps_isDup_members)

lemma keeps_eventTypes: "keeps g (doGetEventTypes E p)"
  unfolding doGetEventTypes_def by (intro frame_rules keeps_http)

lemma keeps_prune: "keeps g (prune E p)"
  unfolding prune_def prune_member_def getSubscriptions_def getSubscription_def
  by (intro frame_rules keeps_http keeps_delete)

text \<open>A part that does not involve the state of subscriptions is kept by the goroutines too.\<close>

lemma keeps_subscribe_group:
  assumes "\<And>w h. g (w\<lparr>w_status := h\<rparr>) = g w" "\<And>w h. g (w\<lparr>w_prefixGroups := h\<rparr>) = g w"
  shows "keeps g (subscribe_group E sub rp)"
  unfolding subscribe_group_def appendGroup_def
  by (intro frame_rules keeps_isDup keeps_eventTypes keeps_post assms)

lemma keeps_rfSubscribe_body:
  assumes "\<And>w h. g (w\<lparr>w_status := h\<rparr>) = g w" "\<And>w h. g (w\<lparr>w_prefixGroups := h\<rparr>) = g w"
  shows "keeps g (rfSubscribe_body E sub)"
  unfolding rfSubscribe_body_def
  by (intro frame_rules keeps_prune keeps_subscribe_group assms)

lemma keeps_verify_group:
  assumes "\<And>w h. g (w\<lparr>w_status := h\<rparr>) = g w"
  shows "keeps g (verify_group E sub rp)"
  unfolding verify_group_def by (intro frame_rules keeps_isDup assms)

lemma keeps_rfVerifySub_body:
  assumes "\<And>w h. g (w\<lparr>w_status := h\<rparr>) = g w"
  shows "keeps g (rfVerifySub_body E sub)"
  unfolding rfVerifySub_body_def by (intro frame_rules keeps_verify_group assms)

end

interpretation sub_frame_identity: sub_frame "\<lambda>w q. identity (w_ep w q)"
  by unfold_locales simp

interpretation sub_frame_hsm: sub_frame w_HSMEndpoints
  by unfold_locales simp

interpretation sub_frame_subs: sub_frame "\<lambda>w. (w_status w, w_prefixGroups w, w_nextSub w)"
  by unfold_locales simp

interpretation sub_frame_polling:
  sub_frame "\<lambda>w. (w_endpoints w, w_nonPolledEndpoints w, w_lastContacted w, w_sensors w, w_nextObj w)"
  by unfold_locales simp

section \<open>The status of a subscription\<close>

lemma rfSubscribe_completes:
  assumes "rfSubscribe_body E sub w = (Ret (), w')"
  shows "w_status w' (sub_Status sub) = RFSUBSTATUS_COMPLETE"
  using assms by (auto simp: rfSubscribe_body_def thenIO_eq_Ret)

text \<open>No status but the subscription's own is written.\<close>

lemma isDup_subs:
  "isDupRFSubscription E p rp w = (r, w') \<Longrightarrow>
     w_status w' = w_status w \<and> w_prefixGroups w' = w_prefixGroups w \<and> w_nextSub w' = w_nextSub w"
  using keepsD[OF sub_frame_subs.keeps_isDup] by blast

lemma verify_group_status:
  assumes "verify_group E sub rp w = (r, w')"
  shows "w_status w' = w_status w \<or> w_status w' = (w_status w)(sub_Status sub := RFSUBSTATUS_ERROR)"
    and "w_prefixGroups w' = w_prefixGroups w"
  using assms
  by (auto simp: verify_group_def elim!: bindIO_cases dest!: isDup_subs split: if_splits prod.splits)

lemma verify_groups_status:
  "forIO (verify_group E sub) gs w = (r, w') \<Longrightarrow>
     (w_status w' = w_status w \<or> w_status w' = (w_status w)(sub_Status sub := RFSUBSTATUS_ERROR))
     \<and> w_prefixGroups w' = w_prefixGroups w"
proof (induction gs arbitrary: w)
  case (Cons x gs)
  from Cons.prems show ?case
    unfolding forIO.simps thenIO_def
    by (cases rule: bindIO_cases)
       (fastforce dest: verify_group_status Cons.IH)+
qed simp

section \<open>The destination carries the xname\<close>

definition port_suffix :: "'a config_scheme \<Rightarrow> string" where
  "port_suffix C = (if restPort C \<noteq> 80 \<and> restPort C \<noteq> 443 then '':'' @ Itoa (restPort C) else [])"

lemma host_unescaped:
  assumes "plain_host h"
  shows "list_all (\<lambda>c. \<not> shouldEscape c EncHost) (h @ port_suffix C)"
proof -
  have "\<not> shouldEscape (CHR '':'') EncHost" "\<not> shouldEscape (CHR ''-'') EncHost"
    by (simp_all add: shouldEscape_def)
  moreover have "\<not> shouldEscape c EncHost" if "isDigit c" for c
    using that plain_char_unescaped[of c] by (simp add: plain_char_def)
  ultimately have "list_all (\<lambda>c. \<not> shouldEscape c EncHost) (port_suffix C)"
    using showNat_digits by (auto simp: port_suffix_def Itoa_def list_all_iff)
  with plain_hostD(7)[OF assms] show ?thesis by (auto simp: list_all_iff)
qed

lemma Port_plain: "plain_host h \<Longrightarrow> Port (plain_url s h) = []"
  using plain_hostD(2)[of h]
  by (simp add: Port_def plain_url_def empty_url_def cut_last_None)

lemma getDestination_plain:
  assumes "restURL E = ''http://'' @ h" "plain_host h" "list_all plain_char (ep_ID (w_ep w p))"
    and "getDestination E p w = (Ret d, w')"
  obtains s where "s = ''http'' \<or> s = ''https''" "d = s @ ''://'' @ (h @ port_suffix E) @ ''/'' @ ep_ID (w_ep w p)"
proof -
  from keepsD[OF sub_frame_identity.keeps_getDestination assms(4)]
  have "identity (w_ep w' p) = identity (w_ep w p)" by meson
  note id = identity_eqD(1)[OF this]
  from assms(1,4) Parse_plain[OF assms(2)] obtain secure where
    "d = URL_String ((let d1 = (if secure then (plain_url ''http'' h)\<lparr>u_Scheme := ''https''\<rparr> else plain_url ''http'' h)
           in (if Port d1 = [] \<and> restPort E \<noteq> 80 \<and> restPort E \<noteq> 443
               then d1\<lparr>u_Host := u_Host d1 @ '':'' @ Itoa (restPort E)\<rparr> else d1))\<lparr>u_Path := ''/'' @ ep_ID (w_ep w' p)\<rparr>)"
    by (auto simp: getDestination_def Let_def bindIO_eq_Ret)
  moreover have "(plain_url ''http'' h)\<lparr>u_Scheme := s\<rparr> = plain_url s h" for s by (simp add: plain_url_def)
  moreover have "(plain_url s h)\<lparr>u_Host := g\<rparr> = plain_url s g" "u_Host (plain_url s h) = h" for s g
    by (simp_all add: plain_url_def)
  ultimately have "d = URL_String ((plain_url (if secure then ''https'' else ''http'') (h @ port_suffix E))
      \<lparr>u_Path := CHR ''/'' # ep_ID (w_ep w p)\<rparr>)"
    using Port_plain[OF assms(2)] by (simp add: port_suffix_def id)
  moreover have "list_all (\<lambda>c. \<not> shouldEscape c EncPath) (ep_ID (w_ep w p))"
    using assms(3) plain_char_unescaped by (auto simp: list_all_iff)
  ultimately show thesis
    using URL_String_plain[OF _ _ host_unescaped[OF assms(2), of E], of "if secure then ''https'' else ''http''"]
      plain_hostD(1)[OF assms(2)]
    by (intro that[of "if secure then ''https'' else ''http''"]) simp_all
qed

section \<open>Groups of registry prefixes\<close>

text \<open>The groups recorded for an endpoint are groups the collector subscribes to, each at most once.\<close>

definition groups_ok :: "'a config_scheme \<Rightarrow> string list option list \<Rightarrow> bool" where
  "groups_ok C gs \<longleftrightarrow> distinct gs \<and> list_all (\<lambda>g. list_ex (\<lambda>h. h = g) (registryPrefixGroups C)) gs"

lemma same_group_refl [simp]: "same_group g g"
  by (auto simp: same_group_def list_all_iff list_ex_iff)

lemma same_group_sets:
  assumes "distinct (group_elems a)" "distinct (group_elems b)"
  shows "same_group a b \<longleftrightarrow> set (group_elems a) = set (group_elems b)"
proof -
  have "same_group a b \<longleftrightarrow> card (set (group_elems a)) = card (set (group_elems b))
      \<and> set (group_elems a) \<subseteq> set (group_elems b)"
    using assms by (auto simp: same_group_def distinct_card list_all_iff list_ex_iff)
  also have "\<dots> \<longleftrightarrow> set (group_elems a) = set (group_elems b)"
    by (metis List.finite_set card_subset_eq order_refl)
  finally show ?thesis .
qed

lemma appendUnique_groups_ok:
  "groups_ok C gs \<Longrightarrow> g \<in> set (registryPrefixGroups C) \<Longrightarrow> groups_ok C (appendUniqueRegPrefix g gs)"
  by (auto simp: groups_ok_def appendUniqueRegPrefix_def list_ex_iff)

lemma appendUnique_idem: "appendUniqueRegPrefix g (appendUniqueRegPrefix g gs) = appendUniqueRegPrefix g gs"
  by (simp add: appendUniqueRegPrefix_def)

context sub_frame
begin

text \<open>A part of the state that only the recording of a group changes.\<close>

lemma always_subscribe_group:
  assumes "\<And>w h. g (w\<lparr>w_status := h\<rparr>) = g w" "\<And>w. P (g w) \<Longrightarrow> P (g (snd (appendGroup sub rp w)))"
  shows "always (\<lambda>w. P (g w)) (subscribe_group E sub rp)"
proof -
  have "always (\<lambda>w. P (g w)) (appendGroup sub rp)" using assms(2) by (simp add: always_def)
  then show ?thesis
    unfolding subscribe_group_def
    by (intro inv_rules always_keeps[OF keeps_isDup] always_keeps[OF keeps_eventTypes]
        always_keeps[OF keeps_post] always_keeps[OF keeps_writeStatus] assms(1))
qed

end

interpretation sub_frame_groups: sub_frame w_prefixGroups
  by unfold_locales auto

lemma subscribe_group_ok:
  assumes "rp \<in> set (registryPrefixGroups E)"
  shows "always (\<lambda>w. groups_ok E (w_prefixGroups w q)) (subscribe_group E sub rp)"
  by (rule sub_frame_groups.always_subscribe_group[where P = "\<lambda>h. groups_ok E (h q)"])
     (auto simp: appendGroup_def appendUnique_groups_ok assms)

lemma subscribe_groups_ok:
  "set gs \<subseteq> set (registryPrefixGroups E) \<Longrightarrow>
     always (\<lambda>w. groups_ok E (w_prefixGroups w q)) (forIO (subscribe_group E sub) gs)"
  by (induction gs) (auto intro: inv_rules subscribe_group_ok)

section \<open>Endpoints that cannot be reached\<close>

definition unreachable :: "'e env \<Rightarrow> bool" where
  "unreachable E \<longleftrightarrow> 0 < httpFuel E \<and> (\<forall>r e. isl (fst (env_Do E r e)))"

lemma http_unreachable:
  assumes "unreachable E" "Parse u \<noteq> None"
  obtains err e where "doHTTPAction E p m u b w = (Ret ([], 0, Some (DoError err)), w\<lparr>w_ext := e\<rparr>)"
proof -
  from assms(1) obtain n where "httpFuel E = Suc n" by (auto simp: unreachable_def gr0_conv_Suc)
  moreover obtain err e where "env_Do E (build_request (w_ep w p) m u b) (w_ext w) = (Inl err, e)"
    using assms(1) by (metis unreachable_def isl_def prod.collapse)
  ultimately show thesis
    using assms(2) that by (simp add: doHTTPAction_def http_step)
qed

lemma subscribe_group_unreachable:
  assumes "unreachable E" "Parse (''https://'' @ ep_FQDN (w_ep w (sub_Endpoint sub)) @ ''/redfish/v1/EventService/Subscriptions'') \<noteq> None"
  shows "\<exists>e. subscribe_group E sub rp w =
     (Ret (), w\<lparr>w_ext := e, w_status := (w_status w)(sub_Status sub := RFSUBSTATUS_ERROR)\<rparr>)"
proof -
  obtain err e where "doHTTPAction E (sub_Endpoint sub) ''GET'' (''https://'' @ ep_FQDN (w_ep w (sub_Endpoint sub))
      @ ''/redfish/v1/EventService/Subscriptions'') None w = (Ret ([], 0, Some (DoError err)), w\<lparr>w_ext := e\<rparr>)"
    using http_unreachable[OF assms] .
  then have "isDupRFSubscription E (sub_Endpoint sub) rp w = (Ret (False, Some (HttpErr (DoError err))), w\<lparr>w_ext := e\<rparr>)"
    unfolding isDupRFSubscription_def bind_readEp by (simp only: bindIO_Ret prod.case option.case return_run)
  then show ?thesis by (auto simp: subscribe_group_def bindIO_def)
qed

lemma subscribe_groups_unreachable:
  assumes "unreachable E" "Parse (''https://'' @ ep_FQDN (w_ep w (sub_Endpoint sub)) @ ''/redfish/v1/EventService/Subscriptions'') \<noteq> None"
  shows "\<exists>e h. forIO (subscribe_group E sub) gs w = (Ret (), w\<lparr>w_ext := e, w_status := h\<rparr>)"
  using assms(2)
proof (induction gs arbitrary: w)
  case Nil
  have "w = w\<lparr>w_ext := w_ext w, w_status := w_status w\<rparr>" by simp
  then show ?case by (metis forIO.simps(1) return_run)
next
  case (Cons g gs)
  obtain e where 1: "subscribe_group E sub g w =
     (Ret (), w\<lparr>w_ext := e, w_status := (w_status w)(sub_Status sub := RFSUBSTATUS_ERROR)\<rparr>)" (is "_ = (_, ?w1)")
    using subscribe_group_unreachable[OF assms(1) Cons.prems] by blast
  have "w_ep ?w1 = w_ep w" by simp
  with Cons.IH[of ?w1] Cons.prems obtain e' h where
    "forIO (subscribe_group E sub) gs ?w1 = (Ret (), ?w1\<lparr>w_ext := e', w_status := h\<rparr>)" by metis
  with 1 have "forIO (subscribe_group E sub) (g # gs) w = (Ret (), w\<lparr>w_ext := e', w_status := h\<rparr>)"
    by (simp add: thenIO_def bindIO_def)
  then show ?case by blast
qed

lemma prune_unreachable:
  assumes "unreachable E" "Parse (''https://'' @ ep_FQDN (w_ep w p) @ ''/redfish/v1/EventService/Subscriptions'') \<noteq> None"
  shows "\<exists>e. prune E p w = (Ret (), w\<lparr>w_ext := e\<rparr>)"
proof (cases "pruneOldSubscriptions E")
  case True
  obtain err e where "doHTTPAction E p ''GET'' (''https://'' @ ep_FQDN (w_ep w p)
      @ ''/redfish/v1/EventService/Subscriptions'') None w = (Ret ([], 0, Some (DoError err)), w\<lparr>w_ext := e\<rparr>)"
    using http_unreachable[OF assms] .
  then have "getSubscriptions E p w = (Ret (Inl (HttpErr (DoError err))), w\<lparr>w_ext := e\<rparr>)"
    unfolding getSubscriptions_def bind_readEp by (simp only: bindIO_Ret prod.case option.case return_run)
  with True show ?thesis by (auto simp: prune_def bindIO_def)
qed (auto simp: prune_def intro: exI[of _ "w_ext w"])

section \<open>Properties\<close>

text \<open>
  C7: the collector recognises its own subscriptions. Let the service be reached at
  \<^verbatim>\<open>http://\<close>\<open>h\<close> and let \<open>d\<close> be the destination computed for an endpoint with a valid xname. A subscription
  with that destination, whose context is the endpoint's ID or was lost, is taken for one of a
  moved endpoint by exactly the endpoints whose normalised xname is another: an endpoint never
  prunes its own subscription, and another endpoint that finds it always does.
\<close>

theorem own_subscription_recognised:
  assumes "restURL E = ''http://'' @ h" "plain_host h" "pruneOldSubscriptions E"
    and "list_all plain_char (ep_ID (w_ep w p))" "GetHMSType (ep_ID (w_ep w p)) \<noteq> HMSTypeInvalid"
    and "getDestination E p w = (Ret d, w')"
    and "es_Destination es = d"
    and "es_Context es = ep_ID (w_ep w p) \<or> GetHMSType (es_Context es) = HMSTypeInvalid"
    and "GetHMSType x \<noteq> HMSTypeInvalid"
  shows "isSubscriptionForWrongXname E x es \<longleftrightarrow> NormalizeHMSCompID (ep_ID (w_ep w p)) \<noteq> NormalizeHMSCompID x"
proof -
  obtain s where "d = s @ ''://'' @ (h @ port_suffix E) @ ''/'' @ ep_ID (w_ep w p)"
    using getDestination_plain[OF assms(1,2,4,6)] .
  then have d: "d = (s @ ''://'' @ (h @ port_suffix E)) @ CHR ''/'' # ep_ID (w_ep w p)" by simp
  have "CHR ''/'' \<notin> set (ep_ID (w_ep w p))"
    using assms(4) plain_char_simps(2) unfolding list_all_iff by blast
  then have "last (Split d (CHR ''/'')) = ep_ID (w_ep w p)"
    unfolding d by (rule last_Split_append)
  with assms(3,5,7,8,9) show ?thesis
    by (auto simp: isSubscriptionForWrongXname_def Let_def)
qed

definition plain_world :: "unit world" where
  "plain_world = (world0 ())\<lparr>w_ep := (\<lambda>_. ep_zero\<lparr>ep_ID := ''x3000c0s1b0'', ep_FQDN := ''x3000c0s1b0''\<rparr>)\<rparr>"

lemma plain_destination:
  "fst (getDestination env0 0 plain_world) = Ret ''http://10.94.100.71/x3000c0s1b0''"
  by code_simp

lemma plain_types:
  "GetHMSType ''x3000c0s1b0'' \<noteq> HMSTypeInvalid" "GetHMSType ''x3000c0s02b0'' \<noteq> HMSTypeInvalid"
  "GetHMSType ''iLO'' = HMSTypeInvalid"
  by code_simp+

theorem own_subscription_recognised_witness:
  "isSubscriptionForWrongXname (env0 :: unit env) ''x3000c0s02b0''
     (es_zero\<lparr>es_Context := ''iLO'', es_Destination := ''http://10.94.100.71/x3000c0s1b0''\<rparr>)
   = (NormalizeHMSCompID ''x3000c0s1b0'' \<noteq> NormalizeHMSCompID ''x3000c0s02b0'')"
proof -
  have dest: "getDestination env0 0 plain_world =
      (Ret ''http://10.94.100.71/x3000c0s1b0'', snd (getDestination env0 0 plain_world))"
    by (simp add: prod_eq_iff plain_destination)
  have host: "plain_host ''10.94.100.71''" "list_all plain_char ''x3000c0s1b0''" by code_simp+
  have cfg: "restURL (env0 :: unit env) = ''http://'' @ ''10.94.100.71''" "pruneOldSubscriptions (env0 :: unit env)"
    by (simp_all add: env0_def)
  have id: "ep_ID (w_ep plain_world 0) = ''x3000c0s1b0''" by (simp add: plain_world_def)
  show ?thesis
    using own_subscription_recognised[OF cfg(1) host(1) cfg(2) _ _ dest, of "es_zero\<lparr>es_Context := ''iLO'',
        es_Destination := ''http://10.94.100.71/x3000c0s1b0''\<rparr>" "''x3000c0s02b0''"] plain_types host(2)
    unfolding id by simp
qed

text \<open>
  When every request fails, the body of \<^verbatim>\<open>rfSubscribe\<close> returns with the status complete, although it has
  recorded no group of registry prefixes, and a verification that follows then has nothing to check and
  leaves the status as it is. \<^verbatim>\<open>SubscribeMachine\<close> shows that the endpoint is not queued again.
\<close>

theorem unreachable_attempt:
  assumes "unreachable E"
    and "Parse (''https://'' @ ep_FQDN (w_ep w (sub_Endpoint sub)) @ ''/redfish/v1/EventService/Subscriptions'') \<noteq> None"
    and "w_prefixGroups w (sub_PrefixGroups sub) = []"
  shows "\<exists>w'. rfSubscribe_body E sub w = (Ret (), w')
      \<and> w_status w' (sub_Status sub) = RFSUBSTATUS_COMPLETE \<and> w_prefixGroups w' = w_prefixGroups w
      \<and> rfVerifySub_receive E sub w' = (Ret (), w')"
proof -
  obtain e where 1: "prune E (sub_Endpoint sub) w = (Ret (), w\<lparr>w_ext := e\<rparr>)"
    using prune_unreachable[OF assms(1,2)] by blast
  obtain e' h where 2: "forIO (subscribe_group E sub) (registryPrefixGroups E) (w\<lparr>w_ext := e\<rparr>) =
      (Ret (), (w\<lparr>w_ext := e\<rparr>)\<lparr>w_ext := e', w_status := h\<rparr>)"
    using subscribe_groups_unreachable[OF assms(1), of "w\<lparr>w_ext := e\<rparr>" sub] assms(2) by force
  let ?w' = "w\<lparr>w_ext := e', w_status := h(sub_Status sub := RFSUBSTATUS_COMPLETE)\<rparr>"
  from 1 2 have "rfSubscribe_body E sub w = (Ret (), ?w')"
    by (simp add: rfSubscribe_body_def thenIO_def bindIO_def)
  moreover have "rfVerifySub_receive E sub ?w' = (Ret (), ?w')"
    using assms(3) by (simp add: rfVerifySub_receive_def rfVerifySub_body_def bindIO_def)
  ultimately show ?thesis by auto
qed

theorem unreachable_attempt_witness:
  "\<exists>w'. rfSubscribe_body env0 \<lparr>sub_Endpoint = 0, sub_Status = 0, sub_PrefixGroups = 0\<rparr> plain_world = (Ret (), w')
      \<and> w_status w' 0 = RFSUBSTATUS_COMPLETE"
proof -
  have "Parse (''https://'' @ ''x3000c0s1b0'' @ ''/redfish/v1/EventService/Subscriptions'') \<noteq> None" by code_simp
  then have url: "Parse (''https://'' @ ep_FQDN (w_ep plain_world (sub_Endpoint \<lparr>sub_Endpoint = 0, sub_Status = 0,
      sub_PrefixGroups = 0\<rparr>)) @ ''/redfish/v1/EventService/Subscriptions'') \<noteq> None"
    by (simp add: plain_world_def)
  have "unreachable (env0 :: unit env)" "w_prefixGroups plain_world (sub_PrefixGroups \<lparr>sub_Endpoint = 0,
      sub_Status = 0, sub_PrefixGroups = 0\<rparr>) = []"
    by (simp_all add: unreachable_def env0_def plain_world_def world0_def)
  from unreachable_attempt[OF this(1) url this(2)] show ?thesis by auto
qed

text \<open>
  C35: the groups recorded for an endpoint stay a duplicate-free list of groups the collector
  subscribes to, whatever the endpoint answers and even when the body of \<^verbatim>\<open>rfSubscribe\<close> panics.
\<close>

theorem groups_stay_ok:
  assumes "groups_ok E (w_prefixGroups w q)" "rfSubscribe_body E sub w = (r, w')"
  shows "groups_ok E (w_prefixGroups w' q)"
proof -
  have "always (\<lambda>w. groups_ok E (w_prefixGroups w q)) (rfSubscribe_body E sub)"
    unfolding rfSubscribe_body_def
    by (intro inv_rules subscribe_groups_ok[OF order_refl]
        always_keeps[OF sub_frame_groups.keeps_prune, where P = "\<lambda>h. groups_ok E (h q)"]
        always_keeps[OF keeps_writeStatus, where P = "\<lambda>h. groups_ok E (h q)" and g = w_prefixGroups]) simp
  from alwaysD[OF this assms] show ?thesis .
qed

theorem groups_stay_ok_witness:
  "groups_ok (env0 :: unit env) (w_prefixGroups (snd (rfSubscribe_body env0
     \<lparr>sub_Endpoint = 0, sub_Status = 0, sub_PrefixGroups = 0\<rparr> plain_world)) 0)"
  by (rule groups_stay_ok[OF _ prod.collapse[symmetric]])
     (simp add: groups_ok_def plain_world_def world0_def)

text \<open>
  Verifying a subscription changes its status at most from complete to error, and the status of
  no other subscription, nor any record of groups.
\<close>

theorem verify_changes_status:
  assumes "rfVerifySub_receive E sub w = (r, w')"
  shows "w_prefixGroups w' = w_prefixGroups w \<and>
     (w_status w' = w_status w
      \<or> w_status w (sub_Status sub) = RFSUBSTATUS_COMPLETE
        \<and> w_status w' = (w_status w)(sub_Status sub := RFSUBSTATUS_ERROR))"
  using assms
  by (auto simp: rfVerifySub_receive_def rfVerifySub_body_def elim!: bindIO_cases split: if_splits
      dest: verify_groups_status)

theorem verify_changes_status_witness:
  "w_prefixGroups (snd (rfVerifySub_receive env0 \<lparr>sub_Endpoint = 0, sub_Status = 0, sub_PrefixGroups = 0\<rparr>
     plain_world)) = w_prefixGroups plain_world"
  using verify_changes_status[OF prod.collapse[symmetric]] by blast

end
