(* ===== verification/Deletions.thy ===== *)
theory Deletions
  imports Subscriptions
begin

text \<open>
  Which subscriptions the collector deletes. The requests sent to an endpoint are recorded, the
  last one first, together with their answers; a \<^verbatim>\<open>DELETE\<close> is justified by what the endpoint answered
  before it.
\<close>

type_synonym exchange = "http_request \<times> (string + http_response)"

text \<open>An answer that makes the request fail, and the results an answer can give rise to.\<close>

definition failed_answer :: "string + http_response \<Rightarrow> bool" where
  "failed_answer a = (case a of
     Inl err \<Rightarrow> True
   | Inr resp \<Rightarrow> rs_StatusCode resp = 401 \<or> rs_StatusCode resp = 403 \<or> rs_readErr resp)"

definition result_of :: "string + http_response \<Rightarrow> http_result \<Rightarrow> bool" where
  "result_of a = (\<lambda>(body, code, err).
     if err = None then (case a of Inr resp \<Rightarrow> rs_Body resp = body | Inl e \<Rightarrow> False) else failed_answer a)"

text \<open>
  A \<^verbatim>\<open>DELETE\<close> is justified by an earlier exchange about the same URL: the endpoint presented a
  subscription for another xname there, or it did not let the context be corrected.
\<close>

definition justifies :: "'a config_scheme \<Rightarrow> string \<Rightarrow> string \<Rightarrow> exchange \<Rightarrow> bool" where
  "justifies C xname fullURL = (\<lambda>(q, a). rq_url q = fullURL \<and>
     (rq_method q = ''PATCH'' \<and> failed_answer a
      \<or> rq_method q = ''GET'' \<and> (case a of
           Inl err \<Rightarrow> False
         | Inr resp \<Rightarrow> (case Unmarshal_Subscription (rs_Body resp) of
                          None \<Rightarrow> False
                        | Some eventSub \<Rightarrow> isSubscriptionForWrongXname C xname eventSub))))"

fun deletes_justified :: "'a config_scheme \<Rightarrow> string \<Rightarrow> exchange list \<Rightarrow> bool" where
  "deletes_justified C xname [] = True"
| "deletes_justified C xname ((q, a) # earlier) \<longleftrightarrow>
     (rq_method q = ''DELETE'' \<longrightarrow> list_ex (justifies C xname (rq_url q)) earlier)
     \<and> deletes_justified C xname earlier"

lemma deletes_justified_append:
  assumes "deletes_justified C x log" "list_all (\<lambda>(q, a). rq_method q = m \<and> rq_url q = u) es"
    and "m = ''DELETE'' \<Longrightarrow> list_ex (justifies C x u) log"
  shows "deletes_justified C x (es @ log)"
  using assms by (induction es) auto

section \<open>A recording client\<close>

text \<open>The interface of an outside world that remembers the requests of the Redfish client.\<close>

locale recorded =
  fixes E :: "'e env" and log :: "'e \<Rightarrow> exchange list"
  assumes log_Do: "log (snd (env_Do E r e)) = (r, fst (env_Do E r e)) # log e"
    and log_GetCompCred: "log (snd (env_GetCompCred E i e)) = log e"
begin

lemma update_log: "updateEndpointWithCredentials E p w = (r, w') \<Longrightarrow> log (w_ext w') = log (w_ext w)"
  using log_GetCompCred[of "ep_ID (w_ep w p)" "w_ext w"]
  by (auto simp: update_result Let_def split: if_splits prod.splits sum.splits)

text \<open>The exchanges of one request, and where its result comes from.\<close>

lemma http_fuel_log:
  "doHTTPAction_fuel n E p m u b w = (r, w') \<Longrightarrow>
     \<exists>es. log (w_ext w') = es @ log (w_ext w)
       \<and> list_all (\<lambda>(q, a). rq_method q = m \<and> rq_url q = u) es
       \<and> (\<forall>x. r = Ret x \<longrightarrow> list_ex (\<lambda>(q, a). result_of a x) es)"
proof (induction n arbitrary: w)
  case (Suc n)
  let ?q = "build_request (w_ep w p) m u b"
  have q: "rq_method ?q = m" "rq_url ?q = u" by (simp_all add: build_request_def)
  have le: "log e = (?q, a) # log (w_ext w)" if "env_Do E ?q (w_ext w) = (a, e)" for a e
    using that log_Do[of ?q "w_ext w"] by simp
  show ?case
  proof (cases "Parse u = None")
    case True
    with Suc.prems show ?thesis by (intro exI[of _ "[]"]) (auto simp: http_unparsable)
  next
    case False
    then show ?thesis
    proof (cases rule: http_round[where E = E and p = p and w = w and m = m and b = b])
      case (failed err e)
      with Suc.prems q le[of "Inl err" e] show ?thesis
        by (intro exI[of _ "[(?q, Inl err)]"]) (auto simp: result_of_def failed_answer_def)
    next
      case (answered resp e)
      with Suc.prems q le[of "Inr resp" e] show ?thesis
        by (intro exI[of _ "[(?q, Inr resp)]"]) (auto simp: result_of_def failed_answer_def split: if_splits)
    next
      case (refused resp e x code err w1)
      with Suc.prems q le[of "Inr resp" e] update_log[OF refused(3)] show ?thesis
        by (intro exI[of _ "[(?q, Inr resp)]"]) (auto simp: result_of_def failed_answer_def)
    next
      case (again resp e w1)
      with Suc.prems have "doHTTPAction_fuel n E p m u b w1 = (r, w')" by simp
      from Suc.IH[OF this] obtain es where "log (w_ext w') = es @ log (w_ext w1)"
        "list_all (\<lambda>(q, a). rq_method q = m \<and> rq_url q = u) es"
        "\<forall>x. r = Ret x \<longrightarrow> list_ex (\<lambda>(q, a). result_of a x) es" by blast
      with q le[OF again(1)] update_log[OF again(2)] show ?thesis
        by (intro exI[of _ "es @ [(?q, Inr resp)]"]) auto
    qed
  qed
qed simp

lemma http_log:
  assumes "doHTTPAction E p m u b w = (r, w')"
  obtains es where "log (w_ext w') = es @ log (w_ext w)"
    "list_all (\<lambda>(q, a). rq_method q = m \<and> rq_url q = u) es"
    "\<And>x. r = Ret x \<Longrightarrow> \<exists>q a. (q, a) \<in> set es \<and> result_of a x"
proof -
  from http_fuel_log[OF assms[unfolded doHTTPAction_def]] obtain es where
    "log (w_ext w') = es @ log (w_ext w)" "list_all (\<lambda>(q, a). rq_method q = m \<and> rq_url q = u) es"
    "\<forall>x. r = Ret x \<longrightarrow> list_ex (\<lambda>(q, a). result_of a x) es" by blast
  then show thesis by (intro that[of es]) (auto simp: list_ex_iff)
qed

text \<open>
  The invariant of an endpoint's record: its deletions are justified, and so would be one of
  each of the URLs in a set.
\<close>

definition sound :: "nat \<Rightarrow> string \<Rightarrow> string \<Rightarrow> string set \<Rightarrow> 'e world \<Rightarrow> bool" where
  "sound p xname fqdn us w \<longleftrightarrow> ep_ID (w_ep w p) = xname \<and> ep_FQDN (w_ep w p) = fqdn
     \<and> deletes_justified E xname (log (w_ext w)) \<and> (\<forall>u\<in>us. list_ex (justifies E xname u) (log (w_ext w)))"

lemma sound_mono: "sound p x f us w \<Longrightarrow> us' \<subseteq> us \<Longrightarrow> sound p x f us' w"
  by (auto simp: sound_def)

lemma sound_http:
  assumes "sound p x f us w" "doHTTPAction E q m u b w = (r, w')" "m = ''DELETE'' \<Longrightarrow> u \<in> us"
  shows "sound p x f us w'"
    and "r = Ret (body, code, None) \<Longrightarrow> m = ''GET'' \<Longrightarrow> Unmarshal_Subscription body = Some es \<Longrightarrow>
           isSubscriptionForWrongXname E x es \<Longrightarrow> sound p x f (insert u us) w'"
    and "r = Ret (body, code, Some err) \<Longrightarrow> m = ''PATCH'' \<Longrightarrow> sound p x f (insert u us) w'"
proof -
  from http_log[OF assms(2)] obtain new where new: "log (w_ext w') = new @ log (w_ext w)"
    "list_all (\<lambda>(q, a). rq_method q = m \<and> rq_url q = u) new"
    "\<And>y. r = Ret y \<Longrightarrow> \<exists>q a. (q, a) \<in> set new \<and> result_of a y" by blast
  have ids: "ep_ID (w_ep w' p) = ep_ID (w_ep w p)" "ep_FQDN (w_ep w' p) = ep_FQDN (w_ep w p)"
    using identity_eqD[OF http_identity[OF assms(2), of p]] by simp_all
  have "deletes_justified E x (log (w_ext w'))"
    unfolding new(1) using assms(1,3) new(2) by (intro deletes_justified_append) (auto simp: sound_def)
  with assms(1) new(1) ids show base: "sound p x f us w'" by (auto simp: sound_def list_ex_iff)
  have add: "sound p x f (insert u us) w'"
    if "r = Ret y" "\<And>q a. rq_method q = m \<Longrightarrow> rq_url q = u \<Longrightarrow> result_of a y \<Longrightarrow> justifies E x u (q, a)" for y
  proof -
    from new(3)[OF that(1)] obtain q a where qa: "(q, a) \<in> set new" "result_of a y" by blast
    with new(2) have "rq_method q = m" "rq_url q = u" by (auto simp: list_all_iff)
    with that(2) qa(2) have "justifies E x u (q, a)" by blast
    with qa(1) new(1) have "list_ex (justifies E x u) (log (w_ext w'))" by (auto simp: list_ex_iff)
    with base show ?thesis by (simp add: sound_def)
  qed
  show "sound p x f (insert u us) w'"
    if "r = Ret (body, code, None)" "m = ''GET''" "Unmarshal_Subscription body = Some es"
      "isSubscriptionForWrongXname E x es"
    using add[OF that(1)] that(2-) by (auto simp: justifies_def result_of_def split: sum.splits)
  show "sound p x f (insert u us) w'" if "r = Ret (body, code, Some err)" "m = ''PATCH''"
    using add[OF that(1)] that(2) by (auto simp: justifies_def result_of_def)
qed

lemma always_http: "m \<noteq> ''DELETE'' \<or> u \<in> us \<Longrightarrow> always (sound p x f us) (doHTTPAction E q m u b)"
  using sound_http(1) by (intro alwaysI) blast

lemma always_GetRedfishType: "always (sound p x f us) (GetRedfishType E q)"
  unfolding GetRedfishType_def httpGetRedfishType_def readEp_def
  by (intro inv_rules always_http) (simp_all add: sound_def)

lemma always_getDestination: "always (sound p x f us) (getDestination E q)"
  unfolding getDestination_def checkILO_def checkOpenBmc_def readEp_def Let_def
  by (intro inv_rules always_http always_GetRedfishType) simp_all

lemma always_post: "always (sound p x f us) (postRFSubscription E q ts rp)"
  unfolding postRFSubscription_def readEp_def Let_def
  by (intro inv_rules always_http always_getDestination) simp_all

lemma always_eventTypes: "always (sound p x f us) (doGetEventTypes E q)"
  unfolding doGetEventTypes_def readEp_def by (intro inv_rules always_http) simp_all

lemma sound_delete:
  assumes "sound p x f us w" "''https://'' @ f @ uri \<in> us"
    "deleteSubscriptionForWrongXname E p uri es w = (r, w')"
  shows "sound p x f us w'"
  using assms
  by (auto simp: deleteSubscriptionForWrongXname_def sound_def[of p x f us w] elim!: bindIO_cases
      dest: sound_http(1)[OF assms(1)])

lemma sound_fix:
  assumes "sound p x f us w" "fixSubscriptionMismatch E p s rp w = (r, w')"
  shows "sound p x f {} w'"
proof -
  let ?u = "''https://'' @ pathJoin (ep_FQDN (w_ep w p)) (rid_Oid s)"
  let ?b = "Some (json_render (JObj (w_str_oe ''Context'' (ep_ID (w_ep w p)))))"
  have "fixSubscriptionMismatch E p s rp w = bindIO (doHTTPAction E p ''PATCH'' ?u ?b) (\<lambda>(_, _, patchErr).
      if patchErr \<noteq> None then bindIO (doHTTPAction E p ''DELETE'' ?u None) (\<lambda>_. return False) else return True) w"
    by (simp only: fixSubscriptionMismatch_def Let_def bind_readEp)
  with assms(2) have "bindIO (doHTTPAction E p ''PATCH'' ?u ?b) (\<lambda>(_, _, patchErr).
      if patchErr \<noteq> None then bindIO (doHTTPAction E p ''DELETE'' ?u None) (\<lambda>_. return False) else return True) w
      = (r, w')" by simp
  then show ?thesis
  proof (cases rule: bindIO_cases)
    case (ret y w1)
    obtain body code err where y: "y = (body, code, err)" by (cases y) auto
    show ?thesis
    proof (cases err)
      case None
      with ret y sound_http(1)[OF assms(1) ret(1)] show ?thesis by (auto intro: sound_mono)
    next
      case (Some e)
      with y sound_http(3)[OF assms(1) ret(1)] have "sound p x f (insert ?u us) w1" by simp
      moreover from ret(2) y Some obtain r2 where "doHTTPAction E p ''DELETE'' ?u None w1 = (r2, w')"
        by (auto elim!: bindIO_cases)
      ultimately have "sound p x f (insert ?u us) w'" using sound_http(1) by blast
      then show ?thesis by (rule sound_mono) simp
    qed
  next
    case (panic q)
    from sound_http(1)[OF assms(1) panic(1)] have "sound p x f us w'" by simp
    then show ?thesis by (rule sound_mono) simp
  next
    case nofuel
    from sound_http(1)[OF assms(1) nofuel(1)] have "sound p x f us w'" by simp
    then show ?thesis by (rule sound_mono) simp
  qed
qed

lemma sound_getSubscription:
  assumes "sound p x f us w" "getSubscription E p uri w = (r, w')"
  shows "sound p x f us w'"
    and "r = Ret (Inr es) \<Longrightarrow> isSubscriptionForWrongXname E x es \<Longrightarrow>
           sound p x f (insert (''https://'' @ f @ uri) us) w'"
proof -
  from assms(1) have "ep_FQDN (w_ep w p) = f" by (simp add: sound_def)
  then have "getSubscription E p uri w = bindIO (doHTTPAction E p ''GET'' (''https://'' @ f @ uri) None)
     (\<lambda>(payloadBytes, _, err).
     case err of
       Some e \<Rightarrow> return (Inl (HttpErr e))
     | None \<Rightarrow> (case Unmarshal_Subscription payloadBytes of
                  None \<Rightarrow> return (Inl JsonErr)
                | Some eventSub \<Rightarrow> return (Inr eventSub))) w"
    by (simp only: getSubscription_def bind_readEp)
  with assms(2) show "sound p x f us w'"
    and "r = Ret (Inr es) \<Longrightarrow> isSubscriptionForWrongXname E x es \<Longrightarrow>
           sound p x f (insert (''https://'' @ f @ uri) us) w'"
    by (auto elim!: bindIO_cases split: option.splits prod.splits dest: sound_http[OF assms(1)])
qed

lemma sound_prune_member: "always (sound p x f us) (prune_member E p m)"
proof (rule alwaysI)
  fix w r w' assume s: "sound p x f us w" and run: "prune_member E p m w = (r, w')"
  from run show "sound p x f us w'" unfolding prune_member_def
  proof (cases rule: bindIO_cases)
    case (ret y w1)
    show ?thesis
    proof (cases y)
      case (Inl err)
      with ret sound_getSubscription(1)[OF s ret(1)] show ?thesis by simp
    next
      case (Inr es)
      note g = sound_getSubscription[OF s ret(1)]
      from g(1) have id: "ep_ID (w_ep w1 p) = x" by (simp add: sound_def)
      show ?thesis
      proof (cases "isSubscriptionForWrongXname E x es")
        case True
        from g(2) Inr True have "sound p x f (insert (''https://'' @ f @ rid_Oid m) us) w1" by simp
        from sound_delete[OF this, of "rid_Oid m" es r w'] ret(2) Inr id True
        have "sound p x f (insert (''https://'' @ f @ rid_Oid m) us) w'" by simp
        then show ?thesis by (rule sound_mono) auto
      next
        case False
        with ret(2) Inr id g(1) show ?thesis by simp
      qed
    qed
  qed (use sound_getSubscription(1)[OF s] in auto)
qed

lemma sound_prune: "always (sound p x f us) (prune E p)"
  unfolding prune_def getSubscriptions_def readEp_def
  by (intro inv_rules sound_prune_member always_http) simp_all

text \<open>What \<^verbatim>\<open>isDupRFSubscription\<close> does with one subscription.\<close>

lemma sound_dup_found:
  assumes "sound p x f us w" "isSubscriptionForWrongXname E x es \<Longrightarrow> ''https://'' @ f @ rid_Oid m \<in> us"
    and rest: "\<And>w r w'. sound p x f {} w \<Longrightarrow> rest w = (r, w') \<Longrightarrow> sound p x f {} w'"
    and run: "bindIO (getDestination E p) (\<lambda>destination. bindIO (readEp p) (\<lambda>endpoint.
            if es_Destination es = destination then
              (if prefixes_match rp (es_RegistryPrefixes es) then
                 (if es_Context es \<noteq> ep_ID endpoint
                  then bindIO (fixSubscriptionMismatch E p m rp) (\<lambda>match. return (match, None))
                  else return (True, None))
               else rest)
            else
              thenIO
                (if pruneOldSubscriptions E \<and> isSubscriptionForWrongXname E (ep_ID endpoint) es
                 then deleteSubscriptionForWrongXname E p (rid_Oid m) es else return ())
                rest)) w = (r, w')"
  shows "sound p x f {} w'"
proof -
  have dest: "sound p x f us w2" if "getDestination E p w = (r2, w2)" for r2 w2
    using alwaysD[OF always_getDestination assms(1) that] .
  from run show ?thesis
  proof (cases rule: bindIO_cases)
    case (ret d w2)
    note s2 = dest[OF ret(1)]
    note s0 = sound_mono[OF s2 empty_subsetI]
    have id: "ep_ID (w_ep w2 p) = x" using s2 by (simp add: sound_def)
    have del: "sound p x f {} w3"
      if "isSubscriptionForWrongXname E x es" "deleteSubscriptionForWrongXname E p (rid_Oid m) es w2 = (r3, w3)" for r3 w3
      using sound_delete[OF s2 assms(2)[OF that(1)] that(2)] sound_mono by blast
    show ?thesis
    proof (cases "es_Destination es = d")
      case True
      with ret(2) s0 show ?thesis
        by (auto simp: id elim!: bindIO_cases intro: rest[OF s0] sound_fix[OF s2] split: if_splits)
    next
      case False
      with ret(2) show ?thesis
        by (auto simp: id thenIO_def elim!: bindIO_cases intro: rest[OF s0] rest[OF del] del split: if_splits)
    qed
  qed (use dest sound_mono in blast)+
qed

lemma sound_isDup_members:
  "isDup_members E p base rp ms w = (r, w') \<Longrightarrow> base = ''https://'' @ f \<Longrightarrow> sound p x f {} w \<Longrightarrow> sound p x f {} w'"
proof (induction ms arbitrary: w r w')
  case (Cons m ms)
  note s = Cons.prems(3)
  from Cons.prems(1) show ?case unfolding isDup_members.simps
  proof (cases rule: bindIO_cases)
    case (ret y w1)
    obtain body code err where y: "y = (body, code, err)" by (cases y) auto
    note get = sound_http[OF s ret(1)]
    show ?thesis
    proof (cases "err = None \<and> Unmarshal_Subscription body \<noteq> None")
      case False
      with y ret(2) get(1) show ?thesis by (auto split: option.splits)
    next
      case True
      then obtain es where es: "err = None" "Unmarshal_Subscription body = Some es" by auto
      define us where "us = (if isSubscriptionForWrongXname E x es then {base @ rid_Oid m} else {})"
      have s1: "sound p x f us w1" using get(1) get(2)[of body code es] y es by (simp add: us_def)
      have j: "''https://'' @ f @ rid_Oid m \<in> us" if "isSubscriptionForWrongXname E x es"
        using that by (simp add: us_def Cons.prems(2))
      have rest: "sound p x f {} w2'"
        if "sound p x f {} w2" "isDup_members E p base rp ms w2 = (r2, w2')" for w2 r2 w2'
        by (rule Cons.IH[OF that(2) Cons.prems(2) that(1)])
      show ?thesis
      proof (rule sound_dup_found[where es = es and m = m and rp = rp, OF s1])
        show "''https://'' @ f @ rid_Oid m \<in> us" if "isSubscriptionForWrongXname E x es"
          by (rule j[OF that])
        show "sound p x f {} w2'" if "sound p x f {} w2" "isDup_members E p base rp ms w2 = (r2, w2')" for w2 r2 w2'
          by (rule rest[OF that])
      qed (use ret(2) y es in simp)
    qed
  qed (use sound_http(1)[OF s, of p "''GET''"] in auto)
qed simp

lemma sound_isDup: "always (sound p x f {}) (isDupRFSubscription E p rp)"
proof (rule alwaysI)
  fix w r w' assume s: "sound p x f {} w" and run: "isDupRFSubscription E p rp w = (r, w')"
  from s have f: "ep_FQDN (w_ep w p) = f" by (simp add: sound_def)
  define base u where "base = ''https://'' @ f"
    and "u = ''https://'' @ f @ ''/redfish/v1/EventService/Subscriptions''"
  from run have "bindIO (doHTTPAction E p ''GET'' u None) (\<lambda>(payloadBytes, _, err).
     case err of
       Some e \<Rightarrow> return (False, Some (HttpErr e))
     | None \<Rightarrow>
       (case Unmarshal_Subscriptions payloadBytes of
          None \<Rightarrow> return (False, Some JsonErr)
        | Some subList \<Rightarrow> isDup_members E p base rp (sc_Members subList))) w = (r, w')"
    by (simp only: isDupRFSubscription_def bind_readEp f base_def u_def)
  moreover have "sound p x f {} w1" if "doHTTPAction E p ''GET'' u None w = (r1, w1)" for r1 w1
    using sound_http(1)[OF s that] by simp
  ultimately show "sound p x f {} w'"
    by (auto elim!: bindIO_cases split: option.splits prod.splits dest: sound_isDup_members[OF _ base_def])
qed

lemma sound_subscribe_group: "always (sound (sub_Endpoint sub) x f {}) (subscribe_group E sub rp)"
  unfolding subscribe_group_def appendGroup_def writeStatus_def
  by (intro inv_rules sound_isDup always_eventTypes always_post) (simp_all add: sound_def)

lemma sound_rfSubscribe: "always (sound (sub_Endpoint sub) x f {}) (rfSubscribe_body E sub)"
  unfolding rfSubscribe_body_def writeStatus_def
  by (intro inv_rules sound_prune sound_subscribe_group) (simp_all add: sound_def)

lemma sound_rfVerifySub: "always (sound (sub_Endpoint sub) x f {}) (rfVerifySub_receive E sub)"
  unfolding rfVerifySub_receive_def rfVerifySub_body_def verify_group_def writeStatus_def readStatus_def
  by (intro inv_rules sound_isDup) (simp_all add: sound_def)

end

text \<open>Any outside world with a record of the exchanges beside its state.\<close>

definition recording :: "'e env \<Rightarrow> (exchange list \<times> 'e) env" where
  "recording E =
     \<lparr> pollingEnabled = pollingEnabled E, rfSubscribeEnabled = rfSubscribeEnabled E,
       rfStreamingEnabled = rfStreamingEnabled E, restEnabled = restEnabled E, VaultEnabled = VaultEnabled E,
       pruneOldSubscriptions = pruneOldSubscriptions E, pduPollingInterval = pduPollingInterval E,
       restURL = restURL E, restPort = restPort E, smURL = smURL E,
       IgnoreProvidedTimestamp = IgnoreProvidedTimestamp E, httpFuel = httpFuel E,
       env_Do = (\<lambda>r (l, e). case env_Do E r e of (a, e') \<Rightarrow> (a, ((r, a) # l, e'))),
       env_smdDo = (\<lambda>r (l, e). case env_smdDo E r e of (a, e') \<Rightarrow> (a, (l, e'))),
       env_GetCompCred = (\<lambda>i (l, e). case env_GetCompCred E i e of (a, e') \<Rightarrow> (a, (l, e'))),
       env_Produce = (\<lambda>b m (l, e). case env_Produce E b m e of (a, e') \<Rightarrow> (a, (l, e'))),
       env_Now = (\<lambda>(l, e). case env_Now E e of (a, e') \<Rightarrow> (a, (l, e'))),
       env_RFC3339 = env_RFC3339 E, env_RFC3339Nano = env_RFC3339Nano E,
       env_range = (\<lambda>ks (l, e). case env_range E ks e of (a, e') \<Rightarrow> (a, (l, e'))) \<rparr>"

interpretation recording: recorded "recording E" fst
  by unfold_locales (auto simp: recording_def split: prod.splits)

section \<open>Properties\<close>

lemma config_recording [simp]:
  "isSubscriptionForWrongXname (recording E) x es = isSubscriptionForWrongXname E x es"
  by (simp add: isSubscriptionForWrongXname_def recording_def)

lemma deletes_justified_recording [simp]:
  "deletes_justified (recording E) x l = deletes_justified E x l"
  by (induction l) (auto simp: justifies_def cong: option.case_cong sum.case_cong)

text \<open>
  C2: the collector deletes no subscription it has no reason to delete. For an endpoint whose ID is
  an xname \<open>x\<close>, every \<^verbatim>\<open>DELETE\<close> that subscribing to it or verifying its subscriptions sends was
  preceded by an exchange about the same URL in which the endpoint presented a subscription for
  another xname than \<open>x\<close>, or refused the correction of the context of a subscription of ours. This
  covers every run, whether it returns or panics, and whatever the endpoint answers.
\<close>

theorem deletions_justified:
  assumes "w_ext w = ([], e)" and "ep_ID (w_ep w (sub_Endpoint sub)) = x"
    and "rfSubscribe_body (recording E) sub w = (r, w') \<or> rfVerifySub_receive (recording E) sub w = (r, w')"
  shows "deletes_justified E x (fst (w_ext w'))"
proof -
  have "recording.sound E (sub_Endpoint sub) x (ep_FQDN (w_ep w (sub_Endpoint sub))) {} w"
    using assms(1,2) by (simp add: recording.sound_def)
  with assms(3) have "recording.sound E (sub_Endpoint sub) x (ep_FQDN (w_ep w (sub_Endpoint sub))) {} w'"
    using alwaysD[OF recording.sound_rfSubscribe] alwaysD[OF recording.sound_rfVerifySub] by blast
  then show ?thesis by (simp add: recording.sound_def)
qed

text \<open>An endpoint moved from \<^verbatim>\<open>x3000c0s1b0\<close> to \<^verbatim>\<open>x3000c0s2b0\<close> that still has its old subscription.\<close>

definition moved_env :: "unit env" where
  "moved_env = env0\<lparr>env_Do := (\<lambda>q e. (Inr \<lparr>rs_StatusCode = 200,
     rs_Body = (if HasSuffix (rq_url q) ''/Subscriptions''
                then ''{\"Members\":[{\"@odata.id\":\"/redfish/v1/EventService/Subscriptions/1\"}]}''
                else ''{\"Context\":\"x3000c0s1b0\",\"Destination\":\"http://10.94.100.71/x3000c0s1b0\"}''),
     rs_readErr = False\<rparr>, e))\<rparr>"

definition moved_world :: "(exchange list \<times> unit) world" where
  "moved_world = (world0 ([], ()))\<lparr>w_ep := (\<lambda>_. ep_zero\<lparr>ep_ID := ''x3000c0s2b0'', ep_FQDN := ''x3000c0s2b0''\<rparr>),
     w_status := (\<lambda>_. RFSUBSTATUS_COMPLETE), w_prefixGroups := (\<lambda>_. [None])\<rparr>"

definition moved_sub :: RFSub where
  "moved_sub = \<lparr> sub_Endpoint = 0, sub_Status = 0, sub_PrefixGroups = 0 \<rparr>"

lemma moved_deletes:
  "list_ex (\<lambda>(q, a). rq_method q = ''DELETE'') (fst (w_ext (snd (rfVerifySub_receive (recording moved_env) moved_sub moved_world))))"
  by code_simp

theorem deletions_justified_witness:
  "let log = fst (w_ext (snd (rfVerifySub_receive (recording moved_env) moved_sub moved_world)))
   in deletes_justified moved_env ''x3000c0s2b0'' log \<and> list_ex (\<lambda>(q, a). rq_method q = ''DELETE'') log"
proof -
  have "w_ext moved_world = ([], ())"
    "ep_ID (w_ep moved_world (sub_Endpoint moved_sub)) = ''x3000c0s2b0''"
    by (simp_all add: moved_world_def world0_def)
  from deletions_justified[OF this disjI2[OF prod.collapse[symmetric]], of moved_env] moved_deletes
  show ?thesis by simp
qed

end
