(* ===== verification/SubscribeMachine.thy ===== *)
theory SubscribeMachine
  imports Subscriptions "HOL-Library.Multiset"
begin

text \<open>
  The three goroutines of the subscription monitor (\<^verbatim>\<open>doRFSubscribe\<close>, \<^verbatim>\<open>rfSubscribe\<close> and \<^verbatim>\<open>rfVerifySub\<close> in
  \<^verbatim>\<open>cmd/hmcollector/rf_subscriptions.go\<close>) as a step relation. The state has the map of endpoints of
  \<^verbatim>\<open>doRFSubscribe\<close>, what is left of its current scan, the two channels, and the goroutines running for
  single subscriptions. One step is one endpoint of a scan, one reception from a channel, or the work
  of a goroutine for one group of registry prefixes; steps of different goroutines interleave freely. A goroutine
  that panics has no further step; in Go it ends the process. Shown are the invariant of the statuses and channels, that every scan
  ends and visits every endpoint, and that an endpoint marked complete without a subscription is given up.
\<close>

section \<open>State\<close>

datatype sub_job = Pruning RFSub | Subscribing RFSub "string list option list"

primrec job_sub :: "sub_job \<Rightarrow> RFSub" where
  "job_sub (Pruning s) = s"
| "job_sub (Subscribing s gs) = s"

record 'e monitor =
  m_world :: "'e world"
  m_endpoints :: "string \<Rightarrow> RFSub option"
  m_subCheckCnt :: nat
  m_scan :: "nat list"
  m_pending :: "RFSub list"
  m_verify :: "RFSub list"
  m_subscribing :: "sub_job list"
  m_verifying :: "(RFSub \<times> string list option list) list"

definition subCheckFreq :: nat where "subCheckFreq = 20"

definition channel_capacity :: nat where "channel_capacity = 1000"

section \<open>The scan of \<^verbatim>\<open>doRFSubscribe\<close>\<close>

definition new_sub :: "nat \<Rightarrow> nat \<Rightarrow> RFSub" where
  "new_sub p n = \<lparr> sub_Endpoint = p, sub_Status = n, sub_PrefixGroups = n \<rparr>"

text \<open>A new record with a fresh status and no groups, registered and queued for subscribing.\<close>

definition enqueue_new :: "nat \<Rightarrow> 'e monitor \<Rightarrow> 'e monitor" where
  "enqueue_new p m =
     (let w = m_world m; n = w_nextSub w; s = new_sub p n
      in m\<lparr>m_world := w\<lparr>w_status := (w_status w)(n := RFSUBSTATUS_PENDING),
                        w_prefixGroups := (w_prefixGroups w)(n := []), w_nextSub := Suc n\<rparr>,
           m_endpoints := (m_endpoints m)(ep_ID (w_ep w p) \<mapsto> s),
           m_pending := m_pending m @ [s]\<rparr>)"

definition enqueue_verify :: "nat \<Rightarrow> RFSub \<Rightarrow> 'e monitor \<Rightarrow> 'e monitor" where
  "enqueue_verify p s m =
     (let s' = s\<lparr>sub_Endpoint := p\<rparr>
      in m\<lparr>m_endpoints := (m_endpoints m)(ep_ID (w_ep (m_world m) p) \<mapsto> s'),
           m_verify := m_verify m @ [s']\<rparr>)"

definition skip_endpoint :: "RedfishEPDescription \<Rightarrow> bool" where
  "skip_endpoint newEndpoint \<longleftrightarrow>
     GetHMSType (ep_ID newEndpoint) = CabinetPDUController \<and> \<not> Contains (ep_FQDN newEndpoint) ''rts''"

definition scan_endpoint :: "nat \<Rightarrow> 'e monitor \<Rightarrow> 'e monitor" where
  "scan_endpoint p m =
     (let newEndpoint = w_ep (m_world m) p
      in if skip_endpoint newEndpoint then m
         else case m_endpoints m (ep_ID newEndpoint) of
                None \<Rightarrow> enqueue_new p m
              | Some endpoint \<Rightarrow>
                  if w_status (m_world m) (sub_Status endpoint) = RFSUBSTATUS_ERROR then enqueue_new p m
                  else if m_subCheckCnt m mod subCheckFreq = 0 then enqueue_verify p endpoint m
                  else m)"

section \<open>Steps\<close>

inductive sub_move :: "'e env \<Rightarrow> 'e monitor \<Rightarrow> 'e monitor \<Rightarrow> bool" for E where
  begin_scan:
    "m_scan m = [] \<Longrightarrow> mset ps = mset (map snd (w_HSMEndpoints (m_world m))) \<Longrightarrow>
     sub_move E m (m\<lparr>m_subCheckCnt := Suc (m_subCheckCnt m), m_scan := ps\<rparr>)"
| scan_next:
    "m_scan m = p # ps \<Longrightarrow> m' = scan_endpoint p m \<Longrightarrow>
     length (m_pending m') \<le> channel_capacity \<Longrightarrow> length (m_verify m') \<le> channel_capacity \<Longrightarrow>
     sub_move E m (m'\<lparr>m_scan := ps\<rparr>)"
| receive_pending:
    "m_pending m = s # q \<Longrightarrow>
     sub_move E m (m\<lparr>m_pending := q, m_subscribing := m_subscribing m @ [Pruning s]\<rparr>)"
| run_prune:
    "m_subscribing m = js @ Pruning s # ks \<Longrightarrow> prune E (sub_Endpoint s) (m_world m) = (Ret (), w') \<Longrightarrow>
     sub_move E m (m\<lparr>m_world := w', m_subscribing := js @ Subscribing s (registryPrefixGroups E) # ks\<rparr>)"
| run_group:
    "m_subscribing m = js @ Subscribing s (g # gs) # ks \<Longrightarrow> subscribe_group E s g (m_world m) = (Ret (), w') \<Longrightarrow>
     sub_move E m (m\<lparr>m_world := w', m_subscribing := js @ Subscribing s gs # ks\<rparr>)"
| run_finish:
    "m_subscribing m = js @ Subscribing s [] # ks \<Longrightarrow>
     writeStatus (sub_Status s) RFSUBSTATUS_COMPLETE (m_world m) = (Ret (), w') \<Longrightarrow>
     sub_move E m (m\<lparr>m_world := w', m_subscribing := js @ ks\<rparr>)"
| receive_verify_skip:
    "m_verify m = s # q \<Longrightarrow> w_status (m_world m) (sub_Status s) \<noteq> RFSUBSTATUS_COMPLETE \<Longrightarrow>
     sub_move E m (m\<lparr>m_verify := q\<rparr>)"
| receive_verify:
    "m_verify m = s # q \<Longrightarrow> w_status (m_world m) (sub_Status s) = RFSUBSTATUS_COMPLETE \<Longrightarrow>
     sub_move E m (m\<lparr>m_verify := q,
        m_verifying := m_verifying m @ [(s, w_prefixGroups (m_world m) (sub_PrefixGroups s))]\<rparr>)"
| run_verify:
    "m_verifying m = js @ (s, g # gs) # ks \<Longrightarrow> verify_group E s g (m_world m) = (Ret (), w') \<Longrightarrow>
     sub_move E m (m\<lparr>m_world := w', m_verifying := js @ (s, gs) # ks\<rparr>)"
| end_verify:
    "m_verifying m = js @ (s, []) # ks \<Longrightarrow> sub_move E m (m\<lparr>m_verifying := js @ ks\<rparr>)"

text \<open>
  A step is a move of one of these goroutines, or something the rest of the program does, which never touches
  the subscriptions.
\<close>

inductive sub_step :: "'e env \<Rightarrow> 'e monitor \<Rightarrow> 'e monitor \<Rightarrow> bool" for E where
  own: "sub_move E m m' \<Longrightarrow> sub_step E m m'"
| others:
    "w_status w' = w_status (m_world m) \<Longrightarrow> w_prefixGroups w' = w_prefixGroups (m_world m) \<Longrightarrow>
     w_nextSub w' = w_nextSub (m_world m) \<Longrightarrow> sub_step E m (m\<lparr>m_world := w'\<rparr>)"

definition monitor0 :: "'e world \<Rightarrow> 'e monitor" where
  "monitor0 w = \<lparr> m_world = w, m_endpoints = (\<lambda>_. None), m_subCheckCnt = 0, m_scan = [],
     m_pending = [], m_verify = [], m_subscribing = [], m_verifying = [] \<rparr>"

abbreviation reaches :: "'e env \<Rightarrow> 'e monitor \<Rightarrow> 'e monitor \<Rightarrow> bool" where
  "reaches E \<equiv> (sub_step E)\<^sup>*\<^sup>*"

section \<open>The invariant\<close>

text \<open>
  The invariant speaks of status cells: the statuses \<open>st\<close> of the cells below \<open>N\<close>, the cells of the
  subscriptions queued (\<open>Q\<close>) and being set up (\<open>R\<close>), being verified (\<open>V\<close>) and waiting to be verified
  (\<open>U\<close>), and the cell registered for an xname (\<open>reg\<close>).
\<close>

definition cells_ok ::
  "(nat \<Rightarrow> RFSubStatus) \<Rightarrow> nat \<Rightarrow> nat list \<Rightarrow> nat list \<Rightarrow> nat set \<Rightarrow> nat set \<Rightarrow> (string \<Rightarrow> nat option) \<Rightarrow> bool"
where
  "cells_ok st N Q R V U reg \<longleftrightarrow>
     distinct (Q @ R)
     \<and> set Q \<union> set R \<union> V \<union> U \<union> ran reg \<subseteq> {..<N}
     \<and> inj_on reg (dom reg)
     \<and> (\<forall>n\<in>ran reg. st n = RFSUBSTATUS_PENDING \<longrightarrow> n \<in> set Q \<union> set R)
     \<and> (\<forall>n\<in>set Q. st n = RFSUBSTATUS_PENDING \<and> n \<notin> V)"

definition queued :: "'e monitor \<Rightarrow> nat list" where
  "queued m = map sub_Status (m_pending m)"

definition running :: "'e monitor \<Rightarrow> nat list" where
  "running m = map (\<lambda>j. sub_Status (job_sub j)) (m_subscribing m)"

definition verified :: "'e monitor \<Rightarrow> nat list" where
  "verified m = map (\<lambda>(s, gs). sub_Status s) (m_verifying m)"

definition registered :: "'e monitor \<Rightarrow> string \<Rightarrow> nat option" where
  "registered m = (\<lambda>i. map_option sub_Status (m_endpoints m i))"

abbreviation status_of :: "'e monitor \<Rightarrow> nat \<Rightarrow> RFSubStatus" where
  "status_of m n \<equiv> w_status (m_world m) n"

definition monitor_ok :: "'e monitor \<Rightarrow> bool" where
  "monitor_ok m \<longleftrightarrow>
     cells_ok (w_status (m_world m)) (w_nextSub (m_world m)) (queued m) (running m) (set (verified m))
       (sub_Status ` set (m_verify m)) (registered m)
     \<and> length (m_pending m) \<le> channel_capacity \<and> length (m_verify m) \<le> channel_capacity"

lemmas cell_lists = queued_def running_def verified_def registered_def

lemma cells_new:
  assumes "cells_ok st N Q R V U reg"
  shows "cells_ok (st(N := RFSUBSTATUS_PENDING)) (Suc N) (Q @ [N]) R V U (reg(i \<mapsto> N))"
proof -
  have N: "N \<notin> set Q" "N \<notin> set R" "N \<notin> V" "N \<notin> ran reg" using assms by (auto simp: cells_ok_def)
  moreover have "ran (reg(i \<mapsto> N)) \<subseteq> insert N (ran reg)" by (auto simp: ran_def)
  moreover have "inj_on (reg(i \<mapsto> N)) (dom (reg(i \<mapsto> N)))"
    using N(4) assms by (auto simp: cells_ok_def inj_on_def dom_def ran_def)
  ultimately show ?thesis
    using assms by (auto simp: cells_ok_def less_Suc_eq)
qed

lemma cells_touch:
  assumes "cells_ok st N Q R V U reg" "n \<notin> set Q" "\<And>k. k \<noteq> n \<Longrightarrow> st' k = st k"
    "st' n = st n \<or> st' n \<noteq> RFSUBSTATUS_PENDING"
  shows "cells_ok st' N Q R V U reg"
  using assms unfolding cells_ok_def by metis

lemma cells_receive: "cells_ok st N (n # Q) R V U reg \<Longrightarrow> cells_ok st N Q (R @ [n]) V U reg"
  by (auto simp: cells_ok_def)

lemma cells_finish:
  "cells_ok st N Q (R @ n # S) V U reg \<Longrightarrow> st n \<noteq> RFSUBSTATUS_PENDING \<Longrightarrow> cells_ok st N Q (R @ S) V U reg"
  by (auto simp: cells_ok_def)

lemma cells_verify:
  "cells_ok st N Q R V U reg \<Longrightarrow> n \<in> U \<Longrightarrow> st n \<noteq> RFSUBSTATUS_PENDING \<Longrightarrow> cells_ok st N Q R (insert n V) U reg"
  by (auto simp: cells_ok_def)

lemma cells_mono: "cells_ok st N Q R V U reg \<Longrightarrow> V' \<subseteq> V \<Longrightarrow> U' \<subseteq> U \<Longrightarrow> cells_ok st N Q R V' U' reg"
  by (auto simp: cells_ok_def)

lemma cells_wait: "cells_ok st N Q R V U reg \<Longrightarrow> reg i = Some n \<Longrightarrow> cells_ok st N Q R V (insert n U) (reg(i \<mapsto> n))"
  by (auto simp: cells_ok_def fun_upd_idem intro: ranI)

text \<open>A change of the world in which at most the status in cell \<open>n\<close> changes, and not to pending.\<close>

definition touches :: "nat \<Rightarrow> 'e world \<Rightarrow> 'e world \<Rightarrow> bool" where
  "touches n w w' \<longleftrightarrow> w_nextSub w' = w_nextSub w \<and> (\<forall>k. k \<noteq> n \<longrightarrow> w_status w' k = w_status w k)
     \<and> (w_status w' n = w_status w n \<or> w_status w' n \<noteq> RFSUBSTATUS_PENDING)"

lemma touches_same: "w_nextSub w' = w_nextSub w \<Longrightarrow> w_status w' = w_status w \<Longrightarrow> touches n w w'"
  by (simp add: touches_def)

lemma subs_kept:
  assumes "keeps (\<lambda>w. (w_status w, w_prefixGroups w, w_nextSub w)) c" "c w = (r, w')"
  shows "w_status w' = w_status w \<and> w_prefixGroups w' = w_prefixGroups w \<and> w_nextSub w' = w_nextSub w"
  using keepsD[OF assms] by simp

lemma prune_touches: "prune E p w = (r, w') \<Longrightarrow> touches n w w'"
  by (rule touches_same) (auto dest: subs_kept[OF sub_frame_subs.keeps_prune])

lemma subscribe_group_touches:
  assumes "subscribe_group E s g w = (r, w')"
  shows "touches (sub_Status s) w w'"
  using assms
  by (auto simp: subscribe_group_def appendGroup_def touches_def thenIO_def
      elim!: bindIO_cases split: if_splits sum.splits prod.splits
      dest!: subs_kept[OF sub_frame_subs.keeps_isDup] subs_kept[OF sub_frame_subs.keeps_eventTypes]
        subs_kept[OF sub_frame_subs.keeps_post])

lemma verify_group_touches:
  assumes "verify_group E s g w = (r, w')"
  shows "touches (sub_Status s) w w'"
  using assms
  by (auto simp: verify_group_def touches_def elim!: bindIO_cases split: if_splits
      dest!: subs_kept[OF sub_frame_subs.keeps_isDup])

lemma ok_touches:
  assumes "monitor_ok m" "touches n (m_world m) w'" "n \<notin> set (queued m)"
  shows "monitor_ok (m\<lparr>m_world := w'\<rparr>)"
  using assms cells_touch[of "w_status (m_world m)" "w_nextSub (m_world m)" "queued m" "running m"
      "set (verified m)" "sub_Status ` set (m_verify m)" "registered m" n "w_status w'"]
  by (simp add: monitor_ok_def touches_def cell_lists)

lemma ok_jobs:
  "monitor_ok m \<Longrightarrow> map (\<lambda>j. sub_Status (job_sub j)) js = running m \<Longrightarrow> monitor_ok (m\<lparr>m_subscribing := js\<rparr>)"
  by (simp add: monitor_ok_def cell_lists)

lemma ok_enqueue_new:
  assumes "monitor_ok m" "length (m_pending (enqueue_new p m)) \<le> channel_capacity"
  shows "monitor_ok (enqueue_new p m)"
proof -
  have "registered (enqueue_new p m) = (registered m)(ep_ID (w_ep (m_world m) p) \<mapsto> w_nextSub (m_world m))"
    by (auto simp: fun_eq_iff cell_lists enqueue_new_def new_sub_def Let_def)
  then show ?thesis
    using assms cells_new[of "w_status (m_world m)"]
    by (simp add: monitor_ok_def) (simp add: enqueue_new_def new_sub_def Let_def cell_lists)
qed

lemma ok_enqueue_verify:
  assumes "monitor_ok m" "m_endpoints m (ep_ID (w_ep (m_world m) p)) = Some s"
    "length (m_verify (enqueue_verify p s m)) \<le> channel_capacity"
  shows "monitor_ok (enqueue_verify p s m)"
proof -
  have "registered (enqueue_verify p s m) = (registered m)(ep_ID (w_ep (m_world m) p) \<mapsto> sub_Status s)"
    by (auto simp: fun_eq_iff cell_lists enqueue_verify_def Let_def)
  moreover have "registered m (ep_ID (w_ep (m_world m) p)) = Some (sub_Status s)"
    using assms(2) by (simp add: cell_lists)
  ultimately show ?thesis
    using assms cells_wait
    by (simp add: monitor_ok_def) (simp add: enqueue_verify_def Let_def cell_lists)
qed

lemma ok_scan_endpoint:
  assumes "monitor_ok m" "length (m_pending (scan_endpoint p m)) \<le> channel_capacity"
    "length (m_verify (scan_endpoint p m)) \<le> channel_capacity"
  shows "monitor_ok (scan_endpoint p m)"
  using assms unfolding scan_endpoint_def Let_def
  by (auto split: option.splits if_splits intro: ok_enqueue_new ok_enqueue_verify)

lemma running_not_queued:
  "monitor_ok m \<Longrightarrow> j \<in> set (m_subscribing m) \<Longrightarrow> sub_Status (job_sub j) \<notin> set (queued m)"
  by (auto simp: monitor_ok_def cells_ok_def cell_lists)

lemma verified_not_queued:
  "monitor_ok m \<Longrightarrow> (s, gs) \<in> set (m_verifying m) \<Longrightarrow> sub_Status s \<notin> set (queued m)"
  unfolding monitor_ok_def cells_ok_def by (fastforce simp: verified_def)

text \<open>A goroutine's turn: the world is touched in its own cell and its job is replaced.\<close>

lemma ok_job:
  assumes "monitor_ok m" "m_subscribing m = js @ j # ks" "touches (sub_Status (job_sub j)) (m_world m) w'"
    "job_sub j' = job_sub j"
  shows "monitor_ok (m\<lparr>m_world := w', m_subscribing := js @ j' # ks\<rparr>)"
proof -
  have "monitor_ok (m\<lparr>m_world := w'\<rparr>)"
    using running_not_queued[OF assms(1), of j] assms(2) by (intro ok_touches[OF assms(1,3)]) simp
  from ok_jobs[OF this, of "js @ j' # ks"] assms(2,4) show ?thesis
    by (simp add: running_def)
qed

lemma ok_finish:
  assumes "monitor_ok m" "m_subscribing m = js @ Subscribing s [] # ks"
    "writeStatus (sub_Status s) RFSUBSTATUS_COMPLETE (m_world m) = (Ret (), w')"
  shows "monitor_ok (m\<lparr>m_world := w', m_subscribing := js @ ks\<rparr>)"
proof -
  have t: "touches (sub_Status s) (m_world m) w'" "w_status w' (sub_Status s) = RFSUBSTATUS_COMPLETE"
    using assms(3) by (auto simp: touches_def)
  from running_not_queued[OF assms(1), of "Subscribing s []"] assms(2) have "monitor_ok (m\<lparr>m_world := w'\<rparr>)"
    by (intro ok_touches[OF assms(1) t(1)]) simp
  with t(2) assms(2) show ?thesis
    using cells_finish[of "w_status w'" _ _ "map (\<lambda>j. sub_Status (job_sub j)) js" "sub_Status s"]
    by (simp add: monitor_ok_def cell_lists)
qed

lemma ok_verifying:
  assumes "monitor_ok m" "set (map (\<lambda>(s, gs). sub_Status s) vs) \<subseteq> set (verified m)" "set q \<subseteq> set (m_verify m)"
    "length q \<le> length (m_verify m)"
  shows "monitor_ok (m\<lparr>m_verify := q, m_verifying := vs\<rparr>)"
  using assms cells_mono[of "w_status (m_world m)" "w_nextSub (m_world m)" "queued m" "running m" "set (verified m)"
      "sub_Status ` set (m_verify m)" "registered m" "set (map (\<lambda>(s, gs). sub_Status s) vs)" "sub_Status ` set q"]
  by (auto simp: monitor_ok_def cell_lists)

lemma ok_receive_verify:
  assumes "monitor_ok m" "m_verify m = s # q" "w_status (m_world m) (sub_Status s) = RFSUBSTATUS_COMPLETE"
  shows "monitor_ok (m\<lparr>m_verify := q, m_verifying := m_verifying m @ [(s, gs)]\<rparr>)"
proof -
  have "cells_ok (w_status (m_world m)) (w_nextSub (m_world m)) (queued m) (running m)
      (insert (sub_Status s) (set (verified m))) (sub_Status ` set (m_verify m)) (registered m)"
    using assms by (intro cells_verify) (auto simp: monitor_ok_def)
  from cells_mono[OF this subset_refl, of "sub_Status ` set q"] assms show ?thesis
    by (auto simp: monitor_ok_def cell_lists)
qed

lemma sub_move_ok: "sub_move E m m' \<Longrightarrow> monitor_ok m \<Longrightarrow> monitor_ok m'"
proof (induction rule: sub_move.induct)
  case (begin_scan m ps)
  then show ?case by (simp add: monitor_ok_def cell_lists)
next
  case (scan_next m p ps m')
  then have "monitor_ok m'" using ok_scan_endpoint by blast
  then show ?case by (simp add: monitor_ok_def cell_lists)
next
  case (receive_pending m s q)
  then show ?case
    using cells_receive[of "w_status (m_world m)" _ "sub_Status s" "map sub_Status q"]
    by (simp add: monitor_ok_def cell_lists)
next
  case (run_prune m js s ks w')
  then show ?case by (intro ok_job[where j = "Pruning s"]) (auto intro: prune_touches)
next
  case (run_group m js s g gs ks w')
  then show ?case by (intro ok_job[where j = "Subscribing s (g # gs)"]) (auto intro: subscribe_group_touches)
next
  case (run_finish m js s ks w')
  then show ?case by (intro ok_finish)
next
  case (receive_verify_skip m s q)
  then show ?case using ok_verifying[of m "m_verifying m" q] by (auto simp: verified_def)
next
  case (receive_verify m s q)
  then show ?case by (intro ok_receive_verify)
next
  case (run_verify m js s g gs ks w')
  then have "monitor_ok (m\<lparr>m_world := w'\<rparr>)"
    using verified_not_queued[of m s "g # gs"]
    by (intro ok_touches[where n = "sub_Status s"] verify_group_touches) auto
  from ok_verifying[OF this, of "js @ (s, gs) # ks" "m_verify m"] run_verify(1) show ?case
    by (simp add: verified_def)
next
  case (end_verify m js s ks)
  then have "set (map (\<lambda>(s, gs). sub_Status s) (js @ ks)) \<subseteq> set (verified m)" by (auto simp: verified_def)
  from ok_verifying[OF end_verify(2) this subset_refl] show ?case by simp
qed

lemma sub_step_ok: "sub_step E m m' \<Longrightarrow> monitor_ok m \<Longrightarrow> monitor_ok m'"
  by (induction rule: sub_step.induct) (rule sub_move_ok, assumption+, simp add: monitor_ok_def cell_lists)

lemma monitor0_ok: "monitor_ok (monitor0 w)"
  by (auto simp: monitor_ok_def cells_ok_def cell_lists monitor0_def)

lemma reachable_ok: "reaches E (monitor0 w) m \<Longrightarrow> monitor_ok m"
  by (induction rule: rtranclp_induct) (auto intro: monitor0_ok sub_step_ok)

section \<open>What the monitor leaves alone\<close>

text \<open>A part of the state that involves neither the subscriptions nor what a request touches is kept by every move.\<close>

locale monitor_guarantee = sub_frame g for g :: "'e world \<Rightarrow> 'b" +
  assumes g_status: "g (w\<lparr>w_status := st\<rparr>) = g w"
    and g_groups: "g (w\<lparr>w_prefixGroups := gs\<rparr>) = g w"
    and g_nextSub: "g (w\<lparr>w_nextSub := n\<rparr>) = g w"
begin

lemma scan_endpoint_keeps: "g (m_world (scan_endpoint p m)) = g (m_world m)"
proof -
  have "g (w\<lparr>w_status := st, w_prefixGroups := gs, w_nextSub := n\<rparr>) = g w" for w st gs n
    by (simp only: g_status g_groups g_nextSub)
  then show ?thesis
    by (simp add: scan_endpoint_def enqueue_new_def enqueue_verify_def Let_def split: option.split)
qed

lemma move_keeps: "sub_move E m m' \<Longrightarrow> g (m_world m') = g (m_world m)"
  by (induction rule: sub_move.induct)
     (auto simp: scan_endpoint_keeps writeStatus_def g_status dest: keepsD[OF keeps_prune]
       keepsD[OF keeps_subscribe_group[OF g_status g_groups]] keepsD[OF keeps_verify_group[OF g_status]])

end

interpretation monitor_leaves: monitor_guarantee
  "\<lambda>w. ((w_endpoints w, w_nonPolledEndpoints w, w_HSMEndpoints w, w_nextEp w, \<lambda>q. identity (w_ep w q)),
        w_jsonPayloads w, w_kafkaBrokers w)"
  by unfold_locales (auto simp: identity_def)

section \<open>A scan finds every endpoint\<close>

definition tracked :: "'e monitor \<Rightarrow> string \<Rightarrow> bool" where
  "tracked m i \<longleftrightarrow> (case m_endpoints m i of None \<Rightarrow> False | Some s \<Rightarrow> status_of m (sub_Status s) \<noteq> RFSUBSTATUS_ERROR)"

lemma enqueue_new_tracked:
  assumes "\<And>i s. m_endpoints m i = Some s \<Longrightarrow> sub_Status s < w_nextSub (m_world m)"
  shows "tracked (enqueue_new p m) (ep_ID (w_ep (m_world m) p))"
    and "tracked m i \<Longrightarrow> tracked (enqueue_new p m) i"
  using assms by (auto simp: tracked_def enqueue_new_def new_sub_def Let_def split: option.splits)

lemma enqueue_verify_tracked:
  assumes "m_endpoints m (ep_ID (w_ep (m_world m) p)) = Some s"
  shows "tracked (enqueue_verify p s m) i \<longleftrightarrow> tracked m i"
  using assms by (auto simp: tracked_def enqueue_verify_def Let_def split: option.splits)

definition cells_known :: "'e monitor \<Rightarrow> bool" where
  "cells_known m \<longleftrightarrow> (\<forall>i s. m_endpoints m i = Some s \<longrightarrow> sub_Status s < w_nextSub (m_world m))"

lemma ok_cells_known: "monitor_ok m \<Longrightarrow> cells_known m"
  by (force simp: monitor_ok_def cells_ok_def cells_known_def registered_def ran_def)

lemma scan_endpoint_tracked:
  assumes "cells_known m"
  shows "\<not> skip_endpoint (w_ep (m_world m) p) \<Longrightarrow> tracked (scan_endpoint p m) (ep_ID (w_ep (m_world m) p))"
    and "tracked m i \<Longrightarrow> tracked (scan_endpoint p m) i"
    and "cells_known (scan_endpoint p m)" and "w_ep (m_world (scan_endpoint p m)) = w_ep (m_world m)"
proof -
  note k = assms[unfolded cells_known_def, rule_format]
  show "tracked (scan_endpoint p m) (ep_ID (w_ep (m_world m) p))" if "\<not> skip_endpoint (w_ep (m_world m) p)"
    using that enqueue_new_tracked(1)[OF k]
    by (auto simp: scan_endpoint_def Let_def enqueue_verify_tracked split: option.splits)
       (auto simp: tracked_def)
  show "tracked m i \<Longrightarrow> tracked (scan_endpoint p m) i"
    using enqueue_new_tracked(2)[OF k]
    by (auto simp: scan_endpoint_def Let_def enqueue_verify_tracked split: option.splits)
  show "cells_known (scan_endpoint p m)"
    using assms by (auto simp: cells_known_def scan_endpoint_def enqueue_new_def enqueue_verify_def new_sub_def Let_def
        less_Suc_eq split: option.splits if_splits)
  show "w_ep (m_world (scan_endpoint p m)) = w_ep (m_world m)"
    by (auto simp: scan_endpoint_def enqueue_new_def enqueue_verify_def Let_def split: option.splits)
qed

text \<open>
  A step within a scan leaves the scan alone or visits its next endpoint, which then is skipped or has a record that
  is not in error; and no step unregisters an endpoint.
\<close>

definition visits :: "'e env \<Rightarrow> nat \<Rightarrow> 'e monitor \<Rightarrow> 'e monitor \<Rightarrow> bool" where
  "visits E p m m' \<longleftrightarrow> sub_step E m m' \<and> m_scan m = p # m_scan m'
     \<and> (skip_endpoint (w_ep (m_world m') p) \<or> tracked m' (ep_ID (w_ep (m_world m') p)))"

lemma scan_endpoint_rest: "m_scan (scan_endpoint p m) = m_scan m" "m_subCheckCnt (scan_endpoint p m) = m_subCheckCnt m"
  by (simp_all add: scan_endpoint_def enqueue_new_def enqueue_verify_def Let_def split: option.split)

lemma scan_step:
  assumes "sub_step E m m'" "cells_known m" "m_subCheckCnt m' = m_subCheckCnt m"
  shows "m_scan m' = m_scan m \<or> (\<exists>p. visits E p m m')"
  using assms(1)
proof (cases rule: sub_step.cases)
  case own
  then show ?thesis
  proof (cases rule: sub_move.cases)
    case (scan_next p ps m1)
    have "tracked m' i \<longleftrightarrow> tracked m1 i" for i using scan_next(1) by (simp add: tracked_def split: option.split)
    moreover have "skip_endpoint (w_ep (m_world m) p) \<or> tracked m1 (ep_ID (w_ep (m_world m) p))"
      using scan_endpoint_tracked(1)[OF assms(2)] scan_next(3) by blast
    ultimately have "visits E p m m'"
      using assms(1) scan_next(1,2,3) scan_endpoint_tracked(4)[OF assms(2)] by (simp add: visits_def)
    then show ?thesis by blast
  qed (use assms(3) in simp_all)
qed simp

lemma scan_endpoint_dom:
  "dom (m_endpoints m) \<subseteq> dom (m_endpoints (scan_endpoint p m))"
  "dom (m_endpoints (scan_endpoint p m)) \<subseteq> insert (ep_ID (w_ep (m_world m) p)) (dom (m_endpoints m))"
  by (auto simp: scan_endpoint_def enqueue_new_def enqueue_verify_def Let_def split: option.split)

lemma sub_move_dom: "sub_move E m m' \<Longrightarrow> dom (m_endpoints m) \<subseteq> dom (m_endpoints m')"
  by (induction rule: sub_move.induct) (simp_all add: scan_endpoint_dom(1))

lemma sub_move_count: "sub_move E m m' \<Longrightarrow> m_subCheckCnt m \<le> m_subCheckCnt m'"
  by (induction rule: sub_move.induct) (simp_all add: scan_endpoint_rest)

lemma sub_step_mono: "sub_step E m m' \<Longrightarrow> dom (m_endpoints m) \<subseteq> dom (m_endpoints m') \<and> m_subCheckCnt m \<le> m_subCheckCnt m'"
  by (induction rule: sub_step.induct) (simp_all add: sub_move_dom sub_move_count)

lemma reaches_mono: "reaches E m m' \<Longrightarrow> dom (m_endpoints m) \<subseteq> dom (m_endpoints m') \<and> m_subCheckCnt m \<le> m_subCheckCnt m'"
  by (induction rule: rtranclp_induct) (auto dest!: sub_step_mono)

lemma reaches_ok: "reaches E m m' \<Longrightarrow> monitor_ok m \<Longrightarrow> monitor_ok m'"
  by (induction rule: rtranclp_induct) (auto intro: sub_step_ok)

lemma scan_run:
  assumes "reaches E a m" "monitor_ok a" "m_subCheckCnt m = m_subCheckCnt a"
  shows "\<exists>ps. m_scan a = ps @ m_scan m \<and> (\<forall>p \<in> set ps. \<exists>u v. reaches E a u \<and> visits E p u v \<and> reaches E v m)"
  using assms(1,3)
proof (induction rule: rtranclp_induct)
  case base
  show ?case by (intro exI[of _ "[]"]) simp
next
  case (step m m')
  from reaches_mono[OF step(1)] sub_step_mono[OF step(2)] step(4) have c: "m_subCheckCnt m = m_subCheckCnt a"
    "m_subCheckCnt m' = m_subCheckCnt m" by simp_all
  from step(3)[OF c(1)] obtain ps where ps: "m_scan a = ps @ m_scan m"
    "\<forall>p \<in> set ps. \<exists>u v. reaches E a u \<and> visits E p u v \<and> reaches E v m" by blast
  have later: "\<forall>p \<in> set ps. \<exists>u v. reaches E a u \<and> visits E p u v \<and> reaches E v m'"
    using ps(2) step(2) by (meson rtranclp.rtrancl_into_rtrancl)
  from scan_step[OF step(2) ok_cells_known[OF reaches_ok[OF step(1) assms(2)]] c(2)] show ?case
  proof
    assume "m_scan m' = m_scan m"
    with ps(1) later show ?case by (intro exI[of _ ps]) simp
  next
    assume "\<exists>p. visits E p m m'"
    then obtain p where p: "visits E p m m'" by blast
    then have "m_scan a = (ps @ [p]) @ m_scan m'" using ps(1) by (simp add: visits_def)
    moreover have "\<exists>u v. reaches E a u \<and> visits E p u v \<and> reaches E v m'" using step(1) p by blast
    ultimately show ?case using later by (intro exI[of _ "ps @ [p]"]) simp
  qed
qed

text \<open>A scan can always be brought to its end: the channels can be emptied before each endpoint.\<close>

lemma channels_drain:
  "\<exists>m'. reaches E m m' \<and> m_pending m' = [] \<and> m_verify m' = [] \<and> m_scan m' = m_scan m \<and> m_subCheckCnt m' = m_subCheckCnt m"
proof (induction "length (m_pending m) + length (m_verify m)" arbitrary: m rule: less_induct)
  case less
  have *: ?case if "sub_move E m m1" "length (m_pending m1) + length (m_verify m1) < length (m_pending m) + length (m_verify m)"
    "m_scan m1 = m_scan m" "m_subCheckCnt m1 = m_subCheckCnt m" for m1
    using less[OF that(2)] that(3,4) sub_step.own[OF that(1)] by (metis converse_rtranclp_into_rtranclp)
  show ?case
  proof (cases "m_pending m")
    case (Cons s q)
    from *[OF sub_move.receive_pending[OF this]] Cons show ?thesis by simp
  next
    case pending: Nil
    show ?thesis
    proof (cases "m_verify m")
      case Nil
      with pending show ?thesis by blast
    next
      case (Cons s q)
      from *[OF sub_move.receive_verify_skip[OF this]] *[OF sub_move.receive_verify[OF this]] Cons show ?thesis
        by (cases "status_of m (sub_Status s) = RFSUBSTATUS_COMPLETE") simp_all
    qed
  qed
qed

lemma scan_ends: "\<exists>m'. reaches E m m' \<and> m_scan m' = [] \<and> m_subCheckCnt m' = m_subCheckCnt m"
proof (induction "m_scan m" arbitrary: m)
  case Nil
  then show ?case by (intro exI[of _ m]) simp
next
  case (Cons p ps)
  obtain m1 where m1: "reaches E m m1" "m_pending m1 = []" "m_verify m1 = []" "m_scan m1 = m_scan m" "m_subCheckCnt m1 = m_subCheckCnt m"
    using channels_drain by blast
  let ?m2 = "(scan_endpoint p m1)\<lparr>m_scan := ps\<rparr>"
  have "length (m_pending (scan_endpoint p m1)) \<le> 1" "length (m_verify (scan_endpoint p m1)) \<le> 1"
    using m1(2,3) by (simp_all add: scan_endpoint_def enqueue_new_def enqueue_verify_def Let_def split: option.split)
  then have "sub_step E m1 ?m2"
    using m1(4) Cons(2) by (intro sub_step.own sub_move.scan_next[of m1 p ps]) (simp_all add: channel_capacity_def)
  moreover obtain m' where "reaches E ?m2 m'" "m_scan m' = []" "m_subCheckCnt m' = m_subCheckCnt ?m2"
    using Cons(1)[of ?m2] by auto
  ultimately show ?case using m1(1,5) by (intro exI[of _ m']) (auto simp: scan_endpoint_rest)
qed

text \<open>No move gives an existing status cell the value pending.\<close>

lemma move_never_pending:
  assumes "sub_move E m m'" "n < w_nextSub (m_world m)" "status_of m' n = RFSUBSTATUS_PENDING"
  shows "status_of m n = RFSUBSTATUS_PENDING"
proof -
  have t: "touches k (m_world m) w' \<Longrightarrow> w_status w' n = RFSUBSTATUS_PENDING \<Longrightarrow> status_of m n = RFSUBSTATUS_PENDING" for k w'
    by (metis touches_def)
  from assms(1) show ?thesis
  proof (cases rule: sub_move.cases)
    case (scan_next p ps m'')
    with assms(2,3) show ?thesis
      by (auto simp: scan_endpoint_def enqueue_new_def enqueue_verify_def Let_def split: option.splits if_splits)
  next
    case (run_prune js s ks w')
    with assms(3) t[OF prune_touches] show ?thesis by auto
  next
    case (run_group js s g gs ks w')
    with assms(3) t[OF subscribe_group_touches] show ?thesis by auto
  next
    case (run_verify js s g gs ks w')
    with assms(3) t[OF verify_group_touches] show ?thesis by auto
  qed (use assms in \<open>auto split: if_splits\<close>)
qed

section \<open>Endpoints that are given up\<close>

text \<open>All records the monitor holds, in its map, its channels and its goroutines.\<close>

definition records :: "'e monitor \<Rightarrow> RFSub set" where
  "records m = ran (m_endpoints m) \<union> set (m_pending m) \<union> set (m_verify m) \<union> job_sub ` set (m_subscribing m)
     \<union> fst ` set (m_verifying m)"

text \<open>When no request gets through, no record ever has a group, and none in work is complete.\<close>

definition all_failing :: "'e monitor \<Rightarrow> bool" where
  "all_failing m \<longleftrightarrow> (\<forall>s \<in> records m. sub_PrefixGroups s = sub_Status s \<and> w_prefixGroups (m_world m) (sub_Status s) = [])
     \<and> (\<forall>(s, gs) \<in> set (m_verifying m). gs = []) \<and> (\<forall>n \<in> set (running m). status_of m n \<noteq> RFSUBSTATUS_COMPLETE)"

text \<open>The record of an xname has the cell \<open>n\<close>, is complete without a group, and nobody works on it.\<close>

definition given_up :: "nat \<Rightarrow> string \<Rightarrow> 'e monitor \<Rightarrow> bool" where
  "given_up n i m \<longleftrightarrow> registered m i = Some n \<and> status_of m n = RFSUBSTATUS_COMPLETE \<and> w_prefixGroups (m_world m) n = []
     \<and> n \<notin> set (queued m) \<union> set (running m) \<and> (\<forall>(s, gs) \<in> set (m_verifying m). sub_Status s = n \<longrightarrow> gs = [])"

lemma http_unparsable_panics: "unreachable E \<Longrightarrow> Parse u = None \<Longrightarrow> doHTTPAction E p m u b w = (Panic NilDereference, w)"
  by (auto simp: unreachable_def doHTTPAction_def gr0_conv_Suc http_unparsable)

lemma subscribe_group_fails:
  assumes "unreachable E" "subscribe_group E s g w = (Ret (), w')"
  shows "w_prefixGroups w' = w_prefixGroups w \<and> w_status w' = (w_status w)(sub_Status s := RFSUBSTATUS_ERROR) \<and> w_nextSub w' = w_nextSub w"
proof (cases "Parse (''https://'' @ ep_FQDN (w_ep w (sub_Endpoint s)) @ ''/redfish/v1/EventService/Subscriptions'') = None")
  case True
  from http_unparsable_panics[OF assms(1) this] have "fst (subscribe_group E s g w) = Panic NilDereference"
    by (simp add: subscribe_group_def isDupRFSubscription_def bindIO_def readEp_def)
  with assms(2) show ?thesis by simp
next
  case False
  from subscribe_group_unreachable[OF assms(1) this, of g] assms(2) show ?thesis by auto
qed

lemma subscribe_group_groups:
  assumes "subscribe_group E s g w = (r, w')" "k \<noteq> sub_PrefixGroups s"
  shows "w_prefixGroups w' k = w_prefixGroups w k"
  using assms
  by (auto simp: subscribe_group_def appendGroup_def thenIO_def
      elim!: bindIO_cases split: if_splits sum.splits prod.splits
      dest!: subs_kept[OF sub_frame_subs.keeps_isDup] subs_kept[OF sub_frame_subs.keeps_eventTypes]
        subs_kept[OF sub_frame_subs.keeps_post])

lemma records_scan_endpoint:
  "records (scan_endpoint p m) \<subseteq> records m \<union> {new_sub p (w_nextSub (m_world m))} \<union> (\<lambda>s. s\<lparr>sub_Endpoint := p\<rparr>) ` records m"
  by (auto simp: records_def scan_endpoint_def enqueue_new_def enqueue_verify_def Let_def ran_def split: option.splits if_splits)

lemma scan_endpoint_groups:
  "w_prefixGroups (m_world (scan_endpoint p m)) = w_prefixGroups (m_world m)
   \<or> w_prefixGroups (m_world (scan_endpoint p m)) = (w_prefixGroups (m_world m))(w_nextSub (m_world m) := [])"
  "status_of (scan_endpoint p m) = status_of m \<or> status_of (scan_endpoint p m) = (status_of m)(w_nextSub (m_world m) := RFSUBSTATUS_PENDING)"
  "m_verifying (scan_endpoint p m) = m_verifying m" "m_subscribing (scan_endpoint p m) = m_subscribing m"
  by (auto simp: scan_endpoint_def enqueue_new_def enqueue_verify_def Let_def split: option.split)

lemma scan_endpoint_alternatives:
  "scan_endpoint p m = m
   \<or> scan_endpoint p m = enqueue_new p m \<and> \<not> tracked m (ep_ID (w_ep (m_world m) p))
   \<or> (\<exists>s. m_endpoints m (ep_ID (w_ep (m_world m) p)) = Some s \<and> scan_endpoint p m = enqueue_verify p s m)"
  by (cases "m_endpoints m (ep_ID (w_ep (m_world m) p))") (simp_all add: scan_endpoint_def Let_def tracked_def)

lemma scan_endpoint_cases:
  obtains "scan_endpoint p m = m"
  | "scan_endpoint p m = enqueue_new p m" "\<not> tracked m (ep_ID (w_ep (m_world m) p))"
  | s where "m_endpoints m (ep_ID (w_ep (m_world m) p)) = Some s" "scan_endpoint p m = enqueue_verify p s m"
  using scan_endpoint_alternatives[of p m] by blast

lemma records_enqueue:
  "records (enqueue_new p m) \<subseteq> insert (new_sub p (w_nextSub (m_world m))) (records m)"
  "m_endpoints m (ep_ID (w_ep (m_world m) p)) = Some s \<Longrightarrow>
     s \<in> records m \<and> records (enqueue_verify p s m) \<subseteq> insert (s\<lparr>sub_Endpoint := p\<rparr>) (records m)"
  by (auto simp: records_def enqueue_new_def enqueue_verify_def Let_def ran_def split: if_splits)

text \<open>What the invariant needs: no new records, no new groups, and no cell in work completes.\<close>

lemma failing_less:
  assumes "all_failing m" "records m' \<subseteq> records m" "w_prefixGroups (m_world m') = w_prefixGroups (m_world m)"
    "\<forall>(s, gs) \<in> set (m_verifying m'). gs = []" "\<forall>n \<in> set (running m'). status_of m' n \<noteq> RFSUBSTATUS_COMPLETE"
  shows "all_failing m'"
  using assms unfolding all_failing_def by auto

lemma failing_enqueue_new:
  assumes "monitor_ok m" "all_failing m"
  shows "all_failing (enqueue_new p m)"
proof -
  let ?n = "w_nextSub (m_world m)"
  have "sub_PrefixGroups s = sub_Status s \<and> w_prefixGroups (m_world (enqueue_new p m)) (sub_Status s) = []"
    if "s \<in> records (enqueue_new p m)" for s
  proof (cases "s = new_sub p ?n")
    case True
    then show ?thesis by (simp add: enqueue_new_def new_sub_def Let_def)
  next
    case False
    with that records_enqueue(1)[of p m] have "s \<in> records m" by auto
    with assms(2) show ?thesis by (simp add: all_failing_def enqueue_new_def Let_def)
  qed
  with assms(2) show ?thesis
    unfolding all_failing_def by (auto simp: enqueue_new_def running_def Let_def)
qed

lemma failing_enqueue_verify:
  assumes "all_failing m" "m_endpoints m (ep_ID (w_ep (m_world m) p)) = Some s"
  shows "all_failing (enqueue_verify p s m)"
proof -
  have "sub_PrefixGroups t = sub_Status t \<and> w_prefixGroups (m_world m) (sub_Status t) = []"
    if "t \<in> records (enqueue_verify p s m)" for t
    using that records_enqueue(2)[OF assms(2)] assms(1) by (auto simp: all_failing_def)
  with assms(1) show ?thesis
    unfolding all_failing_def by (auto simp: enqueue_verify_def running_def Let_def)
qed

lemma failing_scan_endpoint: "monitor_ok m \<Longrightarrow> all_failing m \<Longrightarrow> all_failing (scan_endpoint p m)"
  by (cases rule: scan_endpoint_cases[of p m]) (simp_all add: failing_enqueue_new failing_enqueue_verify)

text \<open>A goroutine's turn that adds no group and completes nothing.\<close>

lemma failing_job:
  assumes "all_failing m" "m_subscribing m = js @ j # ks" "job_sub j' = job_sub j"
    "w_prefixGroups w' = w_prefixGroups (m_world m)"
    "\<And>n. w_status w' n = RFSUBSTATUS_COMPLETE \<Longrightarrow> status_of m n = RFSUBSTATUS_COMPLETE"
  shows "all_failing (m\<lparr>m_world := w', m_subscribing := js @ j' # ks\<rparr>)"
proof -
  have "records (m\<lparr>m_world := w', m_subscribing := js @ j' # ks\<rparr>) = records m"
    "running (m\<lparr>m_world := w', m_subscribing := js @ j' # ks\<rparr>) = running m"
    using assms(2,3) by (simp_all add: records_def running_def)
  then show ?thesis using assms(1,4,5) unfolding all_failing_def by auto
qed

lemma sub_move_failing:
  assumes "sub_move E m m'" "unreachable E" "monitor_ok m" "all_failing m"
  shows "all_failing m'"
  using assms(1)
proof (cases rule: sub_move.cases)
  case (scan_next p ps m1)
  from failing_scan_endpoint[OF assms(3,4), of p] scan_next show ?thesis
    by (simp add: all_failing_def records_def running_def)
next
  case (receive_pending s q)
  have "status_of m (sub_Status s) = RFSUBSTATUS_PENDING"
    using assms(3) receive_pending(2) by (auto simp: monitor_ok_def cells_ok_def queued_def)
  with receive_pending assms(4) show ?thesis
    by (intro failing_less[OF assms(4)]) (auto simp: all_failing_def records_def running_def)
next
  case (run_prune js s ks w')
  have "w_status w' = w_status (m_world m)" "w_prefixGroups w' = w_prefixGroups (m_world m)"
    using subs_kept[OF sub_frame_subs.keeps_prune run_prune(3)] by simp_all
  then show ?thesis unfolding run_prune(1) by (intro failing_job[OF assms(4) run_prune(2)]) simp_all
next
  case (run_group js s g gs ks w')
  from subscribe_group_fails[OF assms(2) run_group(3)] show ?thesis
    unfolding run_group(1) by (intro failing_job[OF assms(4) run_group(2)]) (simp_all split: if_splits)
next
  case (run_finish js s ks w')
  have w': "w_prefixGroups w' = w_prefixGroups (m_world m)"
    "w_status w' = (w_status (m_world m))(sub_Status s := RFSUBSTATUS_COMPLETE)"
    using run_finish(3) by (auto simp: writeStatus_def)
  have "sub_Status s \<notin> set (running m')"
    using assms(3) run_finish(1,2) by (simp add: monitor_ok_def cells_ok_def running_def)
  moreover have "records m' \<subseteq> records m" "set (running m') \<subseteq> set (running m)" "m_verifying m' = m_verifying m"
    using run_finish(1,2) by (auto simp: records_def running_def)
  moreover have "m_world m' = w'" using run_finish(1) by simp
  ultimately show ?thesis
    using assms(4) w' by (intro failing_less[OF assms(4)]) (auto simp: all_failing_def)
next
  case (receive_verify s q)
  have s: "s \<in> records m" using receive_verify by (auto simp: records_def)
  with assms(4) have "w_prefixGroups (m_world m) (sub_PrefixGroups s) = []" by (simp add: all_failing_def)
  with receive_verify s assms(4) show ?thesis
    by (intro failing_less[OF assms(4)]) (auto simp: all_failing_def records_def running_def)
next
  case (run_verify js s g gs ks w')
  with assms(4) show ?thesis by (auto simp: all_failing_def)
qed (use assms(4) in \<open>auto intro!: failing_less[OF assms(4)] simp: all_failing_def records_def running_def\<close>)

lemma sub_step_failing:
  assumes "sub_step E m m'" "unreachable E" "monitor_ok m" "all_failing m"
  shows "all_failing m'"
  using assms(1)
proof (cases rule: sub_step.cases)
  case own
  with sub_move_failing assms show ?thesis by blast
next
  case (others w')
  with assms(4) show ?thesis by (simp add: all_failing_def records_def running_def)
qed

lemma reaches_failing:
  assumes "reaches E (monitor0 w) m" "unreachable E"
  shows "all_failing m"
  using assms(1)
proof (induction rule: rtranclp_induct)
  case base
  show ?case by (simp add: all_failing_def records_def running_def monitor0_def)
next
  case (step m m')
  with sub_step_failing assms(2) reachable_ok show ?case by blast
qed

lemma verify_group_groups:
  assumes "verify_group E s g w = (r, w')"
  shows "w_prefixGroups w' = w_prefixGroups w"
  using assms
  by (auto simp: verify_group_def elim!: bindIO_cases split: if_splits
      dest!: subs_kept[OF sub_frame_subs.keeps_isDup])

text \<open>A record that is complete without a group stays as it is: no scan and no goroutine takes it up again.\<close>

lemma sub_move_given_up:
  assumes "sub_move E m m'" "monitor_ok m" "\<forall>s \<in> records m. sub_PrefixGroups s = sub_Status s" "given_up n i m"
  shows "given_up n i m'"
  using assms(1)
proof (cases rule: sub_move.cases)
  case (scan_next p ps m1)
  have n: "n < w_nextSub (m_world m)"
    using assms(2,4) by (auto simp: given_up_def monitor_ok_def cells_ok_def ran_def)
  have "given_up n i m1"
  proof (cases rule: scan_endpoint_cases[of p m])
    case 2
    with assms(4) have "i \<noteq> ep_ID (w_ep (m_world m) p)"
      by (auto simp: given_up_def tracked_def registered_def split: option.splits)
    with n assms(4) 2(1) scan_next(3) show ?thesis
      by (auto simp: given_up_def registered_def queued_def running_def enqueue_new_def new_sub_def Let_def)
  next
    case (3 s)
    with assms(4) scan_next(3) show ?thesis
      by (auto simp: given_up_def registered_def queued_def running_def enqueue_verify_def Let_def)
  qed (use assms(4) scan_next(3) in simp)
  with scan_next(1) show ?thesis by (simp add: given_up_def registered_def queued_def running_def)
next
  case (run_prune js s ks w')
  have "w_status w' = w_status (m_world m)" "w_prefixGroups w' = w_prefixGroups (m_world m)"
    using subs_kept[OF sub_frame_subs.keeps_prune run_prune(3)] by simp_all
  with run_prune(1,2) assms(4) show ?thesis
    by (auto simp: given_up_def registered_def queued_def running_def)
next
  case (run_group js s g gs ks w')
  have n: "n \<noteq> sub_Status s" using run_group(2) assms(4) by (auto simp: given_up_def running_def)
  moreover have "sub_PrefixGroups s = sub_Status s"
    using assms(3) run_group(2) by (auto simp: records_def)
  ultimately have "w_status w' n = status_of m n" "w_prefixGroups w' n = w_prefixGroups (m_world m) n"
    using subscribe_group_touches[OF run_group(3)] subscribe_group_groups[OF run_group(3)] by (simp_all add: touches_def)
  with run_group(1,2) assms(4) show ?thesis
    by (auto simp: given_up_def registered_def queued_def running_def)
next
  case (run_finish js s ks w')
  then have "n \<noteq> sub_Status s" using assms(4) by (auto simp: given_up_def running_def)
  with run_finish assms(4) show ?thesis
    by (auto simp: given_up_def registered_def queued_def running_def writeStatus_def)
next
  case (receive_verify s q)
  then have "sub_PrefixGroups s = sub_Status s" using assms(3) by (auto simp: records_def)
  with receive_verify assms(4) show ?thesis
    by (auto simp: given_up_def registered_def queued_def running_def)
next
  case (run_verify js s g gs ks w')
  have n: "n \<noteq> sub_Status s" using run_verify(2) assms(4) by (auto simp: given_up_def)
  then have "w_status w' n = status_of m n" "w_prefixGroups w' n = w_prefixGroups (m_world m) n"
    using verify_group_touches[OF run_verify(3)] verify_group_groups[OF run_verify(3)] by (simp_all add: touches_def)
  with n run_verify(1,2) assms(4) show ?thesis
    by (auto simp: given_up_def registered_def queued_def running_def)
qed (use assms(4) in \<open>auto simp: given_up_def registered_def queued_def running_def\<close>)

lemma sub_step_given_up:
  assumes "sub_step E m m'" "monitor_ok m" "all_failing m" "given_up n i m"
  shows "given_up n i m'"
  using assms(1)
proof (cases rule: sub_step.cases)
  case own
  with sub_move_given_up[OF _ assms(2) _ assms(4)] assms(3) show ?thesis by (auto simp: all_failing_def)
next
  case (others w')
  with assms(4) show ?thesis by (simp add: given_up_def registered_def queued_def running_def)
qed

lemma given_up_forever:
  assumes "reaches E m m'" "unreachable E" "reaches E (monitor0 w) m" "given_up n i m"
  shows "given_up n i m'"
  using assms(1)
proof (induction rule: rtranclp_induct)
  case (step m1 m2)
  from step(1) assms(3) have "reaches E (monitor0 w) m1" by (rule rtranclp_trans[rotated])
  with sub_step_given_up[OF step(2)] reachable_ok reaches_failing assms(2) step(3) show ?case by blast
qed (use assms(4) in simp)

section \<open>A run with an endpoint that cannot be reached\<close>

definition race_world :: "unit world" where
  "race_world = plain_world\<lparr>w_HSMEndpoints := [(''x3000c0s1b0'', 0)]\<rparr>"

lemma race_not_skipped: "\<not> skip_endpoint (w_ep plain_world 0)"
  by code_simp

lemma race_url:
  "Parse (''https://'' @ ''x3000c0s1b0'' @ ''/redfish/v1/EventService/Subscriptions'') \<noteq> None"
  by code_simp

definition race_sub :: "nat \<Rightarrow> RFSub" where
  "race_sub n = \<lparr> sub_Endpoint = 0, sub_Status = n, sub_PrefixGroups = n \<rparr>"

text \<open>The states of the run: two scans, with the first group of the first attempt failing in between.\<close>

definition race1 :: "unit monitor" where
  "race1 = (monitor0 race_world)\<lparr>m_subCheckCnt := 1, m_scan := [0]\<rparr>"
definition race2 :: "unit monitor" where
  "race2 = (enqueue_new 0 race1)\<lparr>m_scan := []\<rparr>"
definition race3 :: "unit monitor" where
  "race3 = race2\<lparr>m_pending := [], m_subscribing := [Pruning (race_sub 0)]\<rparr>"
definition race4 :: "unit monitor" where
  "race4 = race3\<lparr>m_subscribing := [Subscribing (race_sub 0) [None, Some [''CrayTelemetry'']]]\<rparr>"
definition race5 :: "unit monitor" where
  "race5 = race4\<lparr>m_world := (m_world race4)\<lparr>w_status := (w_status (m_world race4))(0 := RFSUBSTATUS_ERROR)\<rparr>,
     m_subscribing := [Subscribing (race_sub 0) [Some [''CrayTelemetry'']]]\<rparr>"
definition race6 :: "unit monitor" where
  "race6 = race5\<lparr>m_subCheckCnt := 2, m_scan := [0]\<rparr>"
definition race7 :: "unit monitor" where
  "race7 = (enqueue_new 0 race6)\<lparr>m_scan := []\<rparr>"
definition race8 :: "unit monitor" where
  "race8 = race7\<lparr>m_pending := [],
     m_subscribing := [Subscribing (race_sub 0) [Some [''CrayTelemetry'']], Pruning (race_sub 1)]\<rparr>"

lemmas race_defs = race1_def race2_def race3_def race4_def race5_def race6_def race7_def race8_def
  monitor0_def race_world_def enqueue_new_def new_sub_def race_sub_def Let_def

lemma race_worlds [simp]:
  "w_ep (m_world race1) = w_ep plain_world" "w_ep (m_world race3) = w_ep plain_world"
  "w_ep (m_world race4) = w_ep plain_world" "w_ep (m_world race6) = w_ep plain_world"
  by (simp_all add: race_defs)

lemma unit_ext [simp]: "w\<lparr>w_ext := e\<rparr> = (w :: unit world)"
  by (cases w) simp

lemma env0_unreachable: "unreachable (env0 :: unit env)"
  by (simp add: unreachable_def env0_def)

lemma race_fqdn: "ep_FQDN (w_ep plain_world 0) = ''x3000c0s1b0''" "ep_ID (w_ep plain_world 0) = ''x3000c0s1b0''"
  by (simp_all add: plain_world_def)

lemma race_prune: "prune (env0 :: unit env) 0 (m_world race3) = (Ret (), m_world race3)"
  using prune_unreachable[OF env0_unreachable, of "m_world race3" 0] race_url by (simp add: race_fqdn)

lemma race_group:
  "subscribe_group (env0 :: unit env) (race_sub 0) None (m_world race4) =
     (Ret (), (m_world race4)\<lparr>w_status := (w_status (m_world race4))(0 := RFSUBSTATUS_ERROR)\<rparr>)"
proof -
  obtain e where "subscribe_group (env0 :: unit env) (race_sub 0) None (m_world race4) =
      (Ret (), (m_world race4)\<lparr>w_ext := e, w_status := (w_status (m_world race4))(sub_Status (race_sub 0) := RFSUBSTATUS_ERROR)\<rparr>)"
    using subscribe_group_unreachable[OF env0_unreachable, of "m_world race4" "race_sub 0" None] race_url
    by (auto simp: race_fqdn race_sub_def)
  then show ?thesis by (simp add: race_sub_def)
qed

lemma race_step1: "sub_step env0 (monitor0 race_world) race1"
  using sub_step.own[OF sub_move.begin_scan[of "monitor0 race_world" "[0]" env0]]
  by (simp add: race1_def monitor0_def race_world_def)

lemma race_scan:
  assumes "m_scan m = [0]" "w_ep (m_world m) = w_ep plain_world" "m_pending m = []" "m_verify m = []"
    and "m_endpoints m ''x3000c0s1b0'' = None \<or>
         (\<exists>s. m_endpoints m ''x3000c0s1b0'' = Some s \<and> w_status (m_world m) (sub_Status s) = RFSUBSTATUS_ERROR)"
  shows "sub_step env0 m ((enqueue_new 0 m)\<lparr>m_scan := []\<rparr>)"
proof -
  have "scan_endpoint 0 m = enqueue_new 0 m"
    using assms race_not_skipped by (auto simp: scan_endpoint_def Let_def race_fqdn)
  moreover have "length (m_pending (enqueue_new 0 m)) \<le> channel_capacity"
    "length (m_verify (enqueue_new 0 m)) \<le> channel_capacity"
    using assms by (simp_all add: enqueue_new_def Let_def channel_capacity_def)
  ultimately show ?thesis
    using sub_step.own[OF sub_move.scan_next[of m 0 "[]" "enqueue_new 0 m" env0]] assms(1) by simp
qed

lemma race_step2: "sub_step env0 race1 race2"
  unfolding race2_def by (rule race_scan) (simp_all add: race1_def monitor0_def race_world_def)

lemma race_step3: "sub_step env0 race2 race3"
  using sub_step.own[OF sub_move.receive_pending[of race2 "race_sub 0" "[]" env0]]
  by (simp add: race3_def) (simp add: race_defs plain_world_def world0_def)

lemma race_step4: "sub_step env0 race3 race4"
  using sub_step.own[OF sub_move.run_prune[of race3 "[]" "race_sub 0" "[]" env0 "m_world race3"]] race_prune
  by (simp add: race4_def race3_def registryPrefixGroups_def env0_def race_sub_def)

lemma race_step5: "sub_step env0 race4 race5"
  using sub_step.own[OF sub_move.run_group[OF _ race_group, of "[]" "[Some [''CrayTelemetry'']]" "[]"]]
  by (simp add: race5_def) (simp add: race4_def)

lemma race_step6: "sub_step env0 race5 race6"
  using sub_step.own[OF sub_move.begin_scan[of race5 "[0]" env0]]
  by (simp add: race6_def) (simp add: race_defs numeral_2_eq_2)

lemma race_step7: "sub_step env0 race6 race7"
  unfolding race7_def by (rule race_scan) (simp_all add: race_defs plain_world_def world0_def)

lemma race_step8: "sub_step env0 race7 race8"
  using sub_step.own[OF sub_move.receive_pending[of race7 "race_sub 1" "[]" env0]]
  by (simp add: race8_def) (simp add: race_defs plain_world_def world0_def)

lemma race_reached: "reaches env0 (monitor0 race_world) race8"
  by (meson converse_rtranclp_into_rtranclp rtranclp.rtrancl_refl race_step1 race_step2 race_step3
      race_step4 race_step5 race_step6 race_step7 race_step8)

section \<open>Properties\<close>

text \<open>
  C3: in every reachable state of the subscription monitor, under every interleaving of its
  goroutines and whatever the endpoints answer and the rest of the collector does to the state they
  share: no status cell belongs to two pieces of subscription work, queued or under way; every
  registered endpoint whose status is pending is queued or being set up, so that none is forgotten;
  different xnames never share a status; and neither channel holds more than its capacity.
\<close>

theorem monitor_safe:
  assumes "reaches E (monitor0 w) m"
  shows "distinct (queued m @ running m)
    \<and> (\<forall>i s. m_endpoints m i = Some s \<longrightarrow> status_of m (sub_Status s) = RFSUBSTATUS_PENDING \<longrightarrow>
         sub_Status s \<in> set (queued m) \<union> set (running m))
    \<and> (\<forall>i j s t. m_endpoints m i = Some s \<longrightarrow> m_endpoints m j = Some t \<longrightarrow> sub_Status s = sub_Status t \<longrightarrow> i = j)
    \<and> length (m_pending m) \<le> channel_capacity \<and> length (m_verify m) \<le> channel_capacity"
proof -
  from reachable_ok[OF assms] have ok: "cells_ok (w_status (m_world m)) (w_nextSub (m_world m)) (queued m)
      (running m) (set (verified m)) (sub_Status ` set (m_verify m)) (registered m)"
    and len: "length (m_pending m) \<le> channel_capacity" "length (m_verify m) \<le> channel_capacity"
    by (simp_all add: monitor_ok_def)
  have "i = j" if "m_endpoints m i = Some s" "m_endpoints m j = Some t" "sub_Status s = sub_Status t" for i j s t
    using ok that by (auto simp: cells_ok_def inj_on_def registered_def dom_def)
  moreover have "sub_Status s \<in> set (queued m) \<union> set (running m)"
    if "m_endpoints m i = Some s" "status_of m (sub_Status s) = RFSUBSTATUS_PENDING" for i s
  proof -
    have "sub_Status s \<in> ran (registered m)" using that(1) by (intro ranI[of _ i]) (simp add: registered_def)
    with ok that(2) show ?thesis by (simp add: cells_ok_def)
  qed
  moreover have "distinct (queued m @ running m)" using ok by (simp add: cells_ok_def)
  ultimately show ?thesis using len by blast
qed

theorem monitor_safe_witness:
  "distinct (queued race8 @ running race8) \<and> running race8 = [0, 1]"
  using monitor_safe[OF race_reached] by (auto simp: running_def race8_def race_sub_def)

text \<open>
  No step of the monitor brings a status back to pending. The status of an existing
  subscription only moves between error and complete after it has left pending; a retry is always a
  new record.
\<close>

theorem pending_only_at_creation:
  assumes "sub_step E m m'" "n < w_nextSub (m_world m)" "status_of m' n = RFSUBSTATUS_PENDING"
  shows "status_of m n = RFSUBSTATUS_PENDING"
  using assms by (cases rule: sub_step.cases) (auto intro: move_never_pending)

theorem pending_only_at_creation_witness: "status_of race3 0 = RFSUBSTATUS_PENDING"
  by (rule pending_only_at_creation[OF race_step4])
     (simp_all add: race_defs plain_world_def world0_def)

text \<open>
  C29: a scan of \<^verbatim>\<open>doRFSubscribe\<close> ends and misses no endpoint, whatever the goroutines of the monitor and the
  rest of the program do meanwhile. Let a scan begin in any reachable state of the monitor. First, it can always be
  brought to its end: the channels never block it for good. Second, however it has ended, there was for every endpoint that the State Manager
  had at its beginning a step that visited it, after which the endpoint is a PDU without subscriptions or has a record whose status is not
  an error at that moment (a new endpoint or one in error has been queued); and its record is still
  registered at the end.
\<close>

theorem scan_complete:
  assumes "reaches E (monitor0 w) m" "sub_step E m m1" "m_subCheckCnt m1 \<noteq> m_subCheckCnt m"
  shows "(\<exists>m2. reaches E m1 m2 \<and> m_subCheckCnt m2 = m_subCheckCnt m1 \<and> m_scan m2 = [])
    \<and> (\<forall>m2 p. reaches E m1 m2 \<and> m_subCheckCnt m2 = m_subCheckCnt m1 \<and> m_scan m2 = []
           \<and> p \<in> snd ` set (w_HSMEndpoints (m_world m)) \<longrightarrow>
         (\<exists>u v. reaches E m1 u \<and> sub_step E u v \<and> m_scan u = p # m_scan v \<and> reaches E v m2
            \<and> (skip_endpoint (w_ep (m_world v) p)
               \<or> (\<exists>s. m_endpoints v (ep_ID (w_ep (m_world v) p)) = Some s
                    \<and> status_of v (sub_Status s) \<noteq> RFSUBSTATUS_ERROR
                    \<and> m_endpoints m2 (ep_ID (w_ep (m_world v) p)) \<noteq> None))))"
proof -
  have begun: "set (m_scan m1) = snd ` set (w_HSMEndpoints (m_world m))"
    using assms(2)
  proof (cases rule: sub_step.cases)
    case own
    then show ?thesis
    proof (cases rule: sub_move.cases)
      case (begin_scan ps)
      with mset_eq_setD[OF begin_scan(3)] show ?thesis by simp
    qed (use assms(3) in \<open>simp_all add: scan_endpoint_rest\<close>)
  qed (use assms(3) in simp)
  have ok: "monitor_ok m1" using sub_step_ok[OF assms(2) reachable_ok[OF assms(1)]] .
  show ?thesis
  proof (intro conjI allI impI; (elim conjE)?)
    show "\<exists>m2. reaches E m1 m2 \<and> m_subCheckCnt m2 = m_subCheckCnt m1 \<and> m_scan m2 = []"
      using scan_ends by blast
  next
    fix m2 p
    assume m2: "reaches E m1 m2" "m_subCheckCnt m2 = m_subCheckCnt m1" "m_scan m2 = []" "p \<in> snd ` set (w_HSMEndpoints (m_world m))"
    from scan_run[OF m2(1) ok m2(2)] m2(3,4) begun obtain u v where v: "reaches E m1 u" "visits E p u v" "reaches E v m2"
      by auto
    let ?i = "ep_ID (w_ep (m_world v) p)"
    have "skip_endpoint (w_ep (m_world v) p) \<or> (\<exists>s. m_endpoints v ?i = Some s
        \<and> status_of v (sub_Status s) \<noteq> RFSUBSTATUS_ERROR \<and> m_endpoints m2 ?i \<noteq> None)"
    proof (cases "skip_endpoint (w_ep (m_world v) p)")
      case False
      with v(2) have "tracked v ?i" by (simp add: visits_def)
      then obtain s where "m_endpoints v ?i = Some s" "status_of v (sub_Status s) \<noteq> RFSUBSTATUS_ERROR"
        by (auto simp: tracked_def split: option.splits)
      moreover from reaches_mono[OF v(3)] this(1) have "m_endpoints m2 ?i \<noteq> None" by blast
      ultimately show ?thesis by blast
    qed simp
    with v show "\<exists>u v. reaches E m1 u \<and> sub_step E u v \<and> m_scan u = p # m_scan v \<and> reaches E v m2
            \<and> (skip_endpoint (w_ep (m_world v) p)
               \<or> (\<exists>s. m_endpoints v (ep_ID (w_ep (m_world v) p)) = Some s
                    \<and> status_of v (sub_Status s) \<noteq> RFSUBSTATUS_ERROR
                    \<and> m_endpoints m2 (ep_ID (w_ep (m_world v) p)) \<noteq> None))"
      unfolding visits_def by blast
  qed
qed

theorem scan_complete_witness:
  "m_scan race1 = [0] \<and> m_scan race2 = [] \<and> (\<exists>u v. reaches env0 race1 u \<and> sub_step env0 u v \<and> m_scan u = 0 # m_scan v \<and> reaches env0 v race2
     \<and> (skip_endpoint (w_ep (m_world v) 0) \<or> (\<exists>s. m_endpoints v (ep_ID (w_ep (m_world v) 0)) = Some s
          \<and> status_of v (sub_Status s) \<noteq> RFSUBSTATUS_ERROR)))"
proof -
  have ends: "m_scan race1 = [0]" "m_scan race2 = []" "m_subCheckCnt race2 = m_subCheckCnt race1"
    by (simp_all add: race_defs)
  have "m_subCheckCnt race1 \<noteq> m_subCheckCnt (monitor0 race_world)" by (simp add: race_defs)
  from scan_complete[OF rtranclp.rtrancl_refl race_step1 this] ends r_into_rtranclp[of "sub_step env0", OF race_step2]
  have "\<exists>u v. reaches env0 race1 u \<and> sub_step env0 u v \<and> m_scan u = 0 # m_scan v \<and> reaches env0 v race2
     \<and> (skip_endpoint (w_ep (m_world v) 0) \<or> (\<exists>s. m_endpoints v (ep_ID (w_ep (m_world v) 0)) = Some s
          \<and> status_of v (sub_Status s) \<noteq> RFSUBSTATUS_ERROR \<and> m_endpoints race2 (ep_ID (w_ep (m_world v) 0)) \<noteq> None))"
    by (simp add: monitor0_def race_world_def)
  with ends show ?thesis by blast
qed


text \<open>The attempt of the run goes on without the second scan: the second group fails too, the attempt
  completes, and the next scan passes the endpoint over.\<close>

definition give6 :: "unit monitor" where
  "give6 = race5\<lparr>m_subscribing := [Subscribing (race_sub 0) []]\<rparr>"
definition give7 :: "unit monitor" where
  "give7 = race5\<lparr>m_world := (m_world race4)\<lparr>w_status := (w_status (m_world race4))(0 := RFSUBSTATUS_COMPLETE)\<rparr>,
     m_subscribing := []\<rparr>"
definition give8 :: "unit monitor" where
  "give8 = give7\<lparr>m_subCheckCnt := 2, m_scan := [0]\<rparr>"
definition give9 :: "unit monitor" where
  "give9 = give8\<lparr>m_scan := []\<rparr>"

lemma give_group:
  "subscribe_group (env0 :: unit env) (race_sub 0) (Some [''CrayTelemetry'']) (m_world race5) = (Ret (), m_world race5)"
proof -
  obtain e where "subscribe_group (env0 :: unit env) (race_sub 0) (Some [''CrayTelemetry'']) (m_world race5) =
      (Ret (), (m_world race5)\<lparr>w_ext := e, w_status := (w_status (m_world race5))(sub_Status (race_sub 0) := RFSUBSTATUS_ERROR)\<rparr>)"
    using subscribe_group_unreachable[OF env0_unreachable, of "m_world race5" "race_sub 0" "Some [''CrayTelemetry'']"] race_url
    by (auto simp: race5_def race_fqdn race_sub_def)
  then show ?thesis by (simp add: race_sub_def race5_def)
qed

lemma give_step6: "sub_step env0 race5 give6"
  using sub_step.own[OF sub_move.run_group[OF _ give_group, of "[]" "[]" "[]"]]
  by (simp add: give6_def) (simp add: race5_def)

lemma give_step7: "sub_step env0 give6 give7"
  using sub_step.own[OF sub_move.run_finish[of give6 "[]" "race_sub 0" "[]"]]
  by (simp add: give6_def writeStatus_def race5_def give7_def race_sub_def)

lemma give_step8: "sub_step env0 give7 give8"
  using sub_step.own[OF sub_move.begin_scan[of give7 "[0]" env0]]
  by (simp add: give8_def) (simp add: give7_def race_defs numeral_2_eq_2)

lemma give_step9: "sub_step env0 give8 give9"
proof -
  have "scan_endpoint 0 give8 = give8"
    by (simp add: scan_endpoint_def give8_def give7_def race_defs plain_world_def subCheckFreq_def Let_def)
  then show ?thesis
    using sub_step.own[OF sub_move.scan_next[of give8 0 "[]" give8 env0]]
    by (simp add: give9_def) (simp add: give8_def give7_def race_defs plain_world_def world0_def)
qed


text \<open>
  C37: two attempts to subscribe to the same endpoint can run at once. The body of \<^verbatim>\<open>rfSubscribe\<close> sets the
  status to error when a group fails and goes on with the next group; a scan in between takes the
  error for a finished attempt and queues the endpoint again. In the state reached both goroutines
  work on the same endpoint with different records.
\<close>

theorem concurrent_attempts:
  "\<exists>m s t gs. reaches env0 (monitor0 race_world) m \<and> m_subscribing m = [Subscribing s gs, Pruning t]
     \<and> gs \<noteq> [] \<and> sub_Endpoint s = sub_Endpoint t \<and> sub_Status s \<noteq> sub_Status t"
  using race_reached by (intro exI[of _ race8]) (auto simp: race8_def race_sub_def)

end
