(* ===== verification/Kafka.thy ===== *)
theory Kafka
  imports Http
begin

text \<open>
  Publishing to Kafka, \<^verbatim>\<open>cmd/hmcollector/kafka.go\<close>, and the filter for logging messages of chosen
  endpoints with the parsing of its setting (\<^verbatim>\<open>fillMap\<close> in \<^verbatim>\<open>cmd/hmcollector/hmcollector.go\<close>). The
  producer of a broker is a function of the outside world; a broker that is not connected yet has no
  producer, and publishing to it dereferences a nil pointer.
\<close>

section \<open>Publishing\<close>

definition produce :: "'e env \<Rightarrow> kafka_message \<Rightarrow> KafkaBroker \<Rightarrow> ('e world, unit) io" where
  "produce E msg thisBroker =
     (if km_Topic msg \<in> set (kb_TopicsToPublish thisBroker) then
        (if kb_KafkaProducer thisBroker then
           bindIO (extIO (env_Produce E (kb_BrokerAddress thisBroker) msg)) (\<lambda>produceErr. return ())
         else panicIO NilDereference)
      else return ())"

definition writeToKafka :: "'e env \<Rightarrow> string \<Rightarrow> string \<Rightarrow> string option \<Rightarrow> ('e world, unit) io" where
  "writeToKafka E topic payload messageID =
     bindIO (extIO (env_Now E)) (\<lambda>now.
     bindIO (getsIO w_kafkaBrokers)
       (forIO (produce E \<lparr> km_Topic = topic, km_Key = messageID, km_Value = payload, km_Timestamp = now \<rparr>)))"

section \<open>Which messages are logged\<close>

definition fillMap :: "string list \<Rightarrow> string \<Rightarrow> string list" where
  "fillMap m values = (if values \<noteq> [] then foldl (\<lambda>m v. List.insert v m) m (Split values (CHR '','')) else m)"

definition shouldLogMessage :: "bool \<Rightarrow> string list \<Rightarrow> string \<Rightarrow> bool" where
  "shouldLogMessage shouldLogForXnames logXnames i =
     (if shouldLogForXnames then hd (Split i (CHR ''.'')) \<in> set logXnames else False)"

section \<open>Who gets a message\<close>

text \<open>A broker is ready for a topic when it is connected or does not get the topic.\<close>

definition brokers_ready :: "KafkaBroker list \<Rightarrow> bool" where
  "brokers_ready bs = list_all kb_KafkaProducer bs"

context http_frame
begin

lemma keeps_produce: "keeps g (produce E m b)"
  unfolding produce_def by (intro frame_rules keeps_ext)

lemma keeps_writeToKafka: "keeps g (writeToKafka E t v k)"
  unfolding writeToKafka_def by (intro frame_rules keeps_ext keeps_produce)

end

interpretation frame_brokers: http_frame w_kafkaBrokers
  by unfold_locales auto

text \<open>The interface of an outside world that remembers the messages produced.\<close>

locale message_log =
  fixes E :: "'e env" and log :: "'e \<Rightarrow> (string \<times> kafka_message) list"
  assumes log_Produce: "log (snd (env_Produce E a m e)) = log e @ [(a, m)]"
    and log_Now: "log (snd (env_Now E e)) = log e"
begin

lemma produce_log:
  "kb_KafkaProducer b \<Longrightarrow> fst (produce E m b w) = Ret () \<and>
     log (w_ext (snd (produce E m b w))) = log (w_ext w) @
       (if km_Topic m \<in> set (kb_TopicsToPublish b) then [(kb_BrokerAddress b, m)] else [])"
  by (simp add: produce_def log_Produce)

lemma produce_all_log:
  "brokers_ready bs \<Longrightarrow> fst (forIO (produce E m) bs w) = Ret () \<and>
     log (w_ext (snd (forIO (produce E m) bs w))) = log (w_ext w) @
       map (\<lambda>b. (kb_BrokerAddress b, m)) (filter (\<lambda>b. km_Topic m \<in> set (kb_TopicsToPublish b)) bs)"
proof (induction bs arbitrary: w)
  case (Cons b bs)
  then have b: "kb_KafkaProducer b" and bs: "brokers_ready bs" by (simp_all add: brokers_ready_def)
  obtain r w' where run: "produce E m b w = (r, w')" by fastforce
  with produce_log[OF b, of m w] have "r = Ret ()" and "log (w_ext w') = log (w_ext w) @
      (if km_Topic m \<in> set (kb_TopicsToPublish b) then [(kb_BrokerAddress b, m)] else [])" by simp_all
  with run Cons.IH[OF bs, of w'] show ?case by (simp add: thenIO_def bindIO_def)
qed simp

lemma writeToKafka_log:
  assumes "brokers_ready (w_kafkaBrokers w)"
  shows "fst (writeToKafka E t v k w) = Ret () \<and>
     (\<exists>now. log (w_ext (snd (writeToKafka E t v k w))) = log (w_ext w) @
        map (\<lambda>b. (kb_BrokerAddress b, \<lparr> km_Topic = t, km_Key = k, km_Value = v, km_Timestamp = now \<rparr>))
          (filter (\<lambda>b. t \<in> set (kb_TopicsToPublish b)) (w_kafkaBrokers w)))"
proof -
  let ?now = "fst (env_Now E (w_ext w))" and ?w = "w\<lparr>w_ext := snd (env_Now E (w_ext w))\<rparr>"
  have "writeToKafka E t v k w = forIO (produce E \<lparr> km_Topic = t, km_Key = k, km_Value = v, km_Timestamp = ?now \<rparr>)
      (w_kafkaBrokers w) ?w"
    by (simp add: writeToKafka_def)
  with produce_all_log[OF assms, of "\<lparr> km_Topic = t, km_Key = k, km_Value = v, km_Timestamp = ?now \<rparr>" ?w] log_Now
  show ?thesis by auto
qed

end

text \<open>Any outside world with a record of the messages produced beside its state.\<close>

definition logging :: "'e env \<Rightarrow> ((string \<times> kafka_message) list \<times> 'e) env" where
  "logging E =
     \<lparr> pollingEnabled = pollingEnabled E, rfSubscribeEnabled = rfSubscribeEnabled E,
       rfStreamingEnabled = rfStreamingEnabled E, restEnabled = restEnabled E, VaultEnabled = VaultEnabled E,
       pruneOldSubscriptions = pruneOldSubscriptions E, pduPollingInterval = pduPollingInterval E,
       restURL = restURL E, restPort = restPort E, smURL = smURL E,
       IgnoreProvidedTimestamp = IgnoreProvidedTimestamp E, httpFuel = httpFuel E,
       env_Do = (\<lambda>r (l, e). case env_Do E r e of (a, e') \<Rightarrow> (a, (l, e'))),
       env_smdDo = (\<lambda>r (l, e). case env_smdDo E r e of (a, e') \<Rightarrow> (a, (l, e'))),
       env_GetCompCred = (\<lambda>i (l, e). case env_GetCompCred E i e of (a, e') \<Rightarrow> (a, (l, e'))),
       env_Produce = (\<lambda>b m (l, e). case env_Produce E b m e of (a, e') \<Rightarrow> (a, (l @ [(b, m)], e'))),
       env_Now = (\<lambda>(l, e). case env_Now E e of (a, e') \<Rightarrow> (a, (l, e'))),
       env_RFC3339 = env_RFC3339 E, env_RFC3339Nano = env_RFC3339Nano E,
       env_range = (\<lambda>ks (l, e). case env_range E ks e of (a, e') \<Rightarrow> (a, (l, e'))) \<rparr>"

interpretation logging: message_log "logging E" fst
  by unfold_locales (auto simp: logging_def split: prod.splits)

lemma set_fillMap: "set (fillMap m v) = set m \<union> (if v = [] then {} else set (Split v (CHR '','')))"
proof -
  have "set (foldl (\<lambda>m v. List.insert v m) m vs) = set m \<union> set vs" for vs
    by (induction vs arbitrary: m) auto
  then show ?thesis by (simp add: fillMap_def)
qed

section \<open>Properties\<close>

text \<open>
  C8: a message reaches exactly the brokers configured for its topic. With every broker connected,
  publishing returns and hands the message, with its topic, key and payload, once to every broker
  that has the topic, in the order of the configuration, and to no other broker, whether or not
  producing fails.
\<close>

theorem published_to_topic_brokers:
  assumes "brokers_ready (w_kafkaBrokers w)"
  shows "fst (writeToKafka (logging E) topic payload messageID w) = Ret () \<and>
     (\<exists>now. fst (w_ext (snd (writeToKafka (logging E) topic payload messageID w))) = fst (w_ext w) @
        map (\<lambda>b. (kb_BrokerAddress b,
                   \<lparr> km_Topic = topic, km_Key = messageID, km_Value = payload, km_Timestamp = now \<rparr>))
          (filter (\<lambda>b. topic \<in> set (kb_TopicsToPublish b)) (w_kafkaBrokers w)))"
  by (rule logging.writeToKafka_log[OF assms])

definition two_brokers :: "((string \<times> kafka_message) list \<times> unit) world" where
  "two_brokers = (world0 ([], ()))\<lparr>w_kafkaBrokers :=
     [\<lparr> kb_BrokerAddress = ''sma'', kb_TopicsToPublish = [''cray-telemetry-fan''], kb_KafkaProducer = True \<rparr>,
      \<lparr> kb_BrokerAddress = ''cluster'', kb_TopicsToPublish = [''cray-dmtf-resource-event''], kb_KafkaProducer = True \<rparr>]\<rparr>"

theorem published_to_topic_brokers_witness:
  "\<exists>now. fst (w_ext (snd (writeToKafka (logging env0) ''cray-telemetry-fan'' ''{}'' None two_brokers))) =
     [(''sma'', \<lparr> km_Topic = ''cray-telemetry-fan'', km_Key = None, km_Value = ''{}'', km_Timestamp = now \<rparr>)]"
  using published_to_topic_brokers[of two_brokers env0 "''cray-telemetry-fan''" "''{}''" None]
  by (simp add: two_brokers_def brokers_ready_def world0_def)

text \<open>
  A message is logged exactly when an xname setting was given and the part of its key before the
  first dot is one of the xnames listed there.
\<close>

theorem logged_messages:
  assumes "CHR ''.'' \<notin> set x" and "shouldLogForXnames = (fillMap [] setting \<noteq> [])"
  shows "shouldLogMessage shouldLogForXnames (fillMap [] setting) (x @ ''.'' @ rest) \<longleftrightarrow>
     setting \<noteq> [] \<and> x \<in> set (Split setting (CHR '',''))"
proof -
  have "hd (Split (x @ ''.'' @ rest) (CHR ''.'')) = x" using hd_Split_append[OF assms(1)] by simp
  with assms(2) set_fillMap[of "[]" setting] show ?thesis
    by (cases "fillMap [] setting = []") (auto simp: shouldLogMessage_def split: if_splits)
qed

theorem logged_messages_witness:
  "shouldLogMessage True (fillMap [] ''x1,x2'') ''x2.CrayTelemetry.Fan'' \<longleftrightarrow> ''x2'' \<in> set (Split ''x1,x2'' (CHR '',''))"
  using logged_messages[of "''x2''" True "''x1,x2''" "''CrayTelemetry.Fan''"]
  by (simp add: fillMap_def)

end
