(* ===== verification/Rest.thy ===== *)
theory Rest
  imports Kafka
begin

text \<open>
  The HTTP server, \<^verbatim>\<open>cmd/hmcollector/rest.go\<close>: reading the events a BMC posts, routing each to its
  Kafka topic, and the probes. A handler is a computation that returns the status and the body of
  the reply; a body that cannot be read is \<open>None\<close>.
\<close>

section \<open>Reading events\<close>

text \<open>One element of \<^verbatim>\<open>[]map[string]interface{}\<close>; \<^verbatim>\<open>null\<close> is the nil map.\<close>

definition event_object :: "json \<Rightarrow> (string \<times> json) list option" where
  "event_object j = (case j of JObj ms \<Rightarrow> iface_members ms [] | JNull \<Rightarrow> Some [] | _ \<Rightarrow> None)"

primrec event_objects :: "json list \<Rightarrow> (string \<times> json) list list option" where
  "event_objects [] = Some []"
| "event_objects (j # js) =
     (case (event_object j, event_objects js) of (Some o1, Some os) \<Rightarrow> Some (o1 # os) | _ \<Rightarrow> None)"

definition Unmarshal_event_objects :: "string \<Rightarrow> (string \<times> json) list list option" where
  "Unmarshal_event_objects evBytes =
     (case json_parse evBytes of
        Some (JArr vs) \<Rightarrow> event_objects vs
      | Some JNull \<Rightarrow> Some []
      | _ \<Rightarrow> None)"

definition Unmarshal_Event :: "string \<Rightarrow> Event option" where
  "Unmarshal_Event = Unmarshal (dec_struct event_fields) event_zero"

definition Unmarshal_Events :: "string \<Rightarrow> Events option" where
  "Unmarshal_Events = Unmarshal (dec_struct events_fields) events_zero"

text \<open>An event whose origin may be a string instead of an object.\<close>

definition parse_event :: "(string \<times> json) list \<Rightarrow> Event option" where
  "parse_event ev =
     (case map_of ev ''OriginOfCondition'' of
        Some (JStr s) \<Rightarrow>
          map_option (\<lambda>tmpEvent. tmpEvent\<lparr>ev_OriginOfCondition := Some \<lparr> rid_Oid = s \<rparr>\<rparr>)
            (Unmarshal_Event (json_render (JObj (delete_key ''OriginOfCondition'' ev))))
      | _ \<Rightarrow> Unmarshal_Event (json_render (JObj ev)))"

primrec parse_events :: "(string \<times> json) list list \<Rightarrow> Event list option" where
  "parse_events [] = Some []"
| "parse_events (ev # evs) =
     (case parse_event ev of
        None \<Rightarrow> None
      | Some e \<Rightarrow> map_option (\<lambda>es. e # es) (parse_events evs))"

definition unmarshalEvents :: "string \<Rightarrow> Events option" where
  "unmarshalEvents bodyBytes =
     (case Unmarshal_object bodyBytes of
        None \<Rightarrow> None
      | Some jsonObj \<Rightarrow>
          (case map_of jsonObj ''Events'' of
             None \<Rightarrow> None
           | Some v \<Rightarrow>
               (case Unmarshal_Events (json_render (JObj (delete_key ''Events'' jsonObj))) of
                  None \<Rightarrow> None
                | Some events \<Rightarrow>
                    (let evBytes = json_render v;
                         evObjs = (case Unmarshal_event_objects evBytes of
                                     Some os \<Rightarrow> Some os
                                   | None \<Rightarrow> map_option (\<lambda>singleEvObj. [singleEvObj]) (Unmarshal_object evBytes))
                     in case evObjs of
                          None \<Rightarrow> None
                        | Some os \<Rightarrow>
                            map_option (\<lambda>es. events\<lparr>evs_Events := evs_Events events @ es\<rparr>) (parse_events os)))))"

section \<open>Routing\<close>

definition rest_topic :: "string \<Rightarrow> string option" where
  "rest_topic messageId =
     (if HasPrefix messageId ''CrayTelemetry'' then
        if HasSuffix messageId ''Temperature'' then Some ''cray-telemetry-temperature''
        else if HasSuffix messageId ''Voltage'' then Some ''cray-telemetry-voltage''
        else if HasSuffix messageId ''Power'' \<or> HasSuffix messageId ''Current'' then Some ''cray-telemetry-power''
        else if HasSuffix messageId ''Energy'' then Some ''cray-telemetry-energy''
        else if HasSuffix messageId ''Fan'' \<or> HasSuffix messageId ''Rotational'' then Some ''cray-telemetry-fan''
        else if HasSuffix messageId ''Pressure'' then Some ''cray-telemetry-pressure''
        else if HasSuffix messageId ''LiquidFlow'' then Some ''cray-telemetry-liquidflow''
        else if HasSuffix messageId ''Humidity'' then Some ''cray-telemetry-humidity''
        else if HasSuffix messageId ''Metric'' then Some ''cray-telemetry-metric''
        else if HasSuffix messageId ''PowerFactor'' then Some ''cray-telemetry-powerfactor''
        else if HasSuffix messageId ''Frequency'' then Some ''cray-telemetry-frequency''
        else if HasSuffix messageId ''Percent'' then Some ''cray-telemetry-percent''
        else None
      else if HasPrefix messageId ''CrayFabricTelemetry'' then Some ''cray-fabric-telemetry''
      else if HasPrefix messageId ''CrayFabricPerfTelemetry'' then Some ''cray-fabric-perf-telemetry''
      else if HasPrefix messageId ''CrayFabricCritTelemetry'' \<or> HasPrefix messageId ''CrayFabricCriticalTelemetry''
        then Some ''cray-fabric-crit-telemetry''
      else if HasPrefix messageId ''CrayFabricHealth'' then Some ''cray-fabric-health''
      else Some ''cray-dmtf-resource-event'')"

text \<open>The time stamps of the readings replaced by the local time, one reading of the clock each.\<close>

primrec restamp :: "'e env \<Rightarrow> CrayJSONPayload list \<Rightarrow> ('e world, CrayJSONPayload list) io" where
  "restamp E [] = return []"
| "restamp E (p # ps) =
     bindIO (nowString E) (\<lambda>now. bindIO (restamp E ps) (\<lambda>ps'. return (p\<lparr>pl_Timestamp := now\<rparr> # ps')))"

definition override_timestamps :: "'e env \<Rightarrow> Event \<Rightarrow> ('e world, Event) io" where
  "override_timestamps E event =
     (if IgnoreProvidedTimestamp E then
        (case ev_Oem event of
           None \<Rightarrow> panicIO NilDereference
         | Some oem \<Rightarrow>
             (case ss_Sensors oem of
                None \<Rightarrow> return event
              | Some ps \<Rightarrow> bindIO (restamp E ps) (\<lambda>ps'.
                  return (event\<lparr>ev_Oem := Some (oem\<lparr>ss_Sensors := Some ps'\<rparr>)\<rparr>))))
      else return event)"

definition mark_contexts :: "Event \<Rightarrow> Event" where
  "mark_contexts event =
     event\<lparr>ev_Oem := map_option (\<lambda>oem. oem\<lparr>ss_Sensors := map_option (map (\<lambda>p.
       if pl_PhysicalContext p = [] then p\<lparr>pl_PhysicalContext := ''INVALID''\<rparr> else p)) (ss_Sensors oem)\<rparr>) (ev_Oem event)\<rparr>"

definition route_event :: "'e env \<Rightarrow> Events \<Rightarrow> Event \<Rightarrow> ('e world, unit) io" where
  "route_event E events event0 =
     bindIO (override_timestamps E event0) (\<lambda>event1.
     let event = mark_contexts event1;
         eventsString = Marshal_events (events\<lparr>evs_Events := [event]\<rparr>);
         kafkaMessageKey = evs_Context events @ ''.'' @ ev_MessageId event
     in case rest_topic (ev_MessageId event) of
          Some topic \<Rightarrow> writeToKafka E topic eventsString (Some kafkaMessageKey)
        | None \<Rightarrow> return ())"

type_synonym reply = "int \<times> string"

definition parseRequest :: "'e env \<Rightarrow> string \<Rightarrow> string option \<Rightarrow> ('e world, reply) io" where
  "parseRequest E urlPath body =
     (case body of
        None \<Rightarrow> return (200, [])
      | Some bodyBytes \<Rightarrow>
          (case unmarshalEvents bodyBytes of
             None \<Rightarrow> return (400, ''JSON payload malformed!'')
           | Some events0 \<Rightarrow>
               (let events = (if evs_Context events0 = [] then events0\<lparr>evs_Context := filepathBase urlPath\<rparr> else events0)
                in thenIO (forIO (route_event E events) (evs_Events events)) (return (200, [])))))"

section \<open>Probes\<close>

definition doLiveness :: "('e world, reply) io" where
  "doLiveness = return (204, [])"

fun count_brokers :: "KafkaBroker list \<Rightarrow> nat \<Rightarrow> nat \<Rightarrow> nat \<times> nat" where
  "count_brokers [] numBrokers numInit = (numBrokers, numInit)"
| "count_brokers (b # bs) numBrokers numInit =
     count_brokers bs (Suc numBrokers) (if kb_KafkaProducer b then Suc numInit else numInit)"

definition doReadiness :: "('e world, reply) io" where
  "doReadiness =
     bindIO (getsIO w_kafkaBrokers) (\<lambda>brokers.
     case count_brokers brokers 0 0 of (numBrokers, numInit) \<Rightarrow>
       if numBrokers = numInit \<and> numBrokers \<noteq> 0 then return (204, []) else return (503, []))"

record EndpointStatus =
  st_Xname :: string
  st_Model :: string
  st_LastContacted :: int

record HealthResponse =
  hr_Vault :: string
  hr_Kafka :: string
  hr_PollingEndpointStatus :: "EndpointStatus list"

definition enc_status :: "'e env \<Rightarrow> EndpointStatus \<Rightarrow> json" where
  "enc_status E st = JObj (w_str ''Xname'' (st_Xname st) @ w_str ''Model'' (st_Model st) @
     w_str ''LastContacted'' (env_RFC3339Nano E (st_LastContacted st)))"

text \<open>A list to which nothing was appended is nil, which is written as \<^verbatim>\<open>null\<close>.\<close>

definition enc_health :: "'e env \<Rightarrow> HealthResponse \<Rightarrow> json" where
  "enc_health E stats = JObj (w_str ''Vault'' (hr_Vault stats) @ w_str ''Kafka'' (hr_Kafka stats) @
     [(''PollingEndpointStatus'', case hr_PollingEndpointStatus stats of [] \<Rightarrow> JNull | sts \<Rightarrow> JArr (map (enc_status E) sts))])"

definition health_stats :: "'e env \<Rightarrow> 'e world \<Rightarrow> HealthResponse" where
  "health_stats E w = \<lparr>
     hr_Vault = (if VaultEnabled E then
                   (if \<not> w_compCredStore w then ''Vault enabled but not initialized''
                    else ''Vault enabled and initialized'')
                 else ''Vault not enabled''),
     hr_Kafka = (case count_brokers (w_kafkaBrokers w) 0 0 of (numBrokers, numInit) \<Rightarrow>
                   ''Brokers: '' @ Itoa (int numBrokers) @ '', Initialized:'' @ Itoa (int numInit)),
     hr_PollingEndpointStatus = map (\<lambda>ep. \<lparr> st_Xname = ep_ID (w_ep w (ec_Endpoint ep)), st_Model = ec_Model ep,
                   st_LastContacted = w_lastContacted w (ec_LastContacted ep) \<rparr>) (w_endpoints w) \<rparr>"

definition doHealth :: "'e env \<Rightarrow> string \<Rightarrow> ('e world, reply) io" where
  "doHealth E meth =
     (if meth \<noteq> ''GET'' then return (405, [])
      else getsIO (\<lambda>w. (200, json_render (enc_health E (health_stats E w)))))"

section \<open>What a request publishes\<close>

definition with_context :: "string \<Rightarrow> Events \<Rightarrow> Events" where
  "with_context urlPath events =
     (if evs_Context events = [] then events\<lparr>evs_Context := filepathBase urlPath\<rparr> else events)"

text \<open>
  The specification: for every event with a topic, in order, one message to each broker that has
  the topic, with the context of the request in its key and the event alone in its payload.
\<close>

type_synonym publication = "string \<times> string \<times> string option \<times> string"

definition event_publications :: "KafkaBroker list \<Rightarrow> Events \<Rightarrow> Event \<Rightarrow> publication list" where
  "event_publications brokers events ev =
     (case rest_topic (ev_MessageId ev) of
        None \<Rightarrow> []
      | Some t \<Rightarrow> map (\<lambda>b. (kb_BrokerAddress b, t, Some (evs_Context events @ ''.'' @ ev_MessageId ev),
                            Marshal_events (events\<lparr>evs_Events := [mark_contexts ev]\<rparr>)))
                     (filter (\<lambda>b. t \<in> set (kb_TopicsToPublish b)) brokers))"

definition request_publications :: "KafkaBroker list \<Rightarrow> Events \<Rightarrow> publication list" where
  "request_publications brokers events = concat (map (event_publications brokers events) (evs_Events events))"

definition publication_of :: "string \<times> kafka_message \<Rightarrow> publication" where
  "publication_of = (\<lambda>(a, m). (a, km_Topic m, km_Key m, km_Value m))"

lemma mark_contexts_id [simp]: "ev_MessageId (mark_contexts ev) = ev_MessageId ev"
  by (simp add: mark_contexts_def)

lemma parseRequest_events:
  assumes "unmarshalEvents b = Some events0"
  shows "parseRequest E path (Some b) = thenIO (forIO (route_event E (with_context path events0))
     (evs_Events (with_context path events0))) (return (200, []))"
  using assms by (simp add: parseRequest_def with_context_def Let_def)

lemma route_event_plain:
  assumes "\<not> IgnoreProvidedTimestamp E"
  shows "route_event E events ev =
     (case rest_topic (ev_MessageId ev) of
        Some topic \<Rightarrow> writeToKafka E topic (Marshal_events (events\<lparr>evs_Events := [mark_contexts ev]\<rparr>))
                        (Some (evs_Context events @ ''.'' @ ev_MessageId ev))
      | None \<Rightarrow> return ())"
  using assms by (simp add: route_event_def override_timestamps_def Let_def cong: option.case_cong)

context message_log
begin

lemma route_event_log:
  assumes "\<not> IgnoreProvidedTimestamp E" "brokers_ready (w_kafkaBrokers w)" "route_event E events ev w = (r, w')"
  shows "r = Ret () \<and> map publication_of (log (w_ext w')) =
      map publication_of (log (w_ext w)) @ event_publications (w_kafkaBrokers w) events ev"
proof (cases "rest_topic (ev_MessageId ev)")
  case None
  with assms show ?thesis by (simp add: route_event_plain event_publications_def)
next
  case (Some t)
  with assms(3) have run: "writeToKafka E t (Marshal_events (events\<lparr>evs_Events := [mark_contexts ev]\<rparr>))
      (Some (evs_Context events @ ''.'' @ ev_MessageId ev)) w = (r, w')"
    unfolding route_event_plain[OF assms(1)] by simp
  from writeToKafka_log[OF assms(2), of t "Marshal_events (events\<lparr>evs_Events := [mark_contexts ev]\<rparr>)"
      "Some (evs_Context events @ ''.'' @ ev_MessageId ev)"] Some
  show ?thesis unfolding run event_publications_def by (auto simp: publication_of_def)
qed

lemma route_events_log:
  "brokers_ready (w_kafkaBrokers w) \<Longrightarrow> \<not> IgnoreProvidedTimestamp E \<Longrightarrow>
     forIO (route_event E events) evs w = (r, w') \<Longrightarrow>
     r = Ret () \<and> map publication_of (log (w_ext w')) = map publication_of (log (w_ext w)) @
       concat (map (event_publications (w_kafkaBrokers w) events) evs)"
proof (induction evs arbitrary: w)
  case (Cons ev evs)
  obtain r1 w1 where run: "route_event E events ev w = (r1, w1)" by fastforce
  note step = route_event_log[OF Cons.prems(2,1) run]
  have "keeps w_kafkaBrokers (route_event E events ev)"
    using Cons.prems(2) by (auto simp: route_event_plain intro!: frame_rules frame_brokers.keeps_writeToKafka)
  from keepsD[OF this run] have br: "w_kafkaBrokers w1 = w_kafkaBrokers w" .
  from Cons.prems(3) run step have "forIO (route_event E events) evs w1 = (r, w')"
    by (simp add: thenIO_def bindIO_def)
  from Cons.IH[OF _ Cons.prems(2) this] Cons.prems(1) br step show ?case by simp
qed simp

end

lemma event_zero_oem [simp]: "ev_Oem event_zero = None"
  by (simp add: event_zero_def)

lemma count_brokers_eq:
  "count_brokers bs n k = (n + length bs, k + length (filter kb_KafkaProducer bs))"
  by (induction bs arbitrary: n k) simp_all

lemma parseRequest_log:
  assumes "unmarshalEvents b = Some events0" "\<not> IgnoreProvidedTimestamp E" "brokers_ready (w_kafkaBrokers w)"
    and "parseRequest (logging E) path (Some b) w = (r, w')"
  shows "r = Ret (200, []) \<and> map publication_of (fst (w_ext w')) =
     map publication_of (fst (w_ext w)) @ request_publications (w_kafkaBrokers w) (with_context path events0)"
proof -
  let ?evs = "with_context path events0"
  obtain r1 w1 where run: "forIO (route_event (logging E) ?evs) (evs_Events ?evs) w = (r1, w1)" by fastforce
  have "\<not> IgnoreProvidedTimestamp (logging E)" using assms(2) by (simp add: logging_def)
  from logging.route_events_log[OF assms(3) this run] assms(4) run show ?thesis
    unfolding parseRequest_events[OF assms(1)] by (auto simp: thenIO_def bindIO_def request_publications_def)
qed

lemma doReadiness_eq:
  "doReadiness w = (Ret (if w_kafkaBrokers w \<noteq> [] \<and> brokers_ready (w_kafkaBrokers w) then 204 else 503, []), w)"
proof -
  have "length bs = length (filter kb_KafkaProducer bs) \<longleftrightarrow> list_all kb_KafkaProducer bs" for bs
    by (metis filter_id_conv length_filter_less less_irrefl list_all_iff)
  then show ?thesis
    by (auto simp: doReadiness_def bindIO_def count_brokers_eq brokers_ready_def)
qed

section \<open>Properties\<close>

text \<open>
  C1: what an accepted request publishes. When every broker is connected and time stamps are not
  overridden, a request whose body decodes is answered with 200, and publishes exactly what the
  specification lists: for each event, in order, one message to every broker with the event's topic,
  keyed by the context of the request (the last element of its path when the context is missing) and
  the message identifier, with an empty physical context replaced by \<^verbatim>\<open>INVALID\<close>.
\<close>

theorem request_published:
  assumes "unmarshalEvents b = Some events0" "\<not> IgnoreProvidedTimestamp E" "brokers_ready (w_kafkaBrokers w)"
    and "parseRequest (logging E) path (Some b) w = (r, w')"
  shows "r = Ret (200, []) \<and> map publication_of (fst (w_ext w')) =
     map publication_of (fst (w_ext w)) @ request_publications (w_kafkaBrokers w) (with_context path events0)"
  by (rule parseRequest_log[OF assms])

definition fan_post :: string where
  "fan_post = ''{\"Events\":{\"MessageId\":\"CrayTelemetry.Fan\",\"OriginOfCondition\":\"/Fans/1\"}}''"

lemma fan_post_events:
  "unmarshalEvents fan_post = Some (events_zero\<lparr>evs_Events := [event_zero\<lparr>ev_MessageId := ''CrayTelemetry.Fan'',
     ev_OriginOfCondition := Some \<lparr>rid_Oid = ''/Fans/1''\<rparr>\<rparr>]\<rparr>)"
  by code_simp

theorem request_published_witness:
  "map (\<lambda>(a, t, k, v). (a, t, k)) (map publication_of (fst (w_ext (snd (parseRequest (logging env0) ''/x1'' (Some fan_post) two_brokers))))) =
     [(''sma'', ''cray-telemetry-fan'', Some ''x1.CrayTelemetry.Fan'')]"
proof -
  have "filepathBase ''/x1'' = ''x1''" "rest_topic ''CrayTelemetry.Fan'' = Some ''cray-telemetry-fan''" by code_simp+
  moreover have "\<not> IgnoreProvidedTimestamp (env0 :: unit env)" "brokers_ready (w_kafkaBrokers two_brokers)"
    "fst (w_ext two_brokers) = []"
    by (simp_all add: env0_def two_brokers_def brokers_ready_def world0_def)
  ultimately show ?thesis
    using request_published[OF fan_post_events, of env0 two_brokers "''/x1''", OF _ _ prod.collapse[symmetric]]
    by (simp add: request_publications_def event_publications_def with_context_def two_brokers_def events_zero_def)
qed

text \<open>
  A request whose body is not a JSON object with events is answered with 400 and changes nothing:
  nothing is published.
\<close>

theorem malformed_request_rejected:
  assumes "unmarshalEvents b = None"
  shows "parseRequest E path (Some b) w = (Ret (400, ''JSON payload malformed!''), w)"
  using assms by (simp add: parseRequest_def)

theorem malformed_request_rejected_witness:
  "parseRequest (env0 :: unit env) ''/x1'' (Some ''{\"Event\":[]}'') (world0 ()) =
     (Ret (400, ''JSON payload malformed!''), world0 ())"
  by (rule malformed_request_rejected) code_simp

text \<open>
  With the option to ignore provided time stamps, a request whose first event has no Oem part
  makes the handler panic before anything is published.
\<close>

theorem restamp_without_oem_panics:
  assumes "IgnoreProvidedTimestamp E" "unmarshalEvents b = Some events0"
    "evs_Events events0 = ev # evs" "ev_Oem ev = None"
  shows "parseRequest E path (Some b) w = (Panic NilDereference, w)"
proof -
  have "evs_Events (with_context path events0) = ev # evs" using assms(3) by (simp add: with_context_def)
  with assms show ?thesis
    unfolding parseRequest_events[OF assms(2)]
    by (simp add: thenIO_def bindIO_def route_event_def override_timestamps_def)
qed

theorem restamp_without_oem_panics_witness:
  "parseRequest ((env0 :: unit env)\<lparr>IgnoreProvidedTimestamp := True\<rparr>) ''/x1'' (Some fan_post) (world0 ()) =
     (Panic NilDereference, world0 ())"
  by (rule restamp_without_oem_panics[OF _ fan_post_events]) (simp_all, simp)

text \<open>
  The readiness probe answers 204 exactly when at least one broker is configured and every
  configured broker has a producer, and 503 otherwise.
\<close>

theorem readiness:
  "doReadiness w = (Ret (if w_kafkaBrokers w \<noteq> [] \<and> brokers_ready (w_kafkaBrokers w) then 204 else 503, []), w)"
  by (rule doReadiness_eq)

end
