(* ===== verification/River.thy ===== *)
theory River
  imports Http "HOL-Library.Multiset"
begin

text \<open>
  The collectors for polled (River) hardware, \<^verbatim>\<open>internal/river_collector\<close>: where the readings of an
  endpoint are, and how a reading becomes telemetry events. The collectors for OpenBMC, HPE, Intel
  and Gigabyte BMCs have no state; the one for HPE PDUs remembers the last power state of every
  outlet in a map all copies of the collector share. A call through the interface \<^verbatim>\<open>RiverCollector\<close> is
  a case distinction on the collector.
\<close>

section \<open>The interface\<close>

type_synonym TelemetryType = string

definition MessageRegistryName :: string where "MessageRegistryName = ''CrayTelemetry''"
definition PowerMessageID :: string where "PowerMessageID = MessageRegistryName @ ''.'' @ ''Power''"
definition VoltageMessageID :: string where "VoltageMessageID = MessageRegistryName @ ''.'' @ ''Voltage''"
definition EnergyMessageID :: string where "EnergyMessageID = MessageRegistryName @ ''.'' @ ''Energy''"
definition CurrentMessageID :: string where "CurrentMessageID = MessageRegistryName @ ''.'' @ ''Current''"
definition TemperatureMessageID :: string where "TemperatureMessageID = MessageRegistryName @ ''.'' @ ''Temperature''"
definition FanMessageID :: string where "FanMessageID = MessageRegistryName @ ''.'' @ ''Fan''"
definition ResourceMessageID :: string where "ResourceMessageID = ''ResourceEvent.1.0.ResourcePowerStateChanged''"

definition TelemetryTypePower :: TelemetryType where "TelemetryTypePower = ''Power''"
definition TelemetryTypeThermal :: TelemetryType where "TelemetryTypeThermal = ''Thermal''"

text \<open>An event with readings; a slice nothing was appended to stays \<^verbatim>\<open>nil\<close>.\<close>

definition sensor_event :: "string \<Rightarrow> string \<Rightarrow> CrayJSONPayload list \<Rightarrow> Event" where
  "sensor_event messageId timestamp payloads =
     event_zero\<lparr>ev_MessageId := messageId, ev_EventTimestamp := timestamp,
       ev_Oem := Some \<lparr> ss_Sensors = (if payloads = [] then None else Some payloads),
                       ss_TelemetrySource = ''River'' \<rparr>\<rparr>"

text \<open>A reading with index zero, and the index of a member: \<^verbatim>\<open>int16\<close> of an 8-bit number, its error ignored.\<close>

definition new_payload :: "string \<Rightarrow> string \<Rightarrow> CrayJSONPayload" where
  "new_payload timestamp location =
     payload_zero\<lparr>pl_Index := Some 0, pl_Timestamp := timestamp, pl_Location := location\<rparr>"

definition member_index :: "string \<Rightarrow> int16" where
  "member_index memberId = word_of_nat (fst (ParseUint memberId 8))"

section \<open>OpenBMC\<close>

definition openbmc_power_events :: "string \<Rightarrow> string \<Rightarrow> Power \<Rightarrow> Event list" where
  "openbmc_power_events timestamp location pwr =
     (let controls = filter (\<lambda>c. pc_Name c = ''Chassis Power Control'') (pw_PowerControl pwr);
          control_payloads = map (\<lambda>c. (new_payload timestamp location)\<lparr>pl_PhysicalContext := ''Chassis'',
            pl_DeviceSpecificContext := pc_Name c, pl_Index := Some (member_index (pc_MemberId c)),
            pl_Value := FormatFloat (pc_PowerConsumedWatts c)\<rparr>) controls;
          supply_payloads = map (\<lambda>s. (new_payload timestamp location)\<lparr>pl_PhysicalContext := ''PowerSupplyBay'',
            pl_DeviceSpecificContext := ps_Name s, pl_Index := Some (member_index (ps_MemberId s)),
            pl_Value := FormatFloat (ps_PowerOutputWatts s)\<rparr>) (pw_PowerSupplies pwr);
          voltage_payloads = map (\<lambda>v. (new_payload timestamp location)\<lparr>pl_PhysicalContext := ''SystemBoard'',
            pl_DeviceSpecificContext := vt_Name v, pl_Value := FormatFloat (vt_ReadingVolts v)\<rparr>) (pw_Voltages pwr)
      in (if controls \<noteq> [] then [sensor_event PowerMessageID timestamp control_payloads] else []) @
         (if pw_PowerSupplies pwr \<noteq> [] then [sensor_event PowerMessageID timestamp supply_payloads] else []) @
         (if pw_Voltages pwr \<noteq> [] then [sensor_event VoltageMessageID timestamp voltage_payloads] else []))"

definition fan_payload :: "string \<Rightarrow> string \<Rightarrow> string \<Rightarrow> Fan \<Rightarrow> CrayJSONPayload" where
  "fan_payload timestamp location physicalContext f =
     (new_payload timestamp location)\<lparr>pl_DeviceSpecificContext := fn_Name f, pl_PhysicalContext := physicalContext,
       pl_Index := Some (member_index (fn_MemberId f)), pl_Value := FormatFloat (fn_Reading f)\<rparr>"

definition temperature_payload :: "string \<Rightarrow> string \<Rightarrow> Temperature \<Rightarrow> CrayJSONPayload" where
  "temperature_payload timestamp location t =
     (new_payload timestamp location)\<lparr>pl_DeviceSpecificContext := tm_Name t, pl_PhysicalContext := tm_PhysicalContext t,
       pl_Index := Some (member_index (tm_MemberId t)), pl_Value := FormatFloat (tm_ReadingCelsius t)\<rparr>"

definition openbmc_thermal_events :: "string \<Rightarrow> string \<Rightarrow> EnclosureThermal \<Rightarrow> Event list" where
  "openbmc_thermal_events timestamp location thermal =
     (if th_Fans thermal \<noteq> []
      then [sensor_event FanMessageID timestamp (map (fan_payload timestamp location ''System'') (th_Fans thermal))]
      else []) @
     (if th_Temperatures thermal \<noteq> []
      then [sensor_event TemperatureMessageID timestamp (map (temperature_payload timestamp location) (th_Temperatures thermal))]
      else [])"

definition openbmc_ParseJSONPowerEvents :: "'e env \<Rightarrow> string \<Rightarrow> string \<Rightarrow> ('e world, Event list) io" where
  "openbmc_ParseJSONPowerEvents E payloadBytes location =
     bindIO (nowString E) (\<lambda>timestamp.
     case Unmarshal_Power payloadBytes of
       None \<Rightarrow> return []
     | Some pwr \<Rightarrow> return (openbmc_power_events timestamp location pwr))"

definition openbmc_ParseJSONThermalEvents :: "'e env \<Rightarrow> string \<Rightarrow> string \<Rightarrow> ('e world, Event list) io" where
  "openbmc_ParseJSONThermalEvents E payloadBytes location =
     bindIO (nowString E) (\<lambda>timestamp.
     case Unmarshal_Thermal payloadBytes of
       None \<Rightarrow> return []
     | Some thermal \<Rightarrow> return (openbmc_thermal_events timestamp location thermal))"

definition openbmc_GetPayloadURLForTelemetryType :: "RedfishEPDescription \<Rightarrow> TelemetryType \<Rightarrow> string list" where
  "openbmc_GetPayloadURLForTelemetryType endpoint telemetryType =
     [''https://'' @ ep_FQDN endpoint @ ''/redfish/v1/Chassis/Baseboard_0/'' @ telemetryType]"

section \<open>HPE\<close>

text \<open>The power event has a time stamp of its own, taken after the payload was decoded.\<close>

definition hpe_power_events :: "string \<Rightarrow> string \<Rightarrow> string \<Rightarrow> Power \<Rightarrow> Event list" where
  "hpe_power_events timestamp eventTimestamp location pwr =
     (let control_payloads = map (\<lambda>c. (new_payload timestamp location)\<lparr>pl_PhysicalContext := ''PowerControlIntake'',
            pl_DeviceSpecificContext := ''PowerIntake'', pl_Index := Some (member_index (pc_MemberId c)),
            pl_Value := FormatFloat (pm_AverageConsumedWatts (pc_PowerMetrics c))\<rparr>) (pw_PowerControl pwr);
          supply_payloads = map (\<lambda>s. (new_payload timestamp location)\<lparr>pl_PhysicalContext := ''PowerSupplyBay'',
            pl_DeviceSpecificContext := ''PowerSupplyBay_'' @ ps_MemberId s,
            pl_Index := Some (member_index (ps_MemberId s)),
            pl_Value := FormatFloat (ps_LineInputVoltage s)\<rparr>) (pw_PowerSupplies pwr)
      in (if pw_PowerControl pwr \<noteq> [] then [sensor_event PowerMessageID eventTimestamp control_payloads] else []) @
         (if pw_PowerSupplies pwr \<noteq> [] then [sensor_event VoltageMessageID timestamp supply_payloads] else []))"

definition hpe_ParseJSONPowerEvents :: "'e env \<Rightarrow> string \<Rightarrow> string \<Rightarrow> ('e world, Event list) io" where
  "hpe_ParseJSONPowerEvents E payloadBytes location =
     bindIO (nowString E) (\<lambda>timestamp.
     case Unmarshal_Power payloadBytes of
       None \<Rightarrow> return []
     | Some pwr \<Rightarrow>
         bindIO (nowString E) (\<lambda>eventTimestamp.
         return (hpe_power_events timestamp eventTimestamp location pwr)))"

definition hpe_ParseJSONThermalEvents :: "'e env \<Rightarrow> string \<Rightarrow> string \<Rightarrow> ('e world, Event list) io" where
  "hpe_ParseJSONThermalEvents E payloadBytes location =
     bindIO (nowString E) (\<lambda>timestamp.
     case Unmarshal_Thermal payloadBytes of
       None \<Rightarrow> return []
     | Some thermal \<Rightarrow> return (
         (if th_Fans thermal \<noteq> []
          then [sensor_event FanMessageID timestamp (map (fan_payload timestamp location ''System'') (th_Fans thermal))]
          else []) @
         (if th_Temperatures thermal \<noteq> []
          then [sensor_event TemperatureMessageID timestamp
                  (map (temperature_payload timestamp location) (th_Temperatures thermal))]
          else [])))"

definition hpe_GetPayloadURLForTelemetryType :: "RedfishEPDescription \<Rightarrow> TelemetryType \<Rightarrow> string list" where
  "hpe_GetPayloadURLForTelemetryType endpoint telemetryType =
     [''https://'' @ ep_FQDN endpoint @ ''/redfish/v1/Chassis/1/'' @ telemetryType]"

section \<open>Intel\<close>

text \<open>The name of a voltage loses its first three bytes; a shorter name is out of range.\<close>

primrec intel_voltage_payloads :: "string \<Rightarrow> string \<Rightarrow> Voltage list \<Rightarrow> CrayJSONPayload list res" where
  "intel_voltage_payloads timestamp location [] = Ret []"
| "intel_voltage_payloads timestamp location (v # vs) =
     (if length (vt_Name v) < 3 then Panic SliceOutOfRange
      else bind_res (intel_voltage_payloads timestamp location vs) (\<lambda>ps.
        Ret ((new_payload timestamp location)\<lparr>pl_PhysicalContext := ''SystemBoard'',
          pl_DeviceSpecificContext := drop 3 (vt_Name v), pl_Value := FormatFloat (vt_ReadingVolts v)\<rparr> # ps)))"

definition intel_power_events :: "string \<Rightarrow> string \<Rightarrow> string \<Rightarrow> Power \<Rightarrow> Event list res" where
  "intel_power_events timestamp eventTimestamp location pwr =
     (let control_payloads = map (\<lambda>c. (new_payload timestamp location)\<lparr>pl_PhysicalContext := ''Chassis'',
            pl_DeviceSpecificContext := ''Chassis_PowerControl'', pl_Index := Some (member_index (pc_MemberId c)),
            pl_Value := FormatFloat (pc_PowerConsumedWatts c)\<rparr>)
            (filter (\<lambda>c. pc_Name c = ''Server Power Control'') (pw_PowerControl pwr));
          supply_payloads = map (\<lambda>s. (new_payload timestamp location)\<lparr>pl_PhysicalContext := ''PowerSupplyBay'',
            pl_DeviceSpecificContext := ''PowerSupplyBay_'' @ ps_MemberId s,
            pl_Index := Some (member_index (ps_MemberId s)),
            pl_Value := FormatFloat (ps_LineInputVoltage s)\<rparr>) (pw_PowerSupplies pwr)
      in bind_res (intel_voltage_payloads timestamp location (pw_Voltages pwr)) (\<lambda>voltage_payloads.
         Ret [sensor_event PowerMessageID eventTimestamp control_payloads,
              sensor_event VoltageMessageID timestamp (supply_payloads @ voltage_payloads)]))"

definition intel_ParseJSONPowerEvents :: "'e env \<Rightarrow> string \<Rightarrow> string \<Rightarrow> ('e world, Event list) io" where
  "intel_ParseJSONPowerEvents E payloadBytes location =
     bindIO (nowString E) (\<lambda>timestamp.
     case Unmarshal_Power payloadBytes of
       None \<Rightarrow> return []
     | Some pwr \<Rightarrow>
         bindIO (nowString E) (\<lambda>eventTimestamp.
         liftIO (intel_power_events timestamp eventTimestamp location pwr)))"

definition intel_ParseJSONThermalEvents :: "'e env \<Rightarrow> string \<Rightarrow> string \<Rightarrow> ('e world, Event list) io" where
  "intel_ParseJSONThermalEvents E payloadBytes location =
     bindIO (nowString E) (\<lambda>timestamp.
     case Unmarshal_Thermal payloadBytes of
       None \<Rightarrow> return []
     | Some thermal \<Rightarrow> return [sensor_event TemperatureMessageID timestamp
         (map (\<lambda>t. (new_payload timestamp location)\<lparr>pl_ParentalIndex := Some 0, pl_PhysicalContext := ''Baseboard'',
            pl_Value := FormatFloat (tm_ReadingCelsius t), pl_DeviceSpecificContext := tm_Name t\<rparr>)
          (th_Temperatures thermal))])"

definition intel_GetPayloadURLForTelemetryType :: "RedfishEPDescription \<Rightarrow> TelemetryType \<Rightarrow> string list" where
  "intel_GetPayloadURLForTelemetryType endpoint telemetryType =
     [''https://'' @ ep_FQDN endpoint @ ''/redfish/v1/Chassis/RackMount/Baseboard/'' @ telemetryType]"

section \<open>Gigabyte\<close>

definition gigabyte_power_events :: "string \<Rightarrow> string \<Rightarrow> string \<Rightarrow> Power \<Rightarrow> Event list" where
  "gigabyte_power_events timestamp eventTimestamp location pwr =
     (let control_payloads = map (\<lambda>c. (new_payload timestamp location)\<lparr>pl_PhysicalContext := pc_PhysicalContext c,
            pl_DeviceSpecificContext := pc_PhysicalContext c @ ''_PowerControl'',
            pl_Index := Some (member_index (pc_MemberId c)),
            pl_Value := FormatFloat (pm_AverageConsumedWatts (pc_PowerMetrics c))\<rparr>)
            (filter (\<lambda>c. pc_Name c = ''Chassis Power Control'' \<or> pc_Name c = ''Server Power Control'') (pw_PowerControl pwr));
          voltage_payloads = map (\<lambda>v. payload_zero\<lparr>pl_Timestamp := timestamp, pl_Location := location,
            pl_PhysicalContext := vt_PhysicalContext v, pl_DeviceSpecificContext := vt_Name v,
            pl_Value := FormatFloat (vt_ReadingVolts v)\<rparr>) (pw_Voltages pwr)
      in (if pw_PowerControl pwr \<noteq> [] then [sensor_event PowerMessageID eventTimestamp control_payloads] else []) @
         (if pw_Voltages pwr \<noteq> [] then [sensor_event VoltageMessageID timestamp voltage_payloads] else []))"

definition gigabyte_ParseJSONPowerEvents :: "'e env \<Rightarrow> string \<Rightarrow> string \<Rightarrow> ('e world, Event list) io" where
  "gigabyte_ParseJSONPowerEvents E payloadBytes location =
     bindIO (nowString E) (\<lambda>timestamp.
     case Unmarshal_Power payloadBytes of
       None \<Rightarrow> return []
     | Some pwr \<Rightarrow>
         bindIO (nowString E) (\<lambda>eventTimestamp.
         return (gigabyte_power_events timestamp eventTimestamp location pwr)))"

definition gigabyte_ParseJSONThermalEvents :: "'e env \<Rightarrow> string \<Rightarrow> string \<Rightarrow> ('e world, Event list) io" where
  "gigabyte_ParseJSONThermalEvents E payloadBytes location =
     bindIO (nowString E) (\<lambda>timestamp.
     case Unmarshal_Thermal payloadBytes of
       None \<Rightarrow> return []
     | Some thermal \<Rightarrow> return (
         (if th_Fans thermal \<noteq> []
          then [sensor_event FanMessageID timestamp
                  (map (\<lambda>f. fan_payload timestamp location (fn_PhysicalContext f) f) (th_Fans thermal))]
          else []) @
         (if th_Temperatures thermal \<noteq> []
          then [sensor_event TemperatureMessageID timestamp
                  (map (temperature_payload timestamp location) (th_Temperatures thermal))]
          else [])))"

definition gigabyte_GetPayloadURLForTelemetryType :: "RedfishEPDescription \<Rightarrow> TelemetryType \<Rightarrow> string list" where
  "gigabyte_GetPayloadURLForTelemetryType endpoint telemetryType =
     [''https://'' @ ep_FQDN endpoint @ ''/redfish/v1/Chassis/Self/'' @ telemetryType]"

section \<open>HPE PDUs\<close>

text \<open>The collector is the address of its map from a resource to the last power state seen.\<close>

definition pdu_payload :: "string \<Rightarrow> string \<Rightarrow> string \<Rightarrow> string \<Rightarrow> int16 \<Rightarrow> float64 \<Rightarrow> CrayJSONPayload" where
  "pdu_payload timestamp location physicalContext physicalSubContext index reading =
     (new_payload timestamp (location @ ''p0''))\<lparr>pl_ParentalContext := ''PDU'', pl_PhysicalContext := physicalContext,
       pl_PhysicalSubContext := physicalSubContext, pl_Index := Some index, pl_Value := FormatFloat reading\<rparr>"

definition outlet_events :: "string \<Rightarrow> string \<Rightarrow> int16 \<Rightarrow> Outlet \<Rightarrow> Event list" where
  "outlet_events timestamp location index outlet =
     (let reading = (\<lambda>sensor. [pdu_payload timestamp location ''Outlet'' ''Output'' index (sn_Reading sensor)])
      in [sensor_event PowerMessageID timestamp (reading (ol_PowerWatts outlet)),
          sensor_event CurrentMessageID timestamp (reading (ol_CurrentAmps outlet)),
          sensor_event VoltageMessageID timestamp (reading (ol_Voltage outlet)),
          sensor_event EnergyMessageID timestamp (reading (ol_EnergykWh outlet))])"

definition power_state_event :: "string \<Rightarrow> string \<Rightarrow> string \<Rightarrow> string \<Rightarrow> Event" where
  "power_state_event timestamp location oid powerState =
     event_zero\<lparr>ev_EventTimestamp := timestamp, ev_Severity := ''OK'',
       ev_Message := ''The power state of resource '' @ oid @ '' has changed to type '' @ powerState @ ''.'',
       ev_MessageId := ResourceMessageID, ev_MessageArgs := [oid, powerState], ev_Context := location,
       ev_OriginOfCondition := Some \<lparr> rid_Oid = oid \<rparr>\<rparr>"

definition parseOutletPayload :: "'e env \<Rightarrow> nat \<Rightarrow> string \<Rightarrow> string \<Rightarrow> ('e world, Event list) io" where
  "parseOutletPayload E c payloadBytes location =
     bindIO (nowString E) (\<lambda>timestamp.
     case Unmarshal_Outlet payloadBytes of
       None \<Rightarrow> return []
     | Some outlet \<Rightarrow>
         (let oid = rid_Oid (ol_Links outlet); f = FieldsFunc oid (\<lambda>ch. \<not> isDigit ch)
          in if f = [] then panicIO IndexOutOfRange
             else
               (let events = outlet_events timestamp location (word_of_nat (fst (ParseUint (last f) 8))) outlet
                in bindIO (getsIO (\<lambda>w. map_of (w_sensors w c) oid)) (\<lambda>sensor.
                   case sensor of
                     None \<Rightarrow> return events
                   | Some lastPowerState \<Rightarrow>
                       if lastPowerState = ol_PowerState outlet then return events
                       else
                         thenIO (modifyIO (\<lambda>w. w\<lparr>w_sensors := (w_sensors w)(c :=
                                   put_key oid (ol_PowerState outlet) (w_sensors w c))\<rparr>))
                         (return (events @ [power_state_event timestamp location oid (ol_PowerState outlet)]))))))"

text \<open>The name of the line a branch is on: the last one the iteration over the map meets.\<close>

definition branch_context :: "string \<Rightarrow> string list \<Rightarrow> string" where
  "branch_context branchChar names =
     foldl (\<lambda>ctx name. if Contains name ''Line'' then name @ ''-BR'' @ branchChar else ctx) [] names"

definition parseBranchPayload :: "'e env \<Rightarrow> string \<Rightarrow> string \<Rightarrow> ('e world, Event list) io" where
  "parseBranchPayload E payloadBytes location =
     bindIO (nowString E) (\<lambda>timestamp.
     case Unmarshal_Circuit payloadBytes of
       None \<Rightarrow> return []
     | Some branch \<Rightarrow>
         (let f = Fields (ci_Name branch)
          in if f = [] then panicIO IndexOutOfRange
             else
               (let branchChar = last f; index = word_of_nat (of_char (hd branchChar)) - 64 :: int16
                in bindIO (extIO (env_range E (map fst (ci_PolyPhasePowerWatts branch)))) (\<lambda>names.
                   let reading = (\<lambda>sensor. [(pdu_payload timestamp location ''Branch'' ''Input'' index (sn_Reading sensor))
                                   \<lparr>pl_DeviceSpecificContext := branch_context branchChar names\<rparr>])
                   in return [sensor_event CurrentMessageID timestamp (reading (ci_CurrentAmps branch)),
                              sensor_event EnergyMessageID timestamp (reading (ci_EnergykWh branch))]))))"

text \<open>The readings of a map of sensors, numbered in the order of their names.\<close>

definition phase_payloads ::
  "string \<Rightarrow> string \<Rightarrow> string \<Rightarrow> (string \<times> PDUSensor) list \<Rightarrow> string list \<Rightarrow> CrayJSONPayload list" where
  "phase_payloads timestamp location physicalContext sensors names =
     map (\<lambda>(index, name). (pdu_payload timestamp location physicalContext ''Input'' (word_of_nat index)
            (sn_Reading (case map_of sensors name of None \<Rightarrow> sn_zero | Some sn \<Rightarrow> sn)))
            \<lparr>pl_DeviceSpecificContext := name\<rparr>)
       (enumerate 0 (sort names))"

definition parseMainPayload :: "'e env \<Rightarrow> string \<Rightarrow> string \<Rightarrow> ('e world, Event list) io" where
  "parseMainPayload E payloadBytes location =
     bindIO (nowString E) (\<lambda>timestamp.
     case Unmarshal_Circuit payloadBytes of
       None \<Rightarrow> return []
     | Some pduMain \<Rightarrow>
         bindIO (extIO (env_range E (map fst (ci_PolyPhasePowerWatts pduMain)))) (\<lambda>namesP.
         bindIO (extIO (env_range E (map fst (ci_PolyPhaseVoltage pduMain)))) (\<lambda>namesV.
         bindIO (extIO (env_range E (map fst (ci_PolyPhaseCurrentAmps pduMain)))) (\<lambda>namesC.
         return
           [sensor_event PowerMessageID timestamp
              (phase_payloads timestamp location ''Phase'' (ci_PolyPhasePowerWatts pduMain) namesP),
            sensor_event VoltageMessageID timestamp
              (phase_payloads timestamp location ''Phase'' (ci_PolyPhaseVoltage pduMain) namesV),
            sensor_event CurrentMessageID timestamp
              (phase_payloads timestamp location ''Line'' (ci_PolyPhaseCurrentAmps pduMain) namesC)]))))"

definition hpepdu_ParseJSONPowerEvents :: "'e env \<Rightarrow> nat \<Rightarrow> string \<Rightarrow> string \<Rightarrow> ('e world, Event list) io" where
  "hpepdu_ParseJSONPowerEvents E c payloadBytes location =
     (case Unmarshal_object payloadBytes of
        None \<Rightarrow> return []
      | Some payload \<Rightarrow>
          (case map_of payload ''Name'' of
             None \<Rightarrow> return []
           | Some name \<Rightarrow>
               (case name of
                  JStr nameStr \<Rightarrow>
                    if Contains nameStr ''Outlet'' then parseOutletPayload E c payloadBytes location
                    else if Contains nameStr ''Branch'' then parseBranchPayload E payloadBytes location
                    else if Contains nameStr ''Mains'' then parseMainPayload E payloadBytes location
                    else return []
                | _ \<Rightarrow> panicIO TypeAssertion)))"

definition hpepdu_ParseJSONThermalEvents :: "string \<Rightarrow> string \<Rightarrow> ('e world, Event list) io" where
  "hpepdu_ParseJSONThermalEvents payloadBytes location = return []"

definition hpepdu_GetPayloadURLForTelemetryType ::
  "'e env \<Rightarrow> nat \<Rightarrow> RedfishEPDescription \<Rightarrow> TelemetryType \<Rightarrow> ('e world, string list) io" where
  "hpepdu_GetPayloadURLForTelemetryType E c endpoint telemetryType =
     (if telemetryType \<noteq> TelemetryTypePower then return []
      else
        bindIO (getsIO (\<lambda>w. map fst (w_sensors w c))) (\<lambda>ids.
        bindIO (extIO (env_range E ids)) (\<lambda>order.
        return (map (\<lambda>i. ''https://'' @ ep_FQDN endpoint @ i) order))))"

section \<open>Calls through the interface\<close>

definition GetPayloadURLForTelemetryType ::
  "'e env \<Rightarrow> RiverCollector \<Rightarrow> RedfishEPDescription \<Rightarrow> TelemetryType \<Rightarrow> ('e world, string list) io" where
  "GetPayloadURLForTelemetryType E collector endpoint telemetryType =
     (case collector of
        GigabyteRiverCollector \<Rightarrow> return (gigabyte_GetPayloadURLForTelemetryType endpoint telemetryType)
      | IntelRiverCollector \<Rightarrow> return (intel_GetPayloadURLForTelemetryType endpoint telemetryType)
      | HPERiverCollector \<Rightarrow> return (hpe_GetPayloadURLForTelemetryType endpoint telemetryType)
      | OpenBMCRiverCollector \<Rightarrow> return (openbmc_GetPayloadURLForTelemetryType endpoint telemetryType)
      | HPEPDURiverCollector c \<Rightarrow> hpepdu_GetPayloadURLForTelemetryType E c endpoint telemetryType)"

definition ParseJSONPowerEvents :: "'e env \<Rightarrow> RiverCollector \<Rightarrow> string \<Rightarrow> string \<Rightarrow> ('e world, Event list) io" where
  "ParseJSONPowerEvents E collector =
     (case collector of
        GigabyteRiverCollector \<Rightarrow> gigabyte_ParseJSONPowerEvents E
      | IntelRiverCollector \<Rightarrow> intel_ParseJSONPowerEvents E
      | HPERiverCollector \<Rightarrow> hpe_ParseJSONPowerEvents E
      | OpenBMCRiverCollector \<Rightarrow> openbmc_ParseJSONPowerEvents E
      | HPEPDURiverCollector c \<Rightarrow> hpepdu_ParseJSONPowerEvents E c)"

definition ParseJSONThermalEvents :: "'e env \<Rightarrow> RiverCollector \<Rightarrow> string \<Rightarrow> string \<Rightarrow> ('e world, Event list) io" where
  "ParseJSONThermalEvents E collector =
     (case collector of
        GigabyteRiverCollector \<Rightarrow> gigabyte_ParseJSONThermalEvents E
      | IntelRiverCollector \<Rightarrow> intel_ParseJSONThermalEvents E
      | HPERiverCollector \<Rightarrow> hpe_ParseJSONThermalEvents E
      | OpenBMCRiverCollector \<Rightarrow> openbmc_ParseJSONThermalEvents E
      | HPEPDURiverCollector c \<Rightarrow> hpepdu_ParseJSONThermalEvents)"

definition GetEventsForPayload ::
  "'e env \<Rightarrow> RiverCollector \<Rightarrow> string \<Rightarrow> RedfishEPDescription \<Rightarrow> TelemetryType \<Rightarrow> ('e world, Event list) io" where
  "GetEventsForPayload E collector payloadBytes endpoint telemetryType =
     (if telemetryType = TelemetryTypePower then ParseJSONPowerEvents E collector payloadBytes (ep_ID endpoint)
      else if telemetryType = TelemetryTypeThermal then ParseJSONThermalEvents E collector payloadBytes (ep_ID endpoint)
      else return [])"

section \<open>The contract of a collector\<close>

text \<open>
  What the rest of the program relies on: an event has one of the message identifiers of this
  package; a telemetry event carries readings marked as River readings, all located at the
  endpoint or a part of it; a change of a power state names the resource it happened to.
\<close>

definition telemetry_ids :: "string list" where
  "telemetry_ids = [PowerMessageID, VoltageMessageID, EnergyMessageID, CurrentMessageID, TemperatureMessageID, FanMessageID]"

definition located :: "string \<Rightarrow> Sensors \<Rightarrow> bool" where
  "located location s = (case ss_Sensors s of None \<Rightarrow> True
     | Some ps \<Rightarrow> list_all (\<lambda>p. HasPrefix (pl_Location p) location) ps)"

definition river_event :: "string \<Rightarrow> Event \<Rightarrow> bool" where
  "river_event location ev =
     (case ev_Oem ev of
        Some s \<Rightarrow> ev_MessageId ev \<in> set telemetry_ids \<and> ss_TelemetrySource s = ''River'' \<and> located location s
      | None \<Rightarrow> ev_MessageId ev = ResourceMessageID \<and> ev_Context ev = location \<and> ev_OriginOfCondition ev \<noteq> None)"

locale river_collector =
  fixes parse_power :: "string \<Rightarrow> string \<Rightarrow> ('e world, Event list) io"
    and parse_thermal :: "string \<Rightarrow> string \<Rightarrow> ('e world, Event list) io"
  assumes power_events: "parse_power b l w = (Ret evs, w') \<Longrightarrow> list_all (river_event l) evs"
    and thermal_events: "parse_thermal b l w = (Ret evs, w') \<Longrightarrow> list_all (river_event l) evs"
    and power_frame: "keeps (\<lambda>w. w\<lparr>w_ext := e, w_sensors := s\<rparr>) (parse_power b l)"
    and thermal_frame: "keeps (\<lambda>w. w\<lparr>w_ext := e, w_sensors := s\<rparr>) (parse_thermal b l)"
begin

definition events_for :: "TelemetryType \<Rightarrow> string \<Rightarrow> string \<Rightarrow> ('e world, Event list) io" where
  "events_for t b l = (if t = TelemetryTypePower then parse_power b l
     else if t = TelemetryTypeThermal then parse_thermal b l else return [])"

lemma events_for_wellformed: "events_for t b l w = (Ret evs, w') \<Longrightarrow> list_all (river_event l) evs"
  using power_events thermal_events by (auto simp: events_for_def split: if_splits)

lemma events_for_frame: "keeps (\<lambda>w. w\<lparr>w_ext := e, w_sensors := s\<rparr>) (events_for t b l)"
  by (simp add: events_for_def power_frame thermal_frame)

lemma events_for_effects:
  assumes "events_for t b l w = (r, w')"
  shows "\<exists>e s. w' = w\<lparr>w_ext := e, w_sensors := s\<rparr>"
proof -
  from keepsD[OF events_for_frame assms] have "w'\<lparr>w_ext := w_ext w', w_sensors := w_sensors w'\<rparr>
      = w\<lparr>w_ext := w_ext w', w_sensors := w_sensors w'\<rparr>" .
  then have "w' = w\<lparr>w_ext := w_ext w', w_sensors := w_sensors w'\<rparr>" by simp
  then show ?thesis by blast
qed

end

lemma telemetry_ids_simps [simp]:
  "PowerMessageID \<in> set telemetry_ids" "VoltageMessageID \<in> set telemetry_ids" "EnergyMessageID \<in> set telemetry_ids"
  "CurrentMessageID \<in> set telemetry_ids" "TemperatureMessageID \<in> set telemetry_ids" "FanMessageID \<in> set telemetry_ids"
  by (simp_all add: telemetry_ids_def)

lemma sensor_event_ok:
  "i \<in> set telemetry_ids \<Longrightarrow> list_all (\<lambda>p. HasPrefix (pl_Location p) l) ps \<Longrightarrow> river_event l (sensor_event i t ps)"
  by (simp add: river_event_def sensor_event_def located_def)

lemma HasPrefix_refl [simp]: "HasPrefix l l"
  using HasPrefix_append[of l "[]"] by simp

lemma payload_locations [simp]:
  "pl_Location (new_payload t l) = l" "pl_Location (fan_payload t l c f) = l" "pl_Location (temperature_payload t l x) = l"
  "pl_Location (pdu_payload t l c d i r) = l @ ''p0''"
  by (simp_all add: new_payload_def fan_payload_def temperature_payload_def pdu_payload_def)

lemma keeps_nowString_any [frame_rules]: "keeps (\<lambda>w. w\<lparr>w_ext := e, w_sensors := s\<rparr>) (nowString E)"
  by (rule keeps_nowString) simp

lemmas event_simps = list_all_iff sensor_event_ok

text \<open>The events of each collector are of that form.\<close>

lemma power_events_ok:
  "list_all (river_event l) (openbmc_power_events t l p)"
  "list_all (river_event l) (hpe_power_events t t' l p)"
  "list_all (river_event l) (gigabyte_power_events t t' l p)"
  "list_all (river_event l) (openbmc_thermal_events t l h)"
  by (auto simp: openbmc_power_events_def hpe_power_events_def gigabyte_power_events_def
      openbmc_thermal_events_def Let_def sensor_event_ok list_all_iff)

interpretation openbmc: river_collector "openbmc_ParseJSONPowerEvents E" "openbmc_ParseJSONThermalEvents E"
proof unfold_locales
  fix b l w evs w' assume "openbmc_ParseJSONPowerEvents E b l w = (Ret evs, w')"
  then show "list_all (river_event l) evs"
    by (auto simp: openbmc_ParseJSONPowerEvents_def power_events_ok elim!: bindIO_cases split: option.splits)
next
  fix b l w evs w' assume "openbmc_ParseJSONThermalEvents E b l w = (Ret evs, w')"
  then show "list_all (river_event l) evs"
    by (auto simp: openbmc_ParseJSONThermalEvents_def power_events_ok elim!: bindIO_cases split: option.splits)
qed (auto simp: openbmc_ParseJSONPowerEvents_def openbmc_ParseJSONThermalEvents_def intro!: frame_rules)

interpretation hpe: river_collector "hpe_ParseJSONPowerEvents E" "hpe_ParseJSONThermalEvents E"
proof unfold_locales
  fix b l w evs w' assume "hpe_ParseJSONPowerEvents E b l w = (Ret evs, w')"
  then show "list_all (river_event l) evs"
    by (auto simp: hpe_ParseJSONPowerEvents_def power_events_ok elim!: bindIO_cases split: option.splits)
next
  fix b l w evs w' assume "hpe_ParseJSONThermalEvents E b l w = (Ret evs, w')"
  then show "list_all (river_event l) evs"
    by (auto simp: hpe_ParseJSONThermalEvents_def event_simps elim!: bindIO_cases split: option.splits if_splits)
qed (auto simp: hpe_ParseJSONPowerEvents_def hpe_ParseJSONThermalEvents_def intro!: frame_rules)

interpretation gigabyte: river_collector "gigabyte_ParseJSONPowerEvents E" "gigabyte_ParseJSONThermalEvents E"
proof unfold_locales
  fix b l w evs w' assume "gigabyte_ParseJSONPowerEvents E b l w = (Ret evs, w')"
  then show "list_all (river_event l) evs"
    by (auto simp: gigabyte_ParseJSONPowerEvents_def power_events_ok elim!: bindIO_cases split: option.splits)
next
  fix b l w evs w' assume "gigabyte_ParseJSONThermalEvents E b l w = (Ret evs, w')"
  then show "list_all (river_event l) evs"
    by (auto simp: gigabyte_ParseJSONThermalEvents_def event_simps elim!: bindIO_cases split: option.splits if_splits)
qed (auto simp: gigabyte_ParseJSONPowerEvents_def gigabyte_ParseJSONThermalEvents_def intro!: frame_rules)

lemma intel_voltage_locations:
  "intel_voltage_payloads t l vs = Ret ps \<Longrightarrow> list_all (\<lambda>p. HasPrefix (pl_Location p) l) ps"
  by (induction vs arbitrary: ps) (auto split: if_splits)

interpretation intel: river_collector "intel_ParseJSONPowerEvents E" "intel_ParseJSONThermalEvents E"
proof unfold_locales
  fix b l w evs w' assume "intel_ParseJSONPowerEvents E b l w = (Ret evs, w')"
  then show "list_all (river_event l) evs"
    by (auto simp: intel_ParseJSONPowerEvents_def intel_power_events_def Let_def
        elim!: bindIO_cases split: option.splits intro!: sensor_event_ok dest!: intel_voltage_locations)
       (auto simp: list_all_iff)
next
  fix b l w evs w' assume "intel_ParseJSONThermalEvents E b l w = (Ret evs, w')"
  then show "list_all (river_event l) evs"
    by (auto simp: intel_ParseJSONThermalEvents_def event_simps elim!: bindIO_cases split: option.splits)
qed (auto simp: intel_ParseJSONPowerEvents_def intel_ParseJSONThermalEvents_def intro!: frame_rules)

text \<open>The collector for HPE PDUs.\<close>

lemma outlet_events_ok: "list_all (river_event l) (outlet_events t l i outlet)"
  by (simp add: outlet_events_def Let_def sensor_event_ok)

lemma power_state_event_ok: "river_event l (power_state_event t l i st)"
  by (simp add: power_state_event_def river_event_def event_zero_def)

lemma phase_payloads_located: "list_all (\<lambda>p. HasPrefix (pl_Location p) l) (phase_payloads t l c sensors names)"
  by (auto simp: phase_payloads_def list_all_iff)

lemma parseOutlet_ok: "parseOutletPayload E c b l w = (Ret evs, w') \<Longrightarrow> list_all (river_event l) evs"
  using outlet_events_ok power_state_event_ok
  by (auto simp: parseOutletPayload_def thenIO_def Let_def elim!: bindIO_cases split: option.splits if_splits)

lemma parseBranch_ok: "parseBranchPayload E b l w = (Ret evs, w') \<Longrightarrow> list_all (river_event l) evs"
  by (auto simp: parseBranchPayload_def Let_def sensor_event_ok elim!: bindIO_cases split: option.splits if_splits)

lemma parseMain_ok: "parseMainPayload E b l w = (Ret evs, w') \<Longrightarrow> list_all (river_event l) evs"
  by (auto simp: parseMainPayload_def sensor_event_ok phase_payloads_located elim!: bindIO_cases split: option.splits)

interpretation hpepdu: river_collector "hpepdu_ParseJSONPowerEvents E c" hpepdu_ParseJSONThermalEvents
proof unfold_locales
  fix b l w evs w' assume "hpepdu_ParseJSONPowerEvents E c b l w = (Ret evs, w')"
  then show "list_all (river_event l) evs"
    by (auto simp: hpepdu_ParseJSONPowerEvents_def elim!: bindIO_cases split: option.splits json.splits if_splits
        dest: parseOutlet_ok parseBranch_ok parseMain_ok)
next
  fix e s b l
  have "keeps (\<lambda>w. w\<lparr>w_ext := e, w_sensors := s\<rparr>) (parseOutletPayload E c b l)"
    unfolding parseOutletPayload_def Let_def by (intro frame_rules) simp
  moreover have "keeps (\<lambda>w. w\<lparr>w_ext := e, w_sensors := s\<rparr>) (parseBranchPayload E b l)"
    unfolding parseBranchPayload_def Let_def by (intro frame_rules) simp
  moreover have "keeps (\<lambda>w. w\<lparr>w_ext := e, w_sensors := s\<rparr>) (parseMainPayload E b l)"
    unfolding parseMainPayload_def by (intro frame_rules) simp_all
  ultimately show "keeps (\<lambda>w. w\<lparr>w_ext := e, w_sensors := s\<rparr>) (hpepdu_ParseJSONPowerEvents E c b l)"
    by (auto simp: hpepdu_ParseJSONPowerEvents_def split: option.splits json.splits)
qed (auto simp: hpepdu_ParseJSONThermalEvents_def)

text \<open>A call through the interface keeps the contract whatever the collector.\<close>

interpretation dispatch: river_collector "ParseJSONPowerEvents E c" "ParseJSONThermalEvents E c"
  by (cases c; simp add: ParseJSONPowerEvents_def ParseJSONThermalEvents_def;
      rule gigabyte.river_collector_axioms intel.river_collector_axioms hpe.river_collector_axioms
        openbmc.river_collector_axioms hpepdu.river_collector_axioms)

lemma GetEventsForPayload_events_for:
  "GetEventsForPayload E c b ep t = dispatch.events_for E c t b (ep_ID ep)"
  by (simp add: GetEventsForPayload_def dispatch.events_for_def)

section \<open>Indices\<close>

lemma member_index_sint: "sint (member_index m) = int (fst (ParseUint m 8))"
proof -
  have "fst (ParseUint m 8) \<le> 255" using ParseUint_bound[of m 8] by simp
  then show ?thesis
    unfolding member_index_def by (simp add: signed_of_nat signed_take_bit_int_eq_self)
qed

lemma member_index_range: "sint (member_index m) \<in> {0..255}"
  using ParseUint_bound[of m 8] by (simp add: member_index_sint)

text \<open>The readings of an event and their indices; a reading may have none.\<close>

definition event_payloads :: "Event \<Rightarrow> CrayJSONPayload list" where
  "event_payloads ev = (case ev_Oem ev of None \<Rightarrow> [] | Some s \<Rightarrow> (case ss_Sensors s of None \<Rightarrow> [] | Some ps \<Rightarrow> ps))"

definition event_indices :: "Event \<Rightarrow> int16 list" where
  "event_indices ev = map the (filter (\<lambda>i. i \<noteq> None) (map pl_Index (event_payloads ev)))"

definition byte_index :: "CrayJSONPayload \<Rightarrow> bool" where
  "byte_index p \<longleftrightarrow> (case pl_Index p of None \<Rightarrow> True | Some i \<Rightarrow> sint i \<in> {0..255})"

definition byte_indices :: "Event list \<Rightarrow> bool" where
  "byte_indices evs \<longleftrightarrow> (\<forall>ev \<in> set evs. \<forall>p \<in> set (event_payloads ev). byte_index p)"

lemma event_payloads_sensor [simp]: "event_payloads (sensor_event m t ps) = ps"
  by (simp add: event_payloads_def sensor_event_def)

lemma event_payloads_state [simp]: "event_payloads (power_state_event t l i s) = []"
  by (simp add: event_payloads_def power_state_event_def event_zero_def)

lemma byte_indices_list:
  "byte_indices []" "byte_indices (e # evs) \<longleftrightarrow> (\<forall>p \<in> set (event_payloads e). byte_index p) \<and> byte_indices evs"
  "byte_indices (evs @ evs') \<longleftrightarrow> byte_indices evs \<and> byte_indices evs'"
  by (auto simp: byte_indices_def)

lemma byte_indices_range: "byte_indices evs \<Longrightarrow> ev \<in> set evs \<Longrightarrow> i \<in> set (event_indices ev) \<Longrightarrow> 0 \<le> sint i \<and> sint i \<le> 255"
  by (fastforce simp: byte_indices_def byte_index_def event_indices_def)

lemma byte_index_payloads [simp]:
  "byte_index (fan_payload t l c f)" "byte_index (temperature_payload t l x)"
  "byte_index (pdu_payload t l c d i r) \<longleftrightarrow> sint i \<in> {0..255}"
  using member_index_range by (simp_all add: byte_index_def fan_payload_def temperature_payload_def pdu_payload_def)

lemmas index_simps = byte_indices_list byte_index_def new_payload_def payload_zero_def
  member_index_range[simplified]

lemma power_events_indices:
  "byte_indices (openbmc_power_events t l p)" "byte_indices (hpe_power_events t t' l p)"
  "byte_indices (gigabyte_power_events t t' l p)" "byte_indices (openbmc_thermal_events t l h)"
  by (simp_all add: openbmc_power_events_def hpe_power_events_def gigabyte_power_events_def
      openbmc_thermal_events_def Let_def byte_indices_list)
     (simp_all add: index_simps)

lemma intel_voltage_indices:
  "intel_voltage_payloads t l vs = Ret ps \<Longrightarrow> \<forall>p \<in> set ps. byte_index p"
  by (induction vs arbitrary: ps) (auto simp: index_simps split: if_splits)

lemma intel_events_indices: "intel_power_events t t' l p = Ret evs \<Longrightarrow> byte_indices evs"
  using intel_voltage_indices by (auto simp: intel_power_events_def Let_def byte_indices_list) (simp add: index_simps)+

lemma intel_thermal_index:
  "byte_index ((new_payload t l)\<lparr>pl_ParentalIndex := Some 0, pl_PhysicalContext := c, pl_Value := v, pl_DeviceSpecificContext := d\<rparr>)"
  by (simp add: index_simps)

lemma bmc_indices:
  assumes "GetEventsForPayload E collector b ep t w = (Ret evs, w')" "\<And>c. collector \<noteq> HPEPDURiverCollector c"
  shows "byte_indices evs"
  using assms power_events_indices intel_events_indices
  by (cases collector)
     (auto simp: GetEventsForPayload_def ParseJSONPowerEvents_def ParseJSONThermalEvents_def
        openbmc_ParseJSONPowerEvents_def openbmc_ParseJSONThermalEvents_def hpe_ParseJSONPowerEvents_def
        hpe_ParseJSONThermalEvents_def intel_ParseJSONPowerEvents_def intel_ParseJSONThermalEvents_def
        gigabyte_ParseJSONPowerEvents_def gigabyte_ParseJSONThermalEvents_def byte_indices_list intel_thermal_index
        elim!: bindIO_cases split: if_splits option.splits)

text \<open>The readings of a PDU: an outlet, a branch and the mains.\<close>

lemma fields_acc_nonempty: "[] \<notin> set (fields_acc f acc s)"
  by (induction f acc s rule: fields_acc.induct) auto

lemma last_Fields: "Fields s \<noteq> [] \<Longrightarrow> last (Fields s) \<noteq> []"
  using fields_acc_nonempty[of isSpace "[]" s] last_in_set[of "Fields s"] unfolding Fields_def FieldsFunc_def by metis

lemma outlet_indices: "parseOutletPayload E c b l w = (Ret evs, w') \<Longrightarrow> byte_indices evs"
proof -
  have "byte_indices (outlet_events t l (word_of_nat (fst (ParseUint m 8))) outlet)" for t m outlet
    using member_index_range[of m] by (simp add: outlet_events_def Let_def byte_indices_list member_index_def)
  then show "parseOutletPayload E c b l w = (Ret evs, w') \<Longrightarrow> byte_indices evs"
    by (auto simp: parseOutletPayload_def thenIO_def Let_def byte_indices_list elim!: bindIO_cases split: option.splits if_splits)
qed

lemma event_indices_simps [simp]:
  "event_indices (sensor_event m t [(pdu_payload t' l c d i r)\<lparr>pl_DeviceSpecificContext := x\<rparr>]) = [i]"
  by (simp add: event_indices_def pdu_payload_def)

lemma byte_less_64:
  assumes "n < 256"
  shows "sint (word_of_nat n - 64 :: int16) = int n - 64"
proof -
  have eq: "word_of_nat n - 64 = (word_of_int (int n - 64) :: int16)" by simp
  have "signed_take_bit 15 (int n - 64) = int n - 64"
    using assms by (intro signed_take_bit_int_eq_self) simp_all
  then show ?thesis by (simp only: eq sint_sbintrunc') simp
qed

lemma branch_index: "sint (word_of_nat (of_char x) - 64 :: int16) = int (of_char x) - 64"
  by (rule byte_less_64[OF of_char_less])

lemma branch_indices:
  assumes "parseBranchPayload E b l w = (Ret evs, w')"
  shows "evs = [] \<or> (\<exists>branch x xs i. Unmarshal_Circuit b = Some branch \<and> last (Fields (ci_Name branch)) = x # xs
     \<and> map event_indices evs = [[i], [i]] \<and> sint i = int (of_char x) - 64)"
proof (cases "Unmarshal_Circuit b")
  case None
  with assms show ?thesis by (auto simp: parseBranchPayload_def elim!: bindIO_cases)
next
  case (Some branch)
  show ?thesis
  proof (cases "last (Fields (ci_Name branch))")
    case Nil
    with assms Some last_Fields show ?thesis
      by (auto simp: parseBranchPayload_def Let_def elim!: bindIO_cases split: if_splits)
  next
    case (Cons x xs)
    with assms Some have "map event_indices evs = [[word_of_nat (of_char x) - 64], [word_of_nat (of_char x) - 64]]"
      by (auto simp: parseBranchPayload_def Let_def elim!: bindIO_cases split: if_splits)
    with Some Cons branch_index[of x] show ?thesis
      by (intro disjI2 exI[of _ branch] exI[of _ x] exI[of _ xs] exI[of _ "word_of_nat (of_char x) - 64"]) simp
  qed
qed

lemma phase_indices:
  "event_indices (sensor_event m t (phase_payloads t' l c sensors names)) = map word_of_nat [0..<length names]"
  by (rule nth_equalityI)
     (simp_all add: event_indices_def phase_payloads_def pdu_payload_def comp_def case_prod_unfold nth_enumerate_eq)

lemma main_indices:
  "parseMainPayload E b l w = (Ret evs, w') \<Longrightarrow> ev \<in> set evs \<Longrightarrow>
     event_indices ev = map word_of_nat [0..<length (event_indices ev)]"
  by (auto simp: parseMainPayload_def phase_indices elim!: bindIO_cases split: option.splits)

lemma index_of_phase: "n < 32768 \<Longrightarrow> sint (word_of_nat n :: int16) = int n"
  by (simp add: signed_of_nat signed_take_bit_int_eq_self)

lemma pdu_events:
  assumes "GetEventsForPayload E (HPEPDURiverCollector c) b ep t w = (Ret evs, w')"
  shows "evs = [] \<or> parseOutletPayload E c b (ep_ID ep) w = (Ret evs, w')
    \<or> parseBranchPayload E b (ep_ID ep) w = (Ret evs, w') \<or> parseMainPayload E b (ep_ID ep) w = (Ret evs, w')"
  using assms
  by (auto simp: GetEventsForPayload_def ParseJSONPowerEvents_def ParseJSONThermalEvents_def hpepdu_ParseJSONThermalEvents_def
      hpepdu_ParseJSONPowerEvents_def split: if_splits option.splits json.splits)

section \<open>Changes of power states\<close>

definition reports_change :: "Event list \<Rightarrow> bool" where
  "reports_change = list_ex (\<lambda>ev. ev_MessageId ev = ResourceMessageID)"

lemma outlet_events_no_change: "\<not> reports_change (outlet_events t l i outlet)"
  by (simp add: reports_change_def outlet_events_def Let_def sensor_event_def ResourceMessageID_def PowerMessageID_def
      CurrentMessageID_def VoltageMessageID_def EnergyMessageID_def MessageRegistryName_def)

lemma reports_change_append [simp]:
  "reports_change (evs @ [power_state_event t l i st])"
  by (simp add: reports_change_def power_state_event_def)

text \<open>The outcome of parsing an outlet that decodes: which events, and which power state is remembered.\<close>

lemma parseOutlet_result:
  assumes "parseOutletPayload E c b l w = (Ret evs, w')" "Unmarshal_Outlet b = Some outlet"
  shows "reports_change evs \<longleftrightarrow>
           (\<exists>st. map_of (w_sensors w c) (rid_Oid (ol_Links outlet)) = Some st \<and> st \<noteq> ol_PowerState outlet)"
    and "map_of (w_sensors w' c) (rid_Oid (ol_Links outlet)) \<in> {None, Some (ol_PowerState outlet)}"
    and "\<not> reports_change evs \<Longrightarrow> w_sensors w' = w_sensors w"
  using assms outlet_events_no_change
  by (auto simp: parseOutletPayload_def nowString_def thenIO_def Let_def elim!: bindIO_cases
      split: option.splits if_splits)

section \<open>Properties\<close>

text \<open>
  C10: whatever a polled endpoint answers, every event a collector derives from it has one of the
  seven message identifiers of the package, carries readings located at the endpoint (or the
  resource whose power state changed), and the parsing changes nothing of the state but the outside
  world and the remembered power states.
\<close>

theorem river_events_wellformed:
  assumes "GetEventsForPayload E collector payloadBytes endpoint t w = (r, w')"
  shows "(\<forall>evs. r = Ret evs \<longrightarrow> list_all (river_event (ep_ID endpoint)) evs)
       \<and> (\<exists>e s. w' = w\<lparr>w_ext := e, w_sensors := s\<rparr>)"
  using assms dispatch.events_for_wellformed dispatch.events_for_effects
  unfolding GetEventsForPayload_events_for by metis

lemma intel_events:
  "(case GetEventsForPayload env0 IntelRiverCollector ''{}'' (ep_zero\<lparr>ep_ID := ''x1''\<rparr>) ''Thermal'' (world0 ()) of
      (Ret evs, w') \<Rightarrow> map ev_MessageId evs = [''CrayTelemetry.Temperature''] | _ \<Rightarrow> False)"
  by code_simp

theorem river_events_wellformed_witness:
  "(case fst (GetEventsForPayload env0 IntelRiverCollector ''{}'' (ep_zero\<lparr>ep_ID := ''x1''\<rparr>) ''Thermal'' (world0 ())) of
      Ret evs \<Rightarrow> list_all (river_event ''x1'') evs \<and> map ev_MessageId evs = [''CrayTelemetry.Temperature''] | _ \<Rightarrow> False)"
  using river_events_wellformed[OF prod.collapse[symmetric], of env0 IntelRiverCollector "''{}''"
      "ep_zero\<lparr>ep_ID := ''x1''\<rparr>" "''Thermal''" "world0 ()"] intel_events
  by (auto split: prod.splits res.splits)


text \<open>A branch named by a letter, and one named by a digit.\<close>

lemma branch_names:
  "Unmarshal_Circuit ''{\"Name\":\"Branch A\"}'' = Some (ci_zero\<lparr>ci_Name := ''Branch A''\<rparr>)"
  "Unmarshal_Circuit ''{\"Name\":\"Branch 1\"}'' = Some (ci_zero\<lparr>ci_Name := ''Branch 1''\<rparr>)"
  "last (Fields ''Branch A'') = ''A''" "last (Fields ''Branch 1'') = ''1''"
  by code_simp+

definition branch_endpoint :: RedfishEPDescription where
  "branch_endpoint = ep_zero\<lparr>ep_ID := ''x1''\<rparr>"

lemma branch_events:
  "map (map sint) (map event_indices (case fst (GetEventsForPayload env0 (HPEPDURiverCollector 0)
     ''{\"Name\":\"Branch 1\"}'' branch_endpoint ''Power'' (world0 ())) of Ret evs \<Rightarrow> evs)) = [[-15], [-15]]"
  by code_simp

lemma branch_returns:
  "is_Ret (fst (GetEventsForPayload env0 (HPEPDURiverCollector 0) ''{\"Name\":\"Branch 1\"}'' branch_endpoint ''Power'' (world0 ())))"
  by code_simp


text \<open>
  C9: a PDU outlet's change of power state is reported once. Parsing the reading of an outlet reports
  a change exactly when the outlet is tracked with another power state; afterwards its new power
  state is the one remembered, so that the same reading parsed again reports nothing and leaves the
  remembered states as they are.
\<close>

theorem outlet_change_reported_once:
  assumes "parseOutletPayload E c b l w = (Ret evs, w')" "Unmarshal_Outlet b = Some outlet"
    and "w_sensors v = w_sensors w'" "parseOutletPayload E c b l v = (Ret evs', v')"
  shows "(reports_change evs \<longleftrightarrow>
           (\<exists>st. map_of (w_sensors w c) (rid_Oid (ol_Links outlet)) = Some st \<and> st \<noteq> ol_PowerState outlet))
       \<and> \<not> reports_change evs' \<and> w_sensors v' = w_sensors w'"
proof -
  note first = parseOutlet_result[OF assms(1,2)]
  have quiet: "\<not> reports_change evs'"
    using first(2) parseOutlet_result(1)[OF assms(4,2)] unfolding assms(3) by fastforce
  with parseOutlet_result(3)[OF assms(4,2)] assms(3) have "w_sensors v' = w_sensors w'" by metis
  with first(1) quiet show ?thesis by blast
qed

definition outlet_reading :: string where
  "outlet_reading = ''{\"Name\":\"Outlet 3\",\"PowerState\":\"On\",\"Links\":{\"@odata.id\":\"/Outlets/3\"}}''"

definition outlet_world :: "unit world" where
  "outlet_world = (world0 ())\<lparr>w_sensors := (\<lambda>_. [(''/Outlets/3'', ''Off'')])\<rparr>"

lemma outlet_parsed:
  "Unmarshal_Outlet outlet_reading =
     Some (ol_zero\<lparr>ol_PowerState := ''On'', ol_Links := \<lparr>rid_Oid = ''/Outlets/3''\<rparr>\<rparr>)"
  by code_simp

lemma outlet_returns:
  "is_Ret (fst (parseOutletPayload env0 0 outlet_reading ''x1'' w))"
proof -
  have "FieldsFunc ''/Outlets/3'' (\<lambda>ch. \<not> isDigit ch) = [''3'']" by code_simp
  with outlet_parsed show ?thesis
    by (simp add: parseOutletPayload_def nowString_def Let_def thenIO_def bindIO_def split: option.splits)
qed

theorem outlet_change_reported_once_witness:
  "\<exists>evs w' evs' v'. parseOutletPayload env0 0 outlet_reading ''x1'' outlet_world = (Ret evs, w') \<and> reports_change evs
     \<and> parseOutletPayload env0 0 outlet_reading ''x1'' w' = (Ret evs', v') \<and> \<not> reports_change evs'"
proof -
  obtain evs w' where 1: "parseOutletPayload env0 0 outlet_reading ''x1'' outlet_world = (Ret evs, w')"
    using outlet_returns[of outlet_world] by (metis is_Ret_iff prod.collapse)
  obtain evs' v' where 2: "parseOutletPayload env0 0 outlet_reading ''x1'' w' = (Ret evs', v')"
    using outlet_returns[of w'] by (metis is_Ret_iff prod.collapse)
  from outlet_change_reported_once[OF 1 outlet_parsed refl 2] 1 2 show ?thesis
    by (auto simp: outlet_world_def)
qed

text \<open>
  C33: the numbering of the phases of a PDU does not depend on the order in which the run-time system
  visits a map. Whatever two orders the iterations use, as long as each visits every key once, the
  events of a mains reading are the same.
\<close>

theorem mains_order_independent:
  assumes "\<And>ks e. mset (fst (f ks e)) = mset ks" "\<And>ks e. mset (fst (g ks e)) = mset ks"
  shows "fst (parseMainPayload (E\<lparr>env_range := f\<rparr>) b l w) = fst (parseMainPayload (E\<lparr>env_range := g\<rparr>) b l w)"
proof -
  have "sort (fst (f ks e)) = sort (fst (g ks e'))" for ks e e'
    using assms by (metis sorted_list_of_multiset_mset)
  then show ?thesis
    by (simp add: parseMainPayload_def nowString_def bindIO_def phase_payloads_def split: option.splits)
       (metis (no_types, lifting))
qed

theorem mains_order_independent_witness:
  "fst (parseMainPayload ((env0 :: unit env)\<lparr>env_range := (\<lambda>ks e. (ks, e))\<rparr>) ''{}'' ''x1'' (world0 ())) =
   fst (parseMainPayload ((env0 :: unit env)\<lparr>env_range := (\<lambda>ks e. (rev ks, e))\<rparr>) ''{}'' ''x1'' (world0 ()))"
  by (rule mains_order_independent) simp_all

text \<open>
  C40: the collector for Intel BMCs panics on a power reading exactly when the reading decodes and
  the name of one of its voltages is shorter than the three bytes that are cut off it.
\<close>

theorem intel_power_panics:
  "fst (intel_ParseJSONPowerEvents E b l w) = Panic q \<longleftrightarrow>
     q = SliceOutOfRange \<and> (\<exists>pwr. Unmarshal_Power b = Some pwr \<and> list_ex (\<lambda>v. length (vt_Name v) < 3) (pw_Voltages pwr))"
proof -
  have "intel_voltage_payloads t l vs = Panic q \<longleftrightarrow> q = SliceOutOfRange \<and> list_ex (\<lambda>v. length (vt_Name v) < 3) vs" for t vs
  proof (induction vs)
    case (Cons v vs)
    then show ?case by (cases "intel_voltage_payloads t l vs") auto
  qed simp
  moreover have "bind_res r (\<lambda>x. Ret (h x)) = Panic q \<longleftrightarrow> r = Panic q" for r :: "CrayJSONPayload list res" and h :: "CrayJSONPayload list \<Rightarrow> Event list"
    by (cases r) auto
  ultimately show ?thesis
    by (simp add: intel_ParseJSONPowerEvents_def intel_power_events_def nowString_def bindIO_def Let_def
        split: option.splits)
qed

end
