(* ===== verification/Polling.thy ===== *)
theory Polling
  imports River Kafka RfType
begin

text \<open>
  Polling of River endpoints, \<^verbatim>\<open>cmd/hmcollector/polling.go\<close>: the classification of new endpoints
  (\<^verbatim>\<open>monitorPollingEndpoints\<close>), the collection of readings from one endpoint (the body of
  \<^verbatim>\<open>collectData\<close>) and the publication of one payload (the body of \<^verbatim>\<open>processData\<close>). The channel of payloads
  is a queue of the shared state.
\<close>

section \<open>Collecting\<close>

definition polling_topic :: "string \<Rightarrow> string option" where
  "polling_topic messageId =
     (if messageId = CurrentMessageID \<or> messageId = PowerMessageID then Some ''cray-telemetry-power''
      else if messageId = VoltageMessageID then Some ''cray-telemetry-voltage''
      else if messageId = EnergyMessageID then Some ''cray-telemetry-energy''
      else if messageId = TemperatureMessageID then Some ''cray-telemetry-temperature''
      else if messageId = FanMessageID then Some ''cray-telemetry-fan''
      else if messageId = ResourceMessageID then Some ''cray-dmtf-resource-event''
      else None)"

definition event_payload :: "string \<Rightarrow> Event \<Rightarrow> string" where
  "event_payload context event = Marshal_events (events_zero\<lparr>evs_Context := context, evs_Events := [event]\<rparr>)"

definition queue_event :: "string \<Rightarrow> Event \<Rightarrow> ('e world, unit) io" where
  "queue_event context event =
     (let finalEventsString = event_payload context event
      in if finalEventsString = [] then return ()
         else case polling_topic (ev_MessageId event) of
                None \<Rightarrow> return ()
              | Some topic \<Rightarrow> modifyIO (\<lambda>w. w\<lparr>w_jsonPayloads := w_jsonPayloads w @
                  [\<lparr> jp_context = context, jp_messageId = ev_MessageId event, jp_payload = finalEventsString,
                     jp_topic = topic \<rparr>]\<rparr>))"

definition contacted :: "'e env \<Rightarrow> EndpointWithCollector \<Rightarrow> ('e world, unit) io" where
  "contacted E endpoint =
     bindIO (extIO (env_Now E)) (\<lambda>now.
     modifyIO (\<lambda>w. w\<lparr>w_lastContacted := (w_lastContacted w)(ec_LastContacted endpoint := now)\<rparr>))"

definition collect_url :: "'e env \<Rightarrow> EndpointWithCollector \<Rightarrow> TelemetryType \<Rightarrow> string \<Rightarrow> ('e world, unit) io" where
  "collect_url E endpoint telemetryType fullURL =
     bindIO (doHTTPAction E (ec_Endpoint endpoint) ''GET'' fullURL None) (\<lambda>(payloadBytes, statusCode, err).
     if err \<noteq> None then return ()
     else
       thenIO (contacted E endpoint)
       (bindIO (readEp (ec_Endpoint endpoint)) (\<lambda>ep.
       bindIO (GetEventsForPayload E (ec_RiverCollector endpoint) payloadBytes ep telemetryType)
         (forIO (queue_event (ep_ID ep))))))"

definition telemetryTypes :: "TelemetryType list" where
  "telemetryTypes = [TelemetryTypePower, TelemetryTypeThermal]"

definition collect_type :: "'e env \<Rightarrow> EndpointWithCollector \<Rightarrow> TelemetryType \<Rightarrow> ('e world, unit) io" where
  "collect_type E endpoint telemetryType =
     bindIO (readEp (ec_Endpoint endpoint)) (\<lambda>ep.
     bindIO (GetPayloadURLForTelemetryType E (ec_RiverCollector endpoint) ep telemetryType)
       (forIO (collect_url E endpoint telemetryType)))"

definition collectData :: "'e env \<Rightarrow> EndpointWithCollector \<Rightarrow> ('e world, unit) io" where
  "collectData E endpoint =
     bindIO (getsIO w_smaOK) (\<lambda>smaOK.
     if \<not> smaOK then return ()
     else
       bindIO (readEp (ec_Endpoint endpoint)) (\<lambda>ep.
       bindIO (if GetHMSType (ep_ID ep) = CabinetPDUController
               then bindIO (extIO (env_Now E)) (\<lambda>now.
                    getsIO (\<lambda>w. now - w_lastContacted w (ec_LastContacted endpoint) < 1000000000 * pduPollingInterval E))
               else return False) (\<lambda>tooSoon.
       if tooSoon then return () else forIO (collect_type E endpoint) telemetryTypes)))"

section \<open>Publishing\<close>

definition processData :: "'e env \<Rightarrow> ('e world, unit) io" where
  "processData E =
     bindIO (getsIO w_jsonPayloads) (\<lambda>q.
     case q of
       [] \<Rightarrow> return ()
     | payload # rest \<Rightarrow>
         thenIO (modifyIO (\<lambda>w. w\<lparr>w_jsonPayloads := rest\<rparr>))
         (writeToKafka E (jp_topic payload) (jp_payload payload)
            (Some (jp_context payload @ ''.'' @ jp_messageId payload))))"

section \<open>Classifying endpoints\<close>

text \<open>
  One question about the model: \<open>None\<close> when the answer does not decode, which ends the
  classification; otherwise the new model, or the one known so far.
\<close>

definition probe_model :: "'e env \<Rightarrow> nat \<Rightarrow> string \<Rightarrow> string \<Rightarrow> ('e world, string option) io" where
  "probe_model E p fullURL model =
     bindIO (doHTTPAction E p ''GET'' fullURL None) (\<lambda>(payloadBytes, statusCode, err).
     if err = None \<and> statusCode = 200 then return (Unmarshal_Model payloadBytes) else return (Some model))"

definition classify_model :: "string \<Rightarrow> RiverCollector option" where
  "classify_model model =
     (if HasPrefix model ''R272'' \<or> HasPrefix model ''R282'' \<or> HasPrefix model ''H262'' then Some GigabyteRiverCollector
      else if model = ''S2600BPB'' \<or> model = ''S2600WFT'' then Some IntelRiverCollector
      else if HasPrefix model ''ProLiant'' then Some HPERiverCollector
      else if isOpenBmcModel model then Some OpenBMCRiverCollector
      else None)"

definition bmc_paths :: "string list" where
  "bmc_paths = [''/redfish/v1/Systems/Self'', ''/redfish/v1/Chassis/RackMount/Baseboard'',
     ''/redfish/v1/Chassis/1'', ''/redfish/v1/Chassis/BMC_0'']"

primrec probe_models :: "'e env \<Rightarrow> nat \<Rightarrow> string list \<Rightarrow> string \<Rightarrow> ('e world, string option) io" where
  "probe_models E p [] model = return (Some model)"
| "probe_models E p (path # paths) model =
     bindIO (readEp p) (\<lambda>endpoint.
     bindIO (probe_model E p (''https://'' @ ep_FQDN endpoint @ path) model) (\<lambda>r.
     case r of None \<Rightarrow> return None | Some model' \<Rightarrow> probe_models E p paths model'))"

text \<open>The outcome of a classification: given up, nothing found, or a collector and the model.\<close>

datatype classification = GivenUp | NotPolled | Polled RiverCollector string

definition classify_bmc :: "'e env \<Rightarrow> nat \<Rightarrow> ('e world, classification) io" where
  "classify_bmc E p =
     bindIO (probe_models E p bmc_paths []) (\<lambda>r.
     case r of
       None \<Rightarrow> return GivenUp
     | Some model \<Rightarrow>
         (case classify_model model of
            None \<Rightarrow> return NotPolled
          | Some collector \<Rightarrow> return (Polled collector model)))"

text \<open>The resources of one of the three collections of a PDU; \<open>None\<close> when the answer does not decode.\<close>

definition pdu_resources :: "'e env \<Rightarrow> nat \<Rightarrow> string \<Rightarrow> string \<Rightarrow> ('e world, string list option) io" where
  "pdu_resources E p oid name =
     bindIO (readEp p) (\<lambda>endpoint.
     bindIO (doHTTPAction E p ''GET'' (''https://'' @ ep_FQDN endpoint @ oid) None) (\<lambda>(payloadBytes, statusCode, err).
     if err = None \<and> statusCode = 200
     then return (map_option (map rid_Oid) (Unmarshal_members name payloadBytes))
     else return (Some [])))"

definition allocSensors :: "(string \<times> string) list \<Rightarrow> ('e world, nat) io" where
  "allocSensors m =
     bindIO (getsIO w_nextObj) (\<lambda>c.
     thenIO (modifyIO (\<lambda>w. w\<lparr>w_sensors := (w_sensors w)(c := m), w_nextObj := Suc c\<rparr>)) (return c))"

definition sensor_map :: "string list \<Rightarrow> (string \<times> string) list" where
  "sensor_map oids = foldl (\<lambda>m oid. put_key oid [] m) [] oids"

definition classify_pdu :: "'e env \<Rightarrow> nat \<Rightarrow> ('e world, classification) io" where
  "classify_pdu E p =
     bindIO (readEp p) (\<lambda>endpoint.
     bindIO (doHTTPAction E p ''GET'' (''https://'' @ ep_FQDN endpoint @ ''/redfish/v1/PowerEquipment/RackPDUs/1'') None)
     (\<lambda>(payloadBytes, statusCode, err).
     case (if err = None \<and> statusCode = 200 then Unmarshal_RackPDU payloadBytes else Some pdu_zero) of
       None \<Rightarrow> return GivenUp
     | Some pdu \<Rightarrow>
         if ToLower (pdu_Manufacturer pdu) = ''cis'' then
           bindIO (pdu_resources E p (rid_Oid (pdu_Outlets pdu)) ''Outlets'') (\<lambda>outlets.
           case outlets of None \<Rightarrow> return GivenUp | Some os \<Rightarrow>
           bindIO (pdu_resources E p (rid_Oid (pdu_Branches pdu)) ''Branch'') (\<lambda>branches.
           case branches of None \<Rightarrow> return GivenUp | Some bs \<Rightarrow>
           bindIO (pdu_resources E p (rid_Oid (pdu_Mains pdu)) ''Members'') (\<lambda>mains.
           case mains of None \<Rightarrow> return GivenUp | Some ms \<Rightarrow>
           bindIO (allocSensors (sensor_map (os @ bs @ ms))) (\<lambda>c.
           return (Polled (HPEPDURiverCollector c) (pdu_Manufacturer pdu))))))
         else return NotPolled))"

definition classify :: "'e env \<Rightarrow> nat \<Rightarrow> ('e world, classification) io" where
  "classify E p =
     bindIO (readEp p) (\<lambda>endpoint.
     if GetHMSType (ep_ID endpoint) = CabinetPDUController then classify_pdu E p else classify_bmc E p)"

text \<open>A fresh cell for the time of the last contact.\<close>

definition allocTime :: "'e env \<Rightarrow> ('e world, nat) io" where
  "allocTime E =
     bindIO (getsIO w_nextObj) (\<lambda>t.
     bindIO (extIO (env_Now E)) (\<lambda>now.
     thenIO (modifyIO (\<lambda>w. w\<lparr>w_lastContacted := (w_lastContacted w)(t := now), w_nextObj := Suc t\<rparr>)) (return t)))"

text \<open>Whether the endpoint is polled or ignored already, and what is done with a new one.\<close>

definition is_seen :: "nat \<Rightarrow> 'e world \<Rightarrow> bool" where
  "is_seen p w \<longleftrightarrow>
     list_ex (\<lambda>k. ep_ID (w_ep w p) = ep_ID (w_ep w (ec_Endpoint k))) (w_endpoints w)
     \<or> list_ex (\<lambda>q. ep_ID (w_ep w p) = ep_ID (w_ep w q)) (w_nonPolledEndpoints w)"

definition add_endpoint :: "'e env \<Rightarrow> nat \<Rightarrow> classification \<Rightarrow> ('e world, unit) io" where
  "add_endpoint E p c =
     (case c of
        GivenUp \<Rightarrow> return ()
      | NotPolled \<Rightarrow> modifyIO (\<lambda>w. w\<lparr>w_nonPolledEndpoints := w_nonPolledEndpoints w @ [p]\<rparr>)
      | Polled collector model \<Rightarrow>
          bindIO (allocTime E) (\<lambda>t.
          modifyIO (\<lambda>w. w\<lparr>w_endpoints := w_endpoints w @
            [\<lparr> ec_Endpoint = p, ec_RiverCollector = collector, ec_LastContacted = t, ec_Model = model \<rparr>]\<rparr>)))"

definition monitor_endpoint :: "'e env \<Rightarrow> nat \<Rightarrow> ('e world, unit) io" where
  "monitor_endpoint E p =
     bindIO (getsIO (is_seen p)) (\<lambda>seen.
     if seen then return () else bindIO (classify E p) (add_endpoint E p))"

text \<open>One pass of \<^verbatim>\<open>monitorPollingEndpoints\<close> over a snapshot of the State Manager's endpoints.\<close>

definition monitorPollingEndpoints :: "'e env \<Rightarrow> ('e world, unit) io" where
  "monitorPollingEndpoints E =
     bindIO (getsIO w_HSMEndpoints) (\<lambda>snapshot.
     bindIO (extIO (env_range E (map fst snapshot))) (\<lambda>order.
     forIO (\<lambda>i. case map_of snapshot i of None \<Rightarrow> return () | Some p \<Rightarrow> monitor_endpoint E p) order))"

section \<open>Asking for the model\<close>

lemma probe_models_append:
  "probe_models E p ps m w = (Ret (Some m'), w') \<Longrightarrow> probe_models E p (ps @ qs) m w = probe_models E p qs m' w'"
proof (induction ps arbitrary: m w)
  case (Cons path ps)
  from Cons.prems show ?case
    by (auto simp: bindIO_eq_Ret bindIO_Ret Cons.IH split: option.splits)
qed simp

section \<open>Every event has a topic\<close>

definition payload_of :: "string \<Rightarrow> Event \<Rightarrow> jsonPayload" where
  "payload_of context event = \<lparr> jp_context = context, jp_messageId = ev_MessageId event,
     jp_payload = event_payload context event,
     jp_topic = (case polling_topic (ev_MessageId event) of None \<Rightarrow> [] | Some t \<Rightarrow> t) \<rparr>"

lemma event_payload_not_Nil: "event_payload context event \<noteq> []"
  by (simp add: event_payload_def Marshal_events_def enc_events_def)

lemma polling_topic_total: "i \<in> set (ResourceMessageID # telemetry_ids) \<Longrightarrow> polling_topic i \<noteq> None"
  by (auto simp: polling_topic_def telemetry_ids_def)

lemma river_event_topic: "river_event l ev \<Longrightarrow> polling_topic (ev_MessageId ev) \<noteq> None"
  by (rule polling_topic_total) (auto simp: river_event_def split: option.splits)

lemma queue_event_run:
  "river_event l ev \<Longrightarrow> queue_event c ev w = (Ret (), w\<lparr>w_jsonPayloads := w_jsonPayloads w @ [payload_of c ev]\<rparr>)"
  using river_event_topic[of l ev] event_payload_not_Nil[of c ev]
  by (auto simp: queue_event_def payload_of_def Let_def)

lemma queue_events_run:
  "list_all (river_event l) evs \<Longrightarrow>
     forIO (queue_event c) evs w = (Ret (), w\<lparr>w_jsonPayloads := w_jsonPayloads w @ map (payload_of c) evs\<rparr>)"
proof (induction evs arbitrary: w)
  case (Cons ev evs)
  then have "queue_event c ev w = (Ret (), w\<lparr>w_jsonPayloads := w_jsonPayloads w @ [payload_of c ev]\<rparr>)"
    by (simp add: queue_event_run[of l])
  with Cons show ?case by (simp add: thenIO_def bindIO_Ret)
qed simp

lemma collect_url_run:
  assumes "doHTTPAction E (ec_Endpoint k) ''GET'' u None w = (Ret (body, code, None), w1)"
    and "contacted E k w1 = (Ret (), w2)"
    and "GetEventsForPayload E (ec_RiverCollector k) body (w_ep w2 (ec_Endpoint k)) t w2 = (Ret evs, w3)"
  shows "collect_url E k t u w = (Ret (), w3\<lparr>w_jsonPayloads := w_jsonPayloads w3 @
           map (payload_of (ep_ID (w_ep w2 (ec_Endpoint k)))) evs\<rparr>)"
    and "list_all (river_event (ep_ID (w_ep w2 (ec_Endpoint k)))) evs"
proof -
  show wf: "list_all (river_event (ep_ID (w_ep w2 (ec_Endpoint k)))) evs"
    using assms(3) unfolding GetEventsForPayload_events_for by (rule dispatch.events_for_wellformed)
  have "collect_url E k t u w = forIO (queue_event (ep_ID (w_ep w2 (ec_Endpoint k)))) evs w3"
    using assms by (simp add: collect_url_def thenIO_def bindIO_Ret)
  with queue_events_run[OF wf] show "collect_url E k t u w = (Ret (), w3\<lparr>w_jsonPayloads := w_jsonPayloads w3 @
           map (payload_of (ep_ID (w_ep w2 (ec_Endpoint k)))) evs\<rparr>)" by simp
qed

section \<open>What classification leaves unchanged\<close>

locale poll_frame = http_frame g for g :: "'e world \<Rightarrow> 'b" +
  assumes g_sensors: "g (w\<lparr>w_sensors := s, w_nextObj := n\<rparr>) = g w"
    and g_times: "g (w\<lparr>w_lastContacted := t, w_nextObj := n\<rparr>) = g w"
begin

lemma keeps_probe_model: "keeps g (probe_model E p u m)"
  unfolding probe_model_def by (intro frame_rules keeps_http)

lemma keeps_probe_models: "keeps g (probe_models E p ps m)"
  by (induction ps arbitrary: m) (auto intro!: frame_rules keeps_probe_model)

lemma keeps_classify: "keeps g (classify E p)"
  unfolding classify_def classify_bmc_def classify_pdu_def pdu_resources_def allocSensors_def
  by (intro frame_rules keeps_http keeps_probe_models g_sensors)

lemma keeps_allocTime: "keeps g (allocTime E)"
  unfolding allocTime_def by (intro frame_rules keeps_ext g_times)

end

interpretation poll_frame_ids:
  poll_frame "\<lambda>w. (w_endpoints w, w_nonPolledEndpoints w, \<lambda>q. identity (w_ep w q))"
  by unfold_locales (auto simp: identity_def)

section \<open>Every endpoint is classified once\<close>

definition poll_ids :: "'e world \<Rightarrow> string list" where
  "poll_ids w = map (\<lambda>e. ep_ID (w_ep w (ec_Endpoint e))) (w_endpoints w) @
     map (\<lambda>p. ep_ID (w_ep w p)) (w_nonPolledEndpoints w)"

lemma poll_ids_kept:
  assumes "keeps (\<lambda>w. (w_endpoints w, w_nonPolledEndpoints w, \<lambda>q. identity (w_ep w q))) m" "m w = (r, w')"
  shows "w_endpoints w' = w_endpoints w" "w_nonPolledEndpoints w' = w_nonPolledEndpoints w"
    "\<And>q. ep_ID (w_ep w' q) = ep_ID (w_ep w q)" "poll_ids w' = poll_ids w"
proof -
  from keepsD[OF assms] have k: "w_endpoints w' = w_endpoints w" "w_nonPolledEndpoints w' = w_nonPolledEndpoints w"
    "\<And>q. identity (w_ep w' q) = identity (w_ep w q)" by (auto simp: fun_eq_iff)
  have id: "ep_ID (w_ep w' q) = ep_ID (w_ep w q)" for q by (rule identity_eqD(1)[OF k(3)])
  show "w_endpoints w' = w_endpoints w" "w_nonPolledEndpoints w' = w_nonPolledEndpoints w" by fact+
  show "ep_ID (w_ep w' q) = ep_ID (w_ep w q)" for q by fact
  show "poll_ids w' = poll_ids w" by (simp add: poll_ids_def k(1,2) id)
qed

lemma is_seen_iff: "is_seen p w \<longleftrightarrow> ep_ID (w_ep w p) \<in> set (poll_ids w)"
  by (auto simp: is_seen_def poll_ids_def list_ex_iff)

lemma allocTime_run:
  obtains t w1 where "allocTime E w = (Ret t, w1)" "poll_ids w1 = poll_ids w"
    "w_endpoints w1 = w_endpoints w" "w_nonPolledEndpoints w1 = w_nonPolledEndpoints w" "w_ep w1 = w_ep w"
    "w_nextEp w1 = w_nextEp w" "w_HSMEndpoints w1 = w_HSMEndpoints w"
  by (simp add: allocTime_def thenIO_def poll_ids_def)

text \<open>Adding an endpoint returns and adds its xname to the classified ones, unless it was given up.\<close>

lemma add_endpoint_run:
  obtains w' where "add_endpoint E p c w = (Ret (), w')" "w_ep w' = w_ep w" "w_nextEp w' = w_nextEp w"
    "w_HSMEndpoints w' = w_HSMEndpoints w"
    "mset (poll_ids w') = (if c = GivenUp then mset (poll_ids w) else add_mset (ep_ID (w_ep w p)) (mset (poll_ids w)))"
    "set (map ec_Endpoint (w_endpoints w') @ w_nonPolledEndpoints w')
       \<subseteq> insert p (set (map ec_Endpoint (w_endpoints w) @ w_nonPolledEndpoints w))"
proof (cases c)
  case GivenUp
  then show thesis by (intro that[of w]) (auto simp: add_endpoint_def)
next
  case NotPolled
  then show thesis
    by (intro that[of "w\<lparr>w_nonPolledEndpoints := w_nonPolledEndpoints w @ [p]\<rparr>"]) (auto simp: add_endpoint_def poll_ids_def)
next
  case (Polled collector model)
  obtain t w1 where t: "allocTime E w = (Ret t, w1)" "w_endpoints w1 = w_endpoints w"
      "w_nonPolledEndpoints w1 = w_nonPolledEndpoints w" "w_ep w1 = w_ep w" "w_nextEp w1 = w_nextEp w"
      "w_HSMEndpoints w1 = w_HSMEndpoints w"
    by (rule allocTime_run)
  then show thesis using Polled
    by (intro that[of "w1\<lparr>w_endpoints := w_endpoints w1 @
        [\<lparr> ec_Endpoint = p, ec_RiverCollector = collector, ec_LastContacted = t, ec_Model = model \<rparr>]\<rparr>"])
       (auto simp: add_endpoint_def poll_ids_def bindIO_Ret)
qed

text \<open>One endpoint: its xname is added to the classified ones, if at all, only when it is new.\<close>

lemma monitor_endpoint_ids:
  assumes "monitor_endpoint E p w = (r, w')"
  shows "mset (poll_ids w') = mset (poll_ids w)
    \<or> (mset (poll_ids w') = add_mset (ep_ID (w_ep w p)) (mset (poll_ids w)) \<and> ep_ID (w_ep w p) \<notin> set (poll_ids w))"
proof (cases "is_seen p w")
  case True
  with assms show ?thesis by (simp add: monitor_endpoint_def bindIO_def)
next
  case False
  then have new: "ep_ID (w_ep w p) \<notin> set (poll_ids w)" by (simp add: is_seen_iff)
  from assms False have "bindIO (classify E p) (add_endpoint E p) w = (r, w')" by (simp add: monitor_endpoint_def)
  then show ?thesis
  proof (cases rule: bindIO_cases)
    case (ret c w1)
    note k = poll_ids_kept[OF poll_frame_ids.keeps_classify ret(1)]
    obtain w2 where "add_endpoint E p c w1 = (Ret (), w2)"
      "mset (poll_ids w2) = (if c = GivenUp then mset (poll_ids w1) else add_mset (ep_ID (w_ep w1 p)) (mset (poll_ids w1)))"
      by (rule add_endpoint_run)
    with ret(2) k new show ?thesis by auto
  next
    case (panic q)
    with poll_ids_kept(4)[OF poll_frame_ids.keeps_classify panic(1)] show ?thesis by simp
  next
    case nofuel
    with poll_ids_kept(4)[OF poll_frame_ids.keeps_classify nofuel(1)] show ?thesis by simp
  qed
qed

definition poll_ok :: "'e world \<Rightarrow> bool" where
  "poll_ok w \<longleftrightarrow> distinct (poll_ids w)"

lemma monitor_endpoint_ok:
  assumes "poll_ok w" "monitor_endpoint E p w = (r, w')"
  shows "poll_ok w' \<and> set (poll_ids w) \<subseteq> set (poll_ids w') \<and> set (poll_ids w') \<subseteq> insert (ep_ID (w_ep w p)) (set (poll_ids w))"
  using monitor_endpoint_ids[OF assms(2)]
proof
  assume same: "mset (poll_ids w') = mset (poll_ids w)"
  from mset_eq_imp_distinct_iff[OF same] mset_eq_setD[OF same] assms(1) show ?thesis by (auto simp: poll_ok_def)
next
  assume "mset (poll_ids w') = add_mset (ep_ID (w_ep w p)) (mset (poll_ids w)) \<and> ep_ID (w_ep w p) \<notin> set (poll_ids w)"
  then have more: "mset (poll_ids w') = mset (ep_ID (w_ep w p) # poll_ids w)" and new: "ep_ID (w_ep w p) \<notin> set (poll_ids w)"
    by simp_all
  from mset_eq_imp_distinct_iff[OF more] mset_eq_setD[OF more] new assms(1) show ?thesis by (auto simp: poll_ok_def)
qed

interpretation poll_frame_identity: poll_frame "\<lambda>w. (\<lambda>q. identity (w_ep w q))"
  by unfold_locales (auto simp: identity_def)

lemma keeps_monitor_endpoint: "keeps (\<lambda>w. (\<lambda>q. identity (w_ep w q))) (monitor_endpoint E p)"
proof -
  have "keeps (\<lambda>w. (\<lambda>q. identity (w_ep w q))) (add_endpoint E p c)" for c
    unfolding add_endpoint_def by (cases c) (auto intro!: frame_rules poll_frame_identity.keeps_allocTime)
  then show ?thesis unfolding monitor_endpoint_def
    by (intro frame_rules poll_frame_identity.keeps_classify)
qed

text \<open>The state of a pass that started in \<open>w\<close>: what the pass may have added to the classified xnames.\<close>

definition pass_inv :: "'e world \<Rightarrow> 'e world \<Rightarrow> bool" where
  "pass_inv w v \<longleftrightarrow> poll_ok v \<and> set (poll_ids w) \<subseteq> set (poll_ids v)
     \<and> set (poll_ids v) \<subseteq> set (poll_ids w) \<union> (\<lambda>(i, p). ep_ID (w_ep w p)) ` set (w_HSMEndpoints w)
     \<and> (\<forall>q. ep_ID (w_ep v q) = ep_ID (w_ep w q))"

lemma monitor_endpoint_pass:
  assumes "(i, p) \<in> set (w_HSMEndpoints w)"
  shows "always (pass_inv w) (monitor_endpoint E p)"
proof (rule alwaysI)
  fix v r v' assume inv: "pass_inv w v" and run: "monitor_endpoint E p v = (r, v')"
  from keepsD[OF keeps_monitor_endpoint run] have ids: "ep_ID (w_ep v' q) = ep_ID (w_ep v q)" for q
    by (meson fun_cong identity_eqD(1))
  from inv assms have "ep_ID (w_ep v p) \<in> (\<lambda>(i, p). ep_ID (w_ep w p)) ` set (w_HSMEndpoints w)"
    by (force simp: pass_inv_def)
  then have new: "insert (ep_ID (w_ep v p)) (set (poll_ids v))
      \<subseteq> set (poll_ids w) \<union> (\<lambda>(i, p). ep_ID (w_ep w p)) ` set (w_HSMEndpoints w)"
    using inv unfolding pass_inv_def by blast
  from inv have "poll_ok v" "set (poll_ids w) \<subseteq> set (poll_ids v)" "\<forall>q. ep_ID (w_ep v q) = ep_ID (w_ep w q)"
    unfolding pass_inv_def by simp_all
  with new monitor_endpoint_ok[OF _ run] show "pass_inv w v'" unfolding pass_inv_def ids by (meson order_trans)
qed

lemma monitor_pass:
  assumes "poll_ok w" "monitorPollingEndpoints E w = (r, w')"
  shows "pass_inv w w'"
proof -
  let ?body = "\<lambda>i. case map_of (w_HSMEndpoints w) i of None \<Rightarrow> return () | Some p \<Rightarrow> monitor_endpoint E p"
  have body: "always (pass_inv w) (?body i)" for i
    by (auto simp: split: option.splits intro: monitor_endpoint_pass dest: map_of_SomeD)
  from assms(2) obtain e order where "forIO ?body order (w\<lparr>w_ext := e\<rparr>) = (r, w')"
    by (auto simp: monitorPollingEndpoints_def)
  moreover from assms(1) have "pass_inv w (w\<lparr>w_ext := e\<rparr>)"
    by (simp add: pass_inv_def poll_ok_def poll_ids_def)
  ultimately show ?thesis by (rule alwaysD[OF always_for[OF body], rotated])
qed

section \<open>Properties\<close>

text \<open>
  Every endpoint is classified at most once. If the xnames of the polled and of the ignored
  endpoints are pairwise distinct, they still are after a pass of the endpoint monitor, whatever the
  endpoints answer and even if the pass panics; no classified endpoint is forgotten, and every new
  one is an endpoint of the State Manager.
\<close>

theorem polled_once:
  assumes "poll_ok w" "monitorPollingEndpoints E w = (r, w')"
  shows "poll_ok w' \<and> set (poll_ids w) \<subseteq> set (poll_ids w')
     \<and> set (poll_ids w') \<subseteq> set (poll_ids w) \<union> (\<lambda>(i, p). ep_ID (w_ep w p)) ` set (w_HSMEndpoints w)"
  using monitor_pass[OF assms] by (simp add: pass_inv_def)

text \<open>Two endpoints, one of them already ignored, and BMCs that answer with the model of an HPE server.\<close>

definition hpe_env :: "unit env" where
  "hpe_env = env0\<lparr>env_Do := (\<lambda>r e. (Inr \<lparr> rs_StatusCode = 200, rs_Body = ''{''@ [CHR 0x22] @ ''Model'' @ [CHR 0x22] @ '':'' @
     [CHR 0x22] @ ''ProLiant DL325'' @ [CHR 0x22] @ ''}'', rs_readErr = False \<rparr>, e))\<rparr>"

definition two_endpoints :: "unit world" where
  "two_endpoints = (world0 ())\<lparr>w_ep := (\<lambda>q. ep_zero\<lparr>ep_ID := (if q = 0 then ''x0c0s1b0'' else ''x0c0s2b0''),
       ep_FQDN := ''bmc''\<rparr>), w_nextEp := 2,
     w_HSMEndpoints := [(''x0c0s1b0'', 0), (''x0c0s2b0'', 1)], w_nonPolledEndpoints := [0]\<rparr>"

lemma two_endpoints_run:
  "case monitorPollingEndpoints hpe_env two_endpoints of (r, w') \<Rightarrow> r = Ret () \<and> poll_ids w' = [''x0c0s2b0'', ''x0c0s1b0'']"
  by code_simp

lemma two_endpoints_pass:
  "fst (monitorPollingEndpoints hpe_env two_endpoints) = Ret ()"
  "poll_ids (snd (monitorPollingEndpoints hpe_env two_endpoints)) = [''x0c0s2b0'', ''x0c0s1b0'']"
  using two_endpoints_run by (simp_all only: split_beta)

theorem polled_once_witness:
  "let w' = snd (monitorPollingEndpoints hpe_env two_endpoints)
   in poll_ok w' \<and> poll_ids w' = [''x0c0s2b0'', ''x0c0s1b0'']"
proof -
  have "poll_ok two_endpoints" by (simp add: poll_ok_def poll_ids_def two_endpoints_def world0_def)
  from polled_once[OF this prod.collapse[symmetric]] two_endpoints_pass show ?thesis by (metis (no_types))
qed

text \<open>
  The last of the four questions that is answered decides. If the chassis \<^verbatim>\<open>BMC_0\<close> of the NVIDIA
  servers answers with a model, the endpoint is classified by that model alone, whatever model the
  Gigabyte, Intel and HPE resources reported before it.
\<close>

theorem last_answer_decides:
  assumes "probe_models E p (butlast bmc_paths) [] w = (Ret (Some earlier), w1)"
    and "doHTTPAction E p ''GET'' (''https://'' @ ep_FQDN (w_ep w1 p) @ ''/redfish/v1/Chassis/BMC_0'') None w1
           = (Ret (body, 200, None), w2)"
    and "Unmarshal_Model body = Some model"
  shows "classify_bmc E p w =
     (Ret (case classify_model model of None \<Rightarrow> NotPolled | Some collector \<Rightarrow> Polled collector model), w2)"
proof -
  have "probe_models E p bmc_paths [] w = (Ret (Some model), w2)"
    using probe_models_append[OF assms(1), of "[''/redfish/v1/Chassis/BMC_0'']"] assms(2,3)
    by (simp add: bmc_paths_def probe_model_def bindIO_def)
  then show ?thesis by (simp add: classify_bmc_def bindIO_def split: option.splits)
qed

text \<open>An OpenBMC chassis that also answers as a server of another vendor.\<close>

definition nvidia_env :: "unit env" where
  "nvidia_env = env0\<lparr>env_Do := (\<lambda>r e. (Inr \<lparr> rs_StatusCode = 200,
     rs_Body = ''{'' @ [CHR 0x22] @ ''Model'' @ [CHR 0x22] @ '':'' @ [CHR 0x22] @
        (if HasSuffix (rq_url r) ''BMC_0'' then ''P4352'' else ''ProLiant'') @ [CHR 0x22] @ ''}'',
     rs_readErr = False \<rparr>, e))\<rparr>"

lemma openbmc_earlier:
  "fst (probe_models nvidia_env 0 (butlast bmc_paths) [] two_endpoints) = Ret (Some ''ProLiant'')"
  by code_simp

lemma openbmc_last:
  "fst (doHTTPAction nvidia_env 0 ''GET'' ''https://bmc/redfish/v1/Chassis/BMC_0'' None
     (snd (probe_models nvidia_env 0 (butlast bmc_paths) [] two_endpoints)))
   = Ret (''{'' @ [CHR 0x22] @ ''Model'' @ [CHR 0x22] @ '':'' @ [CHR 0x22] @ ''P4352'' @ [CHR 0x22] @ ''}'', 200, None)"
  by code_simp

lemma openbmc_fqdn:
  "ep_FQDN (w_ep (snd (probe_models nvidia_env 0 (butlast bmc_paths) [] two_endpoints)) 0) = ''bmc''"
  by code_simp

lemma openbmc_model:
  "Unmarshal_Model (''{'' @ [CHR 0x22] @ ''Model'' @ [CHR 0x22] @ '':'' @ [CHR 0x22] @ ''P4352'' @ [CHR 0x22] @ ''}'') = Some ''P4352''"
  "classify_model ''P4352'' = Some OpenBMCRiverCollector"
  by code_simp+

theorem last_answer_decides_witness:
  "fst (classify_bmc nvidia_env 0 two_endpoints) = Ret (Polled OpenBMCRiverCollector ''P4352'')"
proof -
  let ?w1 = "snd (probe_models nvidia_env 0 (butlast bmc_paths) [] two_endpoints)"
  have "probe_models nvidia_env 0 (butlast bmc_paths) [] two_endpoints = (Ret (Some ''ProLiant''), ?w1)"
    using openbmc_earlier by (simp add: prod_eq_iff)
  from last_answer_decides[OF this _ openbmc_model(1),
      of "snd (doHTTPAction nvidia_env 0 ''GET'' ''https://bmc/redfish/v1/Chassis/BMC_0'' None ?w1)"]
  show ?thesis using openbmc_last openbmc_fqdn openbmc_model(2)
    by (simp only: prod_eq_iff fst_conv snd_conv append.simps option.case simp_thms)
qed

text \<open>
  C5: nothing read from an endpoint is lost before publication. When a polled URL is answered and its
  payload parsed to some events, every one of them is queued, in order, as one payload with the
  endpoint's xname as its context, its own message identifier and a telemetry topic; none is dropped
  for an unknown identifier.
\<close>

theorem readings_all_queued:
  assumes "doHTTPAction E (ec_Endpoint k) ''GET'' u None w = (Ret (body, code, None), w1)"
    and "contacted E k w1 = (Ret (), w2)"
    and "GetEventsForPayload E (ec_RiverCollector k) body (w_ep w2 (ec_Endpoint k)) t w2 = (Ret evs, w3)"
  shows "collect_url E k t u w = (Ret (), w3\<lparr>w_jsonPayloads := w_jsonPayloads w3 @
           map (payload_of (ep_ID (w_ep w2 (ec_Endpoint k)))) evs\<rparr>)
       \<and> list_all (\<lambda>ev. polling_topic (ev_MessageId ev) \<noteq> None) evs"
  using collect_url_run[OF assms] by (auto simp: list_all_iff dest: river_event_topic)

text \<open>An Intel server that answers the question for its temperatures with an empty object.\<close>

definition intel_endpoint :: EndpointWithCollector where
  "intel_endpoint = \<lparr> ec_Endpoint = 0, ec_RiverCollector = IntelRiverCollector, ec_LastContacted = 0, ec_Model = ''S2600WFT'' \<rparr>"

definition empty_env :: "unit env" where
  "empty_env = env0\<lparr>env_Do := (\<lambda>r e. (Inr \<lparr> rs_StatusCode = 200, rs_Body = ''{}'', rs_readErr = False \<rparr>, e))\<rparr>"

lemma empty_answer:
  "fst (doHTTPAction empty_env 0 ''GET'' ''https://bmc/t'' None two_endpoints) = Ret (''{}'', 200, None)"
  by code_simp

lemma empty_events:
  "(let w2 = snd (contacted empty_env intel_endpoint (snd (doHTTPAction empty_env 0 ''GET'' ''https://bmc/t'' None two_endpoints)))
    in case fst (GetEventsForPayload empty_env IntelRiverCollector ''{}'' (w_ep w2 0) TelemetryTypeThermal w2)
       of Ret evs \<Rightarrow> map ev_MessageId evs = [TemperatureMessageID] | _ \<Rightarrow> False)"
  by code_simp

theorem readings_all_queued_witness:
  "\<exists>w3 context evs. collect_url empty_env intel_endpoint TelemetryTypeThermal ''https://bmc/t'' two_endpoints =
       (Ret (), w3\<lparr>w_jsonPayloads := w_jsonPayloads w3 @ map (payload_of context) evs\<rparr>)
     \<and> map ev_MessageId evs = [TemperatureMessageID]"
proof -
  let ?w1 = "snd (doHTTPAction empty_env 0 ''GET'' ''https://bmc/t'' None two_endpoints)"
  let ?w2 = "snd (contacted empty_env intel_endpoint ?w1)"
  let ?run = "GetEventsForPayload empty_env IntelRiverCollector ''{}'' (w_ep ?w2 0) TelemetryTypeThermal ?w2"
  have 1: "doHTTPAction empty_env (ec_Endpoint intel_endpoint) ''GET'' ''https://bmc/t'' None two_endpoints =
      (Ret (''{}'', 200, None), ?w1)" using empty_answer by (simp add: prod_eq_iff intel_endpoint_def)
  have 2: "contacted empty_env intel_endpoint ?w1 = (Ret (), ?w2)" by (simp add: contacted_def)
  obtain evs where "fst ?run = Ret evs" and ids: "map ev_MessageId evs = [TemperatureMessageID]"
    using empty_events by (auto simp: Let_def split: res.splits)
  then have "GetEventsForPayload empty_env (ec_RiverCollector intel_endpoint) ''{}'' (w_ep ?w2 (ec_Endpoint intel_endpoint))
      TelemetryTypeThermal ?w2 = (Ret evs, snd ?run)" by (simp add: prod_eq_iff intel_endpoint_def)
  note run = readings_all_queued[OF 1 2 this, THEN conjunct1]
  show ?thesis by (rule exI, rule exI, rule exI, rule conjI, rule run, rule ids)
qed

text \<open>
  A poll that should not happen sends nothing. While the Kafka brokers are out of reach a poll does
  nothing at all, and a power distribution unit that was contacted less than the configured interval
  ago is left alone: only the clock is read.
\<close>

theorem poll_gate:
  "(\<not> w_smaOK w \<longrightarrow> collectData E k w = (Ret (), w))
   \<and> (w_smaOK w \<and> GetHMSType (ep_ID (w_ep w (ec_Endpoint k))) = CabinetPDUController
      \<and> fst (env_Now E (w_ext w)) - w_lastContacted w (ec_LastContacted k) < 1000000000 * pduPollingInterval E
      \<longrightarrow> collectData E k w = (Ret (), w\<lparr>w_ext := snd (env_Now E (w_ext w))\<rparr>))"
  by (auto simp: collectData_def bindIO_def)

text \<open>A power distribution unit contacted just now, and one outlet of it to ask.\<close>

definition pdu_endpoint :: EndpointWithCollector where
  "pdu_endpoint = \<lparr> ec_Endpoint = 0, ec_RiverCollector = HPEPDURiverCollector 1, ec_LastContacted = 0, ec_Model = ''CIS'' \<rparr>"

definition pdu_world :: "unit world" where
  "pdu_world = (world0 ())\<lparr>w_ep := (\<lambda>_. ep_zero\<lparr>ep_ID := ''x3000m0'', ep_FQDN := ''pdu''\<rparr>), w_smaOK := True,
     w_sensors := (\<lambda>_. [(''/o/1'', [])])\<rparr>"

lemma pdu_type: "GetHMSType ''x3000m0'' = CabinetPDUController"
  by code_simp

theorem poll_gate_witness:
  "collectData env0 pdu_endpoint pdu_world = (Ret (), pdu_world\<lparr>w_ext := snd (env_Now env0 (w_ext pdu_world))\<rparr>)
   \<and> collectData env0 pdu_endpoint (pdu_world\<lparr>w_smaOK := False\<rparr>) = (Ret (), pdu_world\<lparr>w_smaOK := False\<rparr>)"
  using poll_gate[of pdu_world env0 pdu_endpoint] poll_gate[of "pdu_world\<lparr>w_smaOK := False\<rparr>" env0 pdu_endpoint]
  by (simp add: pdu_world_def pdu_endpoint_def pdu_type env0_def world0_def)

end
