(* ===== verification/Hsm.thy ===== *)
theory Hsm
  imports RfType
begin

text \<open>
  The list of endpoints kept from the State Manager: \<^verbatim>\<open>GetEndpointList\<close> in
  \<^verbatim>\<open>internal/hmcollector/smd_api.go\<close> and \<^verbatim>\<open>doUpdateHSMEndpoints\<close> in \<^verbatim>\<open>cmd/hmcollector/hmcollector.go\<close>. The map
  \<^verbatim>\<open>HSMEndpoints\<close> is a list of xnames with the address of the endpoint description, which every other
  part of the collector shares.
\<close>

section \<open>Model\<close>

definition GetEndpointList :: "'e env \<Rightarrow> ('e world, string + RedfishEPDescription list) io" where
  "GetEndpointList E =
     (let url = smURL E @ ''/hsm/v2/Inventory/RedfishEndpoints''
      in if Parse url = None then return (Inl ''Unable to create HTTP request'')
         else
           bindIO (extIO (env_smdDo E \<lparr> rq_method = ''GET'', rq_url = url, rq_auth = None, rq_body = None \<rparr>)) (\<lambda>r.
           case r of
             Inl serr \<Rightarrow> return (Inl (''Error in HTTP request: '' @ serr))
           | Inr rsp \<Rightarrow>
               if rs_readErr rsp then return (Inl ''unable to do HTTP GET for RF endpoints'')
               else if rs_Body rsp \<noteq> [] then
                 (case Unmarshal_RedfishEndpoints (rs_Body rsp) of
                    None \<Rightarrow> return (Inl ''unable to unmarshal payload'')
                  | Some endpoints \<Rightarrow> return (Inr endpoints))
               else return (Inr [])))"

text \<open>A description allocated at a fresh address.\<close>

definition allocEp :: "RedfishEPDescription \<Rightarrow> ('e world, nat) io" where
  "allocEp ep =
     bindIO (getsIO w_nextEp) (\<lambda>p.
     thenIO (modifyIO (\<lambda>w. w\<lparr>w_ep := (w_ep w)(p := ep), w_nextEp := Suc p\<rparr>)) (return p))"

definition update_endpoint :: "'e env \<Rightarrow> RedfishEPDescription \<Rightarrow> ('e world, unit) io" where
  "update_endpoint E newEndpoint =
     bindIO (getsIO (\<lambda>w. map_of (w_HSMEndpoints w) (ep_ID newEndpoint))) (\<lambda>known.
     case known of
       Some e \<Rightarrow>
         writeEp e (\<lambda>ep. ep\<lparr>ep_DiscInfo := (ep_DiscInfo ep)\<lparr>
           di_LastAttempt := di_LastAttempt (ep_DiscInfo newEndpoint),
           di_LastStatus := di_LastStatus (ep_DiscInfo newEndpoint),
           di_RedfishVersion := di_RedfishVersion (ep_DiscInfo newEndpoint)\<rparr>\<rparr>)
     | None \<Rightarrow>
         if di_LastStatus (ep_DiscInfo newEndpoint) \<noteq> ''DiscoverOK'' then return ()
         else
           bindIO (allocEp newEndpoint) (\<lambda>p.
           bindIO (if VaultEnabled E then updateEndpointWithCredentials E p else return None) (\<lambda>updateErr.
           if updateErr \<noteq> None then return ()
           else modifyIO (\<lambda>w. w\<lparr>w_HSMEndpoints := w_HSMEndpoints w @ [(ep_ID newEndpoint, p)]\<rparr>))))"

text \<open>One pass of the loop of \<^verbatim>\<open>doUpdateHSMEndpoints\<close>.\<close>

definition doUpdateHSMEndpoints :: "'e env \<Rightarrow> ('e world, unit) io" where
  "doUpdateHSMEndpoints E =
     bindIO (GetEndpointList E) (\<lambda>r.
     case r of
       Inl newEndpointsErr \<Rightarrow> return ()
     | Inr newEndpoints \<Rightarrow> if newEndpoints = [] then return () else forIO (update_endpoint E) newEndpoints)"

section \<open>The invariant\<close>

definition hsm_ok :: "'e world \<Rightarrow> bool" where
  "hsm_ok w \<longleftrightarrow> distinct (map fst (w_HSMEndpoints w)) \<and> distinct (map snd (w_HSMEndpoints w))
     \<and> list_all (\<lambda>(i, p). ep_ID (w_ep w p) = i \<and> p < w_nextEp w) (w_HSMEndpoints w)"

text \<open>How the map may develop: known endpoints keep their place and everything but their discovery data.\<close>

definition refreshed :: "'e world \<Rightarrow> 'e world \<Rightarrow> bool" where
  "refreshed w w' \<longleftrightarrow> (\<forall>(i, p) \<in> set (w_HSMEndpoints w).
     (i, p) \<in> set (w_HSMEndpoints w') \<and> (\<exists>d. w_ep w' p = (w_ep w p)\<lparr>ep_DiscInfo := d\<rparr>))"

lemma refreshed_refl: "refreshed w w"
proof -
  have "\<exists>d. w_ep w p = (w_ep w p)\<lparr>ep_DiscInfo := d\<rparr>" for p
    by (rule exI[of _ "ep_DiscInfo (w_ep w p)"]) simp
  then show ?thesis by (auto simp: refreshed_def)
qed

lemma refreshed_trans: "refreshed a b \<Longrightarrow> refreshed b c \<Longrightarrow> refreshed a c"
  unfolding refreshed_def by fastforce

lemma update_kept:
  assumes "updateEndpointWithCredentials E p w = (r, w')"
  shows "w_HSMEndpoints w' = w_HSMEndpoints w" "w_nextEp w' = w_nextEp w" "ep_ID (w_ep w' p) = ep_ID (w_ep w p)"
    "\<And>q. q \<noteq> p \<Longrightarrow> w_ep w' q = w_ep w q"
  using update_only_creds[OF assms] by (auto simp: only_creds_def)

text \<open>One endpoint: either only discovery data change, or a fresh address is filled and perhaps registered.\<close>

lemma update_endpoint_cases:
  assumes "update_endpoint E n w = (r, w')"
  obtains (known) e where "map_of (w_HSMEndpoints w) (ep_ID n) = Some e"
      "w' = w\<lparr>w_ep := (w_ep w)(e := (w_ep w e)\<lparr>ep_DiscInfo := ep_DiscInfo n\<rparr>)\<rparr>"
    | (same) "w' = w"
    | (fresh) b where "map_of (w_HSMEndpoints w) (ep_ID n) = None" "di_LastStatus (ep_DiscInfo n) = ''DiscoverOK''"
      "w_HSMEndpoints w' = w_HSMEndpoints w @ (if b then [(ep_ID n, w_nextEp w)] else [])"
      "w_nextEp w' = Suc (w_nextEp w)" "ep_ID (w_ep w' (w_nextEp w)) = ep_ID n"
      "\<And>q. q \<noteq> w_nextEp w \<Longrightarrow> w_ep w' q = w_ep w q"
      "b \<Longrightarrow> VaultEnabled E \<Longrightarrow> (\<exists>w1. updateEndpointWithCredentials E (w_nextEp w) w1 = (Ret None, w'\<lparr>w_HSMEndpoints := w_HSMEndpoints w\<rparr>)
          \<and> w_ep w1 (w_nextEp w) = n)"
proof (cases "map_of (w_HSMEndpoints w) (ep_ID n)")
  case (Some e)
  have "(d :: DiscoveryInfo)\<lparr>di_LastAttempt := di_LastAttempt d', di_LastStatus := di_LastStatus d',
      di_RedfishVersion := di_RedfishVersion d'\<rparr> = d'" for d d'
    by (cases d; cases d') simp
  with Some assms have "w' = w\<lparr>w_ep := (w_ep w)(e := (w_ep w e)\<lparr>ep_DiscInfo := ep_DiscInfo n\<rparr>)\<rparr>"
    by (simp add: update_endpoint_def)
  with Some show thesis by (rule known)
next
  case None
  show thesis
  proof (cases "di_LastStatus (ep_DiscInfo n) = ''DiscoverOK''")
    case False
    with None assms same show thesis by (simp add: update_endpoint_def)
  next
    case True
    let ?p = "w_nextEp w" and ?w1 = "w\<lparr>w_ep := (w_ep w)(w_nextEp w := n), w_nextEp := Suc (w_nextEp w)\<rparr>"
    from None True assms have run: "bindIO (if VaultEnabled E then updateEndpointWithCredentials E ?p else return None) (\<lambda>updateErr.
           if updateErr \<noteq> None then return ()
           else modifyIO (\<lambda>w. w\<lparr>w_HSMEndpoints := w_HSMEndpoints w @ [(ep_ID n, ?p)]\<rparr>)) ?w1 = (r, w')"
      by (simp add: update_endpoint_def allocEp_def thenIO_def bindIO_def)
    show thesis
    proof (cases "VaultEnabled E")
      case False
      with run have "w' = ?w1\<lparr>w_HSMEndpoints := w_HSMEndpoints w @ [(ep_ID n, ?p)]\<rparr>" by simp
      with None True False show thesis by (intro fresh[of True]) auto
    next
      case vault: True
      obtain x w2 where upd: "updateEndpointWithCredentials E ?p ?w1 = (Ret x, w2)" by (rule update_total)
      note k = update_kept[OF upd]
      show thesis
      proof (cases x)
        case None': None
        with run vault upd have w': "w' = w2\<lparr>w_HSMEndpoints := w_HSMEndpoints w2 @ [(ep_ID n, ?p)]\<rparr>"
          by (simp add: bindIO_def)
        have "w'\<lparr>w_HSMEndpoints := w_HSMEndpoints w\<rparr> = w2" using w' k(1) by simp
        with upd None' have "\<exists>w1. updateEndpointWithCredentials E ?p w1 = (Ret None, w'\<lparr>w_HSMEndpoints := w_HSMEndpoints w\<rparr>) \<and> w_ep w1 ?p = n"
          by (intro exI[of _ ?w1]) simp
        with None True w' k show thesis by (intro fresh[of True]) auto
      next
        case (Some e)
        with run vault upd have "w' = w2" by (simp add: bindIO_def)
        with None True k show thesis by (intro fresh[of False]) auto
      qed
    qed
  qed
qed

lemma map_of_ID:
  assumes "hsm_ok w" "map_of (w_HSMEndpoints w) i = Some e"
  shows "(i, e) \<in> set (w_HSMEndpoints w)" "ep_ID (w_ep w e) = i"
  using assms map_of_SomeD[OF assms(2)] by (auto simp: hsm_ok_def list_all_iff)

lemma update_endpoint_ok:
  assumes "hsm_ok w" "update_endpoint E n w = (r, w')"
  shows "hsm_ok w' \<and> refreshed w w'"
  using assms(2)
proof (cases rule: update_endpoint_cases)
  case (known e)
  have "\<exists>d. w_ep w' q = (w_ep w q)\<lparr>ep_DiscInfo := d\<rparr>" for q
    using known(2) by (cases "q = e") (auto intro: exI[of _ "ep_DiscInfo (w_ep w q)"])
  with known(2) assms(1) show ?thesis by (auto simp: hsm_ok_def refreshed_def list_all_iff)
next
  case same
  with assms(1) show ?thesis by (simp add: refreshed_refl)
next
  case (fresh b)
  have new: "ep_ID n \<notin> fst ` set (w_HSMEndpoints w)" using fresh(1) by (simp add: map_of_eq_None_iff)
  have old: "p < w_nextEp w" "ep_ID (w_ep w p) = i" if "(i, p) \<in> set (w_HSMEndpoints w)" for i p
    using assms(1) that by (auto simp: hsm_ok_def list_all_iff)
  then have same: "w_ep w' p = w_ep w p" if "(i, p) \<in> set (w_HSMEndpoints w)" for i p
    using fresh(6) that by (metis less_irrefl)
  have addr: "w_nextEp w \<notin> snd ` set (w_HSMEndpoints w)" using old(1) by fastforce
  have "ep_ID (w_ep w' p) = i \<and> p < w_nextEp w'" if "(i, p) \<in> set (w_HSMEndpoints w')" for i p
  proof (cases "(i, p) \<in> set (w_HSMEndpoints w)")
    case True
    with old[OF True] same[OF True] fresh(4) show ?thesis by simp
  next
    case False
    with that fresh(3,4,5) show ?thesis by (simp split: if_splits)
  qed
  moreover have "distinct (map fst (w_HSMEndpoints w'))" "distinct (map snd (w_HSMEndpoints w'))"
    using assms(1) new addr unfolding fresh(3) by (simp_all add: hsm_ok_def)
  ultimately have "hsm_ok w'" by (auto simp: hsm_ok_def list_all_iff)
  moreover have "\<exists>d. w_ep w p = (w_ep w p)\<lparr>ep_DiscInfo := d\<rparr>" for p
    by (rule exI[of _ "ep_DiscInfo (w_ep w p)"]) simp
  then have "refreshed w w'" using fresh(3) same by (fastforce simp: refreshed_def)
  ultimately show ?thesis by blast
qed

lemma update_endpoints_ok:
  "hsm_ok w \<Longrightarrow> forIO (update_endpoint E) ns w = (r, w') \<Longrightarrow> hsm_ok w' \<and> refreshed w w'"
proof (induction ns arbitrary: w)
  case (Cons n ns)
  from Cons.prems(2) show ?case unfolding forIO.simps thenIO_def
  proof (cases rule: bindIO_cases)
    case (ret x w1)
    with update_endpoint_ok[OF Cons.prems(1) ret(1)] Cons.IH[of w1] refreshed_trans show ?thesis by blast
  qed (use update_endpoint_ok[OF Cons.prems(1)] in blast)+
qed (simp add: refreshed_refl)

lemma GetEndpointList_total:
  obtains x e where "GetEndpointList E w = (Ret x, w\<lparr>w_ext := e\<rparr>)"
proof (cases "Parse (smURL E @ ''/hsm/v2/Inventory/RedfishEndpoints'') = None")
  case True
  then have "GetEndpointList E w = (Ret (Inl ''Unable to create HTTP request''), w\<lparr>w_ext := w_ext w\<rparr>)"
    by (simp add: GetEndpointList_def)
  then show thesis by (rule that)
next
  case False
  let ?q = "\<lparr> rq_method = ''GET'', rq_url = smURL E @ ''/hsm/v2/Inventory/RedfishEndpoints'', rq_auth = None, rq_body = None \<rparr>"
  obtain a e where "env_smdDo E ?q (w_ext w) = (a, e)" by fastforce
  with False have "\<exists>x. GetEndpointList E w = (Ret x, w\<lparr>w_ext := e\<rparr>)"
    by (auto simp: GetEndpointList_def Let_def split: sum.splits option.splits)
  with that show thesis by blast
qed

text \<open>A pass either leaves the map alone or updates it endpoint by endpoint.\<close>

lemma doUpdate_cases:
  assumes "doUpdateHSMEndpoints E w = (r, w')"
  obtains (nothing) e where "w' = w\<lparr>w_ext := e\<rparr>"
    | (update) ns e where "forIO (update_endpoint E) ns (w\<lparr>w_ext := e\<rparr>) = (r, w')"
proof -
  obtain x e where "GetEndpointList E w = (Ret x, w\<lparr>w_ext := e\<rparr>)" by (rule GetEndpointList_total)
  with assms have run: "(case x of Inl newEndpointsErr \<Rightarrow> return ()
      | Inr newEndpoints \<Rightarrow> if newEndpoints = [] then return () else forIO (update_endpoint E) newEndpoints)
      (w\<lparr>w_ext := e\<rparr>) = (r, w')"
    by (simp add: doUpdateHSMEndpoints_def bindIO_def)
  show thesis
  proof (cases x)
    case (Inl err)
    with run have "w' = w\<lparr>w_ext := e\<rparr>" by simp
    then show thesis by (rule nothing)
  next
    case (Inr ns)
    with run nothing[of e] update[of ns e] show thesis by (cases "ns = []") auto
  qed
qed

lemma ext_simps [simp]:
  "hsm_ok (w\<lparr>w_ext := e\<rparr>) = hsm_ok w" "refreshed (w\<lparr>w_ext := e\<rparr>) w' = refreshed w w'"
  "refreshed w (w\<lparr>w_ext := e\<rparr>)"
  using refreshed_refl[of w] by (simp_all add: hsm_ok_def refreshed_def)

section \<open>Credentials\<close>

text \<open>
  An outside world that keeps the answers of Vault, the latest first, whatever they are: Vault may answer differently from
  one question to the next.
\<close>

locale vault_answers =
  fixes E :: "'e env" and log :: "'e \<Rightarrow> (string \<times> (string + string \<times> string)) list"
  assumes cred_logged: "log (snd (env_GetCompCred E i e)) = (i, fst (env_GetCompCred E i e)) # log e"
    and smd_logged: "log (snd (env_smdDo E q e)) = log e"
begin

text \<open>
  Every endpoint in the map was there before with the credentials it has now, or has the
  credentials Vault last gave for it.
\<close>

definition vouched :: "'e world \<Rightarrow> 'e world \<Rightarrow> bool" where
  "vouched v w \<longleftrightarrow> (\<forall>(i, p) \<in> set (w_HSMEndpoints w).
     (i, p) \<in> set (w_HSMEndpoints v) \<and> ep_User (w_ep w p) = ep_User (w_ep v p) \<and> ep_Password (w_ep w p) = ep_Password (w_ep v p)
     \<or> map_of (log (w_ext w)) i = Some (Inr (ep_User (w_ep w p), ep_Password (w_ep w p))))"

lemma update_logged:
  assumes "updateEndpointWithCredentials E p w = (r, w')"
  shows "\<forall>j. j \<noteq> ep_ID (w_ep w p) \<longrightarrow> map_of (log (w_ext w')) j = map_of (log (w_ext w)) j"
    and "r = Ret None \<Longrightarrow> map_of (log (w_ext w')) (ep_ID (w_ep w p)) = Some (Inr (ep_User (w_ep w' p), ep_Password (w_ep w' p)))"
proof -
  obtain a e where a: "env_GetCompCred E (ep_ID (w_ep w p)) (w_ext w) = (a, e)" by fastforce
  with cred_logged[of "ep_ID (w_ep w p)" "w_ext w"] have "log e = (ep_ID (w_ep w p), a) # log (w_ext w)" by simp
  with a assms show "\<forall>j. j \<noteq> ep_ID (w_ep w p) \<longrightarrow> map_of (log (w_ext w')) j = map_of (log (w_ext w)) j"
    and "r = Ret None \<Longrightarrow> map_of (log (w_ext w')) (ep_ID (w_ep w p)) = Some (Inr (ep_User (w_ep w' p), ep_Password (w_ep w' p)))"
    by (auto simp: update_result Let_def split: if_splits sum.splits)
qed

lemma update_endpoint_logged:
  assumes "update_endpoint E n w = (r, w')" "j \<in> fst ` set (w_HSMEndpoints w)"
  shows "map_of (log (w_ext w')) j = map_of (log (w_ext w)) j"
proof (cases "map_of (w_HSMEndpoints w) (ep_ID n)")
  case (Some e)
  with assms(1) show ?thesis by (auto simp: update_endpoint_def)
next
  case None
  then have j: "j \<noteq> ep_ID n" using assms(2) unfolding map_of_eq_None_iff by metis
  let ?w1 = "w\<lparr>w_ep := (w_ep w)(w_nextEp w := n), w_nextEp := Suc (w_nextEp w)\<rparr>"
  obtain x w2 where upd: "updateEndpointWithCredentials E (w_nextEp w) ?w1 = (Ret x, w2)" by (rule update_total)
  from update_logged(1)[OF upd] j have "map_of (log (w_ext w2)) j = map_of (log (w_ext w)) j" by simp
  with None assms(1) upd show ?thesis
    by (auto simp: update_endpoint_def allocEp_def thenIO_def bindIO_def split: if_splits)
qed

lemma update_endpoint_vouched:
  assumes "VaultEnabled E" "hsm_ok w" "vouched v w" "update_endpoint E n w = (r, w')"
  shows "vouched v w'"
  using assms(4)
proof (cases rule: update_endpoint_cases)
  case (known e)
  then show ?thesis using assms(3) by (auto simp: vouched_def split: if_splits)
next
  case same
  then show ?thesis using assms(3) by simp
next
  case (fresh b)
  have old: "w_ep w' p = w_ep w p" "map_of (log (w_ext w')) i = map_of (log (w_ext w)) i"
    if "(i, p) \<in> set (w_HSMEndpoints w)" for i p
  proof -
    have "p < w_nextEp w" using assms(2) that by (auto simp: hsm_ok_def list_all_iff)
    then show "w_ep w' p = w_ep w p" by (intro fresh(6)) simp
    show "map_of (log (w_ext w')) i = map_of (log (w_ext w)) i"
      using that by (intro update_endpoint_logged[OF assms(4)]) force
  qed
  have new: "map_of (log (w_ext w')) (ep_ID n) = Some (Inr (ep_User (w_ep w' (w_nextEp w)), ep_Password (w_ep w' (w_nextEp w))))" if b
  proof -
    from fresh(7)[OF that assms(1)] obtain w1 where
      upd: "updateEndpointWithCredentials E (w_nextEp w) w1 = (Ret None, w'\<lparr>w_HSMEndpoints := w_HSMEndpoints w\<rparr>)"
      and n: "w_ep w1 (w_nextEp w) = n" by blast
    from update_logged(2)[OF upd refl] n show ?thesis by simp
  qed
  show ?thesis unfolding vouched_def
  proof clarify
    fix i p assume ip: "(i, p) \<in> set (w_HSMEndpoints w')"
      and "map_of (log (w_ext w')) i \<noteq> Some (Inr (ep_User (w_ep w' p), ep_Password (w_ep w' p)))"
    with fresh(3) new have in_w: "(i, p) \<in> set (w_HSMEndpoints w)" by (auto split: if_splits)
    with assms(3) old[OF in_w] \<open>map_of (log (w_ext w')) i \<noteq> _\<close>
    show "(i, p) \<in> set (w_HSMEndpoints v) \<and> ep_User (w_ep w' p) = ep_User (w_ep v p) \<and> ep_Password (w_ep w' p) = ep_Password (w_ep v p)"
      by (auto simp: vouched_def)
  qed
qed

lemma update_endpoints_vouched:
  assumes "VaultEnabled E"
  shows "hsm_ok w \<Longrightarrow> vouched v w \<Longrightarrow> forIO (update_endpoint E) ns w = (r, w') \<Longrightarrow> vouched v w'"
proof (induction ns arbitrary: w)
  case (Cons n ns)
  note step = update_endpoint_vouched[OF assms Cons.prems(1,2)]
  from Cons.prems(3) show ?case unfolding forIO.simps thenIO_def
  proof (cases rule: bindIO_cases)
    case (ret x w1)
    with update_endpoint_ok[OF Cons.prems(1) ret(1)] step[OF ret(1)] Cons.IH[of w1] show ?thesis by blast
  qed (use step in blast)+
qed simp

lemma refresh_vouched:
  assumes "VaultEnabled E" "hsm_ok w" "doUpdateHSMEndpoints E w = (r, w')"
  shows "vouched w w'"
  using assms(3)
proof (cases rule: doUpdate_cases)
  case (nothing e)
  then show ?thesis by (auto simp: vouched_def)
next
  case (update ns e)
  have "vouched w (w\<lparr>w_ext := e\<rparr>)" by (auto simp: vouched_def)
  with update_endpoints_vouched[OF assms(1) _ _ update] assms(2) show ?thesis by simp
qed

end

text \<open>Any outside world with a record of Vault's answers beside its state.\<close>

definition vault_log :: "'e env \<Rightarrow> ((string \<times> (string + string \<times> string)) list \<times> 'e) env" where
  "vault_log E =
     \<lparr> pollingEnabled = pollingEnabled E, rfSubscribeEnabled = rfSubscribeEnabled E,
       rfStreamingEnabled = rfStreamingEnabled E, restEnabled = restEnabled E, VaultEnabled = VaultEnabled E,
       pruneOldSubscriptions = pruneOldSubscriptions E, pduPollingInterval = pduPollingInterval E,
       restURL = restURL E, restPort = restPort E, smURL = smURL E,
       IgnoreProvidedTimestamp = IgnoreProvidedTimestamp E, httpFuel = httpFuel E,
       env_Do = (\<lambda>r (l, e). case env_Do E r e of (a, e') \<Rightarrow> (a, (l, e'))),
       env_smdDo = (\<lambda>r (l, e). case env_smdDo E r e of (a, e') \<Rightarrow> (a, (l, e'))),
       env_GetCompCred = (\<lambda>i (l, e). case env_GetCompCred E i e of (a, e') \<Rightarrow> (a, ((i, a) # l, e'))),
       env_Produce = (\<lambda>b m (l, e). case env_Produce E b m e of (a, e') \<Rightarrow> (a, (l, e'))),
       env_Now = (\<lambda>(l, e). case env_Now E e of (a, e') \<Rightarrow> (a, (l, e'))),
       env_RFC3339 = env_RFC3339 E, env_RFC3339Nano = env_RFC3339Nano E,
       env_range = (\<lambda>ks (l, e). case env_range E ks e of (a, e') \<Rightarrow> (a, (l, e'))) \<rparr>"

interpretation vault: vault_answers "vault_log E" fst
  by unfold_locales (auto simp: vault_log_def split: prod.splits)

section \<open>Properties\<close>

text \<open>
  C6: a refresh from the State Manager never loses or moves an endpoint. Whatever the State Manager
  and Vault answer, after a pass every known xname is still mapped to the same description, in which
  nothing but the discovery data has changed (so credentials and addresses survive), and the map
  still has one description per xname, one xname per description, each under its own ID.
\<close>

theorem refresh_keeps_endpoints:
  assumes "hsm_ok w" "doUpdateHSMEndpoints E w = (r, w')"
  shows "hsm_ok w' \<and> (\<forall>(i, p) \<in> set (w_HSMEndpoints w).
     (i, p) \<in> set (w_HSMEndpoints w') \<and> (\<exists>d. w_ep w' p = (w_ep w p)\<lparr>ep_DiscInfo := d\<rparr>))"
proof -
  from assms(2) have "hsm_ok w' \<and> refreshed w w'"
  proof (cases rule: doUpdate_cases)
    case (update ns e)
    with update_endpoints_ok[OF _ update] assms(1) show ?thesis by simp
  qed (use assms(1) in simp)
  then show ?thesis by (simp add: refreshed_def)
qed

text \<open>A known endpoint that was discovered again, and a State Manager that also reports a new one.\<close>

definition rediscovered_world :: "unit world" where
  "rediscovered_world = (world0 ())\<lparr>w_ep := (\<lambda>_. ep_zero\<lparr>ep_ID := ''x1''\<rparr>), w_nextEp := 1, w_HSMEndpoints := [(''x1'', 0)],
     w_endpointsCache := [''x1'' \<mapsto> \<lparr> ec_LastDiscoveryAttempt = ''Monday'', ec_Type = HpeRfType \<rparr>]\<rparr>"

definition smd_answer :: string where
  "smd_answer = ''{\"RedfishEndpoints\":[{\"ID\":\"x1\",\"DiscoveryInfo\":{\"LastDiscoveryAttempt\":\"Tuesday\"}},{\"ID\":\"x2\",\"DiscoveryInfo\":{\"LastDiscoveryStatus\":\"DiscoverOK\"}}]}''"

definition smd_env :: "unit env" where
  "smd_env = env0\<lparr>env_smdDo := (\<lambda>r e. (Inr \<lparr> rs_StatusCode = 200, rs_Body = smd_answer, rs_readErr = False \<rparr>, e))\<rparr>"

lemma smd_update: "map fst (w_HSMEndpoints (snd (doUpdateHSMEndpoints smd_env rediscovered_world))) = [''x1'', ''x2'']"
  by code_simp

lemma rediscovered_ok: "hsm_ok rediscovered_world" "set (w_HSMEndpoints rediscovered_world) = {(''x1'', 0)}"
  by (simp_all add: hsm_ok_def rediscovered_world_def)

theorem refresh_keeps_endpoints_witness:
  "let w' = snd (doUpdateHSMEndpoints smd_env rediscovered_world)
   in hsm_ok w' \<and> (''x1'', 0) \<in> set (w_HSMEndpoints w') \<and> map fst (w_HSMEndpoints w') = [''x1'', ''x2'']"
  using refresh_keeps_endpoints[OF rediscovered_ok(1) prod.collapse[symmetric], of smd_env] smd_update
  unfolding rediscovered_ok(2) Let_def by simp

text \<open>
  C32: with Vault enabled, no endpoint enters the map without its credentials. Whatever Vault answers, and however its
  answers change over time, after a pass every endpoint in the map was there before and still has its user
  and password, or it has the user and the password of the latest answer Vault gave for its xname. A new endpoint for which
  Vault has no credentials, or cannot be asked, stays out of the map.
\<close>

theorem refresh_credentials:
  assumes "VaultEnabled E" "hsm_ok w" "doUpdateHSMEndpoints (vault_log E) w = (r, w')"
    and "(i, p) \<in> set (w_HSMEndpoints w')"
  shows "(i, p) \<in> set (w_HSMEndpoints w)
       \<and> ep_User (w_ep w' p) = ep_User (w_ep w p) \<and> ep_Password (w_ep w' p) = ep_Password (w_ep w p)
    \<or> map_of (fst (w_ext w')) i = Some (Inr (ep_User (w_ep w' p), ep_Password (w_ep w' p)))"
proof -
  have "VaultEnabled (vault_log E)" using assms(1) by (simp add: vault_log_def)
  from vault.refresh_vouched[OF this assms(2,3)] assms(4) show ?thesis by (auto simp: vault.vouched_def)
qed

lemma smd_credentials: "w_HSMEndpoints (snd (doUpdateHSMEndpoints (vault_log smd_env) (world0 ([], ())))) = [(''x2'', 0)]"
  by code_simp

theorem refresh_credentials_witness:
  "let w' = snd (doUpdateHSMEndpoints (vault_log smd_env) (world0 ([], ())))
   in w_HSMEndpoints w' = [(''x2'', 0)]
      \<and> map_of (fst (w_ext w')) ''x2'' = Some (Inr (ep_User (w_ep w' 0), ep_Password (w_ep w' 0)))"
proof -
  have "VaultEnabled smd_env" "hsm_ok (world0 ([], ()))" by (simp_all add: smd_env_def env0_def hsm_ok_def world0_def)
  from refresh_credentials[OF this prod.collapse[symmetric], of "''x2''" 0] smd_credentials show ?thesis
    by (simp add: world0_def Let_def)
qed

text \<open>
  A new discovery of a known endpoint makes its cached Redfish kind stale. When the State Manager
  reports another discovery time than the one the kind was cached for, the update leaves the cache
  alone, and the next reading for the endpoint finds the kind unset, so that it is asked for again.
\<close>

theorem rediscovery_invalidates_kind:
  assumes "hsm_ok w" "map_of (w_HSMEndpoints w) (ep_ID n) = Some e"
    and "w_endpointsCache w (ep_ID n) = Some c" "ec_LastDiscoveryAttempt c \<noteq> di_LastAttempt (ep_DiscInfo n)"
    and "update_endpoint E n w = (r, w')"
  shows "ReadRfType (w_endpointsCache w') (ep_ID (w_ep w' e)) (di_LastAttempt (ep_DiscInfo (w_ep w' e))) = UnsetRfType"
proof -
  from assms(2,5) have "w' = w\<lparr>w_ep := (w_ep w)(e := (w_ep w e)\<lparr>ep_DiscInfo := (ep_DiscInfo (w_ep w e))\<lparr>
      di_LastAttempt := di_LastAttempt (ep_DiscInfo n), di_LastStatus := di_LastStatus (ep_DiscInfo n),
      di_RedfishVersion := di_RedfishVersion (ep_DiscInfo n)\<rparr>\<rparr>)\<rparr>"
    by (simp add: update_endpoint_def)
  with assms(3,4) map_of_ID(2)[OF assms(1,2)] show ?thesis by (simp add: ReadRfType_def)
qed

theorem rediscovery_invalidates_kind_witness:
  "let w' = snd (update_endpoint (env0 :: unit env) (ep_zero\<lparr>ep_ID := ''x1'', ep_DiscInfo := di_zero\<lparr>di_LastAttempt := ''Tuesday''\<rparr>\<rparr>)
       rediscovered_world)
   in ReadRfType (w_endpointsCache w') (ep_ID (w_ep w' 0)) (di_LastAttempt (ep_DiscInfo (w_ep w' 0))) = UnsetRfType"
  unfolding Let_def
  by (rule rediscovery_invalidates_kind[OF _ _ _ _ prod.collapse[symmetric], where e = 0 and
        c = "\<lparr> ec_LastDiscoveryAttempt = ''Monday'', ec_Type = HpeRfType \<rparr>"])
     (simp_all add: rediscovered_world_def hsm_ok_def)

end
