(* ===== verification/JsonRoundtrip.thy ===== *)
theory JsonRoundtrip
  imports Redfish
begin

text \<open>
  What \<^verbatim>\<open>json.Marshal\<close> prints is what \<^verbatim>\<open>json.Unmarshal\<close> reads: for strings, for values, and for the
  structs the collector publishes (\<^verbatim>\<open>Events\<close>) and posts to endpoints (\<^verbatim>\<open>EventSubscription\<close>). Strings
  have to be valid UTF-8, because both directions replace invalid bytes by U+FFFD.
\<close>

section \<open>Strings\<close>

function (sequential) valid_utf8 :: "string \<Rightarrow> bool" where
  "valid_utf8 [] = True"
| "valid_utf8 (c # s) = (utf8_len (c # s) \<noteq> 0 \<and> valid_utf8 (drop (utf8_len (c # s) - 1) s))"
  by pat_completeness auto
termination
  by (relation "measure length") (auto simp: le_imp_less_Suc)

lemma utf8_len_ascii: "of_char c < (128 :: nat) \<Longrightarrow> utf8_len (c # s) = 1"
  by simp

declare utf8_len.simps(2) [simp del]

text \<open>A sequence is recognised by its own bytes, whatever follows.\<close>

lemma utf8_len_take: "utf8_len s \<noteq> 0 \<Longrightarrow> utf8_len s \<le> length s \<and> utf8_len (take (utf8_len s) s @ t) = utf8_len s"
proof -
  assume len: "utf8_len s \<noteq> 0"
  then obtain a s1 where s: "s = a # s1" by (cases s) auto
  show ?thesis
  proof (cases "of_char a < (128 :: nat)")
    case True
    then show ?thesis by (simp add: s utf8_len_ascii)
  next
    case a: False
    with len obtain b s2 where s1: "s1 = b # s2" by (cases s1) (auto simp: s utf8_len.simps Let_def)
    show ?thesis
    proof (cases "194 \<le> (of_char a :: nat) \<and> (of_char a :: nat) \<le> 223 \<and> cont_byte b")
      case True
      with a show ?thesis by (simp add: s s1 utf8_len.simps Let_def)
    next
      case b: False
      with a len obtain c s3 where s2: "s2 = c # s3" by (cases s2) (auto simp: s s1 utf8_len.simps Let_def)
      define three where "three = (((of_char a :: nat) = 224 \<and> in_range b 160 191 \<or> 225 \<le> (of_char a :: nat) \<and> (of_char a :: nat) \<le> 236 \<and> cont_byte b \<or>
          (of_char a :: nat) = 237 \<and> in_range b 128 159 \<or> 238 \<le> (of_char a :: nat) \<and> (of_char a :: nat) \<le> 239 \<and> cont_byte b) \<and> cont_byte c)"
      have eq3: "utf8_len (a # b # c # t) = (if three then 3 else case t of d # t' \<Rightarrow>
          if ((of_char a :: nat) = 240 \<and> in_range b 144 191 \<or> 241 \<le> (of_char a :: nat) \<and> (of_char a :: nat) \<le> 243 \<and> cont_byte b \<or>
              (of_char a :: nat) = 244 \<and> in_range b 128 143) \<and> cont_byte c \<and> cont_byte d then 4 else 0 | [] \<Rightarrow> 0)" for t
        using a b unfolding three_def utf8_len.simps Let_def list.case by (simp only: if_False if_True)
      show ?thesis
      proof (cases three)
        case True
        then show ?thesis by (simp add: s s1 s2 eq3)
      next
        case False
        with len obtain d s4 where s3: "s3 = d # s4" by (cases s3) (auto simp: s s1 s2 eq3)
        with False len have "utf8_len s = 4" by (auto simp: s s1 s2 eq3 split: if_splits)
        with False show ?thesis by (auto simp: s s1 s2 s3 eq3 split: if_splits)
      qed
    qed
  qed
qed

lemma utf8_len_bound: "utf8_len s \<le> length s"
  using utf8_len_take[of s] by (cases "utf8_len s = 0") auto

lemma char_eq_iff: "c = d \<longleftrightarrow> (of_char c :: nat) = of_char d"
  by simp

lemma hexval_hexdigit: "n < 16 \<Longrightarrow> hexval (hexdigit n) = Some n"
  by (auto simp: hexval_def hexdigit_def Let_def)

lemma unicode_escape_ascii:
  assumes "of_char c < (128 :: nat)"
  shows "unicode_escape (''00'' @ [hexdigit (of_char c div 16), hexdigit (of_char c mod 16)] @ t) = Some ([c], 4)"
proof -
  have "hex4 (''00'' @ [hexdigit (of_char c div 16), hexdigit (of_char c mod 16)] @ t) =
      Some (of_char c div 16 * 16 + of_char c mod 16)"
    using assms hexval_hexdigit[of "of_char c div 16"] hexval_hexdigit[of "of_char c mod 16"]
    by (simp add: hex4_def hexval_def)
  then have "hex4 (''00'' @ [hexdigit (of_char c div 16), hexdigit (of_char c mod 16)] @ t) = Some (of_char c)" by simp
  with assms show ?thesis by (simp add: unicode_escape_def is_surrogate_def utf8_encode_def)
qed

lemma str_body_quote_byte:
  assumes "of_char c < (128 :: nat)"
  shows "str_body (quote_byte c @ t) = map_option (\<lambda>(v, r). (c # v, r)) (str_body t)"
proof (cases "of_char c < (32 :: nat) \<or> c = CHR ''<'' \<or> c = CHR ''>'' \<or> c = CHR ''&''")
  case True
  then show ?thesis
    using unicode_escape_ascii[OF assms, of t]
    by (auto simp: quote_byte_def simple_escape_def)
next
  case False
  with assms show ?thesis by (auto simp: quote_byte_def simple_escape_def)
qed

lemma hex_2028:
  "unicode_escape (''2028'' @ t) = Some (utf8_encode 8232, 4)"
  "unicode_escape (''2029'' @ t) = Some (utf8_encode 8233, 4)"
  by (simp_all add: unicode_escape_def hex4_def hexval_def is_surrogate_def)

lemma str_body_multi:
  assumes "128 \<le> (of_char c :: nat)" "utf8_len (c # s) \<noteq> 0"
  shows "str_body (take (utf8_len (c # s)) (c # s) @ t) =
    map_option (\<lambda>(v, r). (take (utf8_len (c # s)) (c # s) @ v, r)) (str_body t)"
proof -
  define k where "k = utf8_len (c # s)"
  have k: "k \<noteq> 0" "k \<le> Suc (length s)" using assms utf8_len_bound[of "c # s"] by (simp_all add: k_def)
  then obtain j where j: "k = Suc j" by (cases k) auto
  have shape: "take k (c # s) @ t = c # (take j s @ t)" using j by simp
  have "utf8_len (c # (take j s @ t)) = k"
    using utf8_len_take[of "c # s" t] assms(2) unfolding k_def[symmetric] shape by simp
  moreover have "drop j (take j s @ t) = t" "take k (c # (take j s @ t)) = take k (c # s)"
    using k j by simp_all
  moreover have "c \<noteq> CHR 0x22" "c \<noteq> CHR 0x5C" using assms(1) by auto
  ultimately show ?thesis using assms(1) k j unfolding k_def[symmetric] shape by (simp add: Let_def)
qed

lemma str_body_quote: "valid_utf8 s \<Longrightarrow> str_body (quote_body s @ CHR 0x22 # r) = Some (s, r)"
proof (induction s rule: valid_utf8.induct)
  case (2 c s)
  define k where "k = utf8_len (c # s)"
  let ?t = "quote_body (drop (k - 1) s) @ CHR 0x22 # r"
  from 2(2) have k: "k \<noteq> 0" "valid_utf8 (drop (k - 1) s)" by (simp_all add: k_def)
  with 2(1) have IH: "str_body ?t = Some (drop (k - 1) s, r)" by (simp add: k_def)
  show ?case
  proof (cases "of_char c < (128 :: nat)")
    case True
    with IH show ?thesis using str_body_quote_byte[OF True, of ?t] by (simp add: k_def utf8_len_ascii)
  next
    case False
    obtain j where j: "k = Suc j" using k(1) by (cases k) auto
    have back1: "take k (c # s) @ drop (k - 1) s = c # s" using j by simp
    have quot: "quote_body (c # s) =
       (if take k (c # s) = utf8_encode 8232 then CHR 0x5C # ''u2028''
        else if take k (c # s) = utf8_encode 8233 then CHR 0x5C # ''u2029''
        else take k (c # s)) @ quote_body (drop (k - 1) s)"
      using False k(1) by (simp add: k_def[symmetric] Let_def)
    show ?thesis
      using IH back1 hex_2028[of ?t] str_body_multi[of c s ?t] False k(1)
      unfolding quot k_def[symmetric] by auto
  qed
qed simp

section \<open>Numbers\<close>

text \<open>What may follow a number without becoming part of it.\<close>

definition number_end :: "string \<Rightarrow> bool" where
  "number_end r \<longleftrightarrow> (case r of [] \<Rightarrow> True | c # _ \<Rightarrow> c = CHR '','' \<or> c = CHR '']'' \<or> c = CHR ''}'')"

lemma number_end_simps [simp]:
  "number_end []" "number_end (CHR '','' # r)" "number_end (CHR '']'' # r)" "number_end (CHR ''}'' # r)"
  by (simp_all add: number_end_def)

lemma take_digits_append:
  assumes "list_all isDigit ds" "ds \<noteq> []" "number_end r"
  shows "take_digits (ds @ r) = Some (ds, r)"
proof -
  have "takeWhile isDigit r = []" "dropWhile isDigit r = r"
    using assms(3) by (auto simp: number_end_def isDigit_def split: list.splits)
  with assms(1,2) show ?thesis by (simp add: take_digits_def takeWhile_append2 list_all_iff)
qed

lemma hd_showNat: "0 < n \<Longrightarrow> hd (showNat n) \<noteq> CHR ''0''"
proof (induction n rule: showNat.induct)
  case (1 n)
  show ?case
  proof (cases "n < 10")
    case True
    with 1(2) have "digitChar n \<noteq> CHR ''0''" by (simp add: digitChar_def char_eq_iff)
    with True show ?thesis by (subst showNat.simps) simp
  next
    case False
    with 1 show ?thesis by (subst showNat.simps) simp
  qed
qed

lemma showNat_zero: "showNat 0 = ''0''"
  by code_simp

lemma lex_showNat:
  assumes "number_end r" and "sg = [] \<or> sg = ''-''"
  shows "lex_number (sg @ showNat n @ r) = Some (sg @ showNat n, r)"
proof -
  obtain c ds where d: "showNat n = c # ds" using showNat_not_Nil[of n] by (cases "showNat n") auto
  have digits: "list_all isDigit (c # ds)" using showNat_digits[of n] d by simp
  then have c: "c \<noteq> CHR ''-''" by (auto simp: isDigit_def)
  have zero: "c = CHR ''0'' \<Longrightarrow> ds = []"
    using hd_showNat[of n] showNat_zero d by (cases "n = 0") auto
  have take: "take_digits (c # ds @ r) = Some (c # ds, r)"
    using take_digits_append[OF digits _ assms(1)] by simp
  consider "r = []" | c' r' where "r = c' # r'" "c' = CHR '','' \<or> c' = CHR '']'' \<or> c' = CHR ''}''"
    using assms(1) by (cases r) (auto simp: number_end_def)
  then show ?thesis
  proof cases
    case 1
    with assms(2) c zero take show ?thesis unfolding d by (cases "c = CHR ''0''") (auto simp: lex_number_def)
  next
    case (2 c' r')
    with assms(2) c zero take show ?thesis unfolding d by (cases "c = CHR ''0''") (auto simp: lex_number_def)
  qed
qed

section \<open>Values\<close>

text \<open>The values the encoders build: valid strings, and integers as their only numbers.\<close>

fun printable :: "json \<Rightarrow> bool" where
  "printable (JNum l) = (\<exists>i. l = Itoa i)"
| "printable (JStr s) = valid_utf8 s"
| "printable (JArr vs) = list_all printable vs"
| "printable (JObj ms) = list_all (\<lambda>kv. valid_utf8 (fst kv) \<and> printable (snd kv)) ms"
| "printable j = True"

lemma lex_Itoa: "number_end r \<Longrightarrow> lex_number (Itoa i @ r) = Some (Itoa i, r)"
  using lex_showNat[of r "[]"] lex_showNat[of r "''-''"] by (simp add: Itoa_def)

lemma Itoa_head: "\<exists>c t. Itoa i = c # t \<and> (isDigit c \<or> c = CHR ''-'')"
proof -
  obtain c ds where "showNat (nat i) = c # ds" "isDigit c"
    using showNat_not_Nil[of "nat i"] showNat_digits[of "nat i"] by (cases "showNat (nat i)") auto
  then show ?thesis by (auto simp: Itoa_def)
qed

lemma not_WS [simp]: "isDigit c \<Longrightarrow> \<not> isWS c" "\<not> isWS (CHR ''-'')" "\<not> isWS (CHR ''{'')" "\<not> isWS (CHR ''['')"
  "\<not> isWS (CHR 0x22)" "\<not> isWS (CHR ''n'')" "\<not> isWS (CHR ''t'')" "\<not> isWS (CHR ''f'')"
  "\<not> isWS (CHR '','')" "\<not> isWS (CHR '':'')" "\<not> isWS (CHR '']'')" "\<not> isWS (CHR ''}'')"
  by (auto simp: isWS_def isDigit_def)

lemma skipws_Cons [simp]: "\<not> isWS c \<Longrightarrow> skipws (c # s) = c # s"
  by (simp add: skipws_def)

lemma render_head:
  "printable j \<Longrightarrow> \<exists>c t. json_render j = c # t \<and> \<not> isWS c \<and> c \<noteq> CHR '']'' \<and> c \<noteq> CHR ''}''"
proof (cases j)
  case (JNum l)
  moreover assume "printable j"
  ultimately obtain i where "l = Itoa i" by auto
  then show ?thesis using Itoa_head[of i] JNum by (auto simp: isDigit_def)
qed (auto simp: json_quote_def)

lemma lex_literal_Itoa: "number_end r \<Longrightarrow> lex_literal (Itoa i @ r) = Some (JNum (Itoa i), r)"
proof -
  assume r: "number_end r"
  obtain c t where h: "Itoa i = c # t" "isDigit c \<or> c = CHR ''-''" using Itoa_head by blast
  then have "\<not> HasPrefix (Itoa i @ r) ''null''" "\<not> HasPrefix (Itoa i @ r) ''true''" "\<not> HasPrefix (Itoa i @ r) ''false''"
    by (auto simp: HasPrefix_iff isDigit_def)
  then show ?thesis using lex_Itoa[OF r] by (simp add: lex_literal_def)
qed

declare pvalue.simps(2) [simp del] pelems.simps(2) [simp del] pmembers.simps(2) [simp del]

definition reads_back :: "json \<Rightarrow> bool" where
  "reads_back j \<longleftrightarrow> (\<forall>n r. number_end r \<longrightarrow> length (json_render j) \<le> n \<longrightarrow> pvalue n (json_render j @ r) = Some (j, r))"

lemma reads_backD: "reads_back j \<Longrightarrow> number_end r \<Longrightarrow> length (json_render j) \<le> n \<Longrightarrow> pvalue n (json_render j @ r) = Some (j, r)"
  by (simp add: reads_back_def)

lemma render_length: "printable j \<Longrightarrow> 0 < length (json_render j)"
  using render_head by fastforce

lemma pelems_render:
  "vs \<noteq> [] \<Longrightarrow> list_all (\<lambda>v. printable v \<and> reads_back v) vs \<Longrightarrow> length (Join (map json_render vs) (CHR '','')) < n \<Longrightarrow>
     pelems n (Join (map json_render vs) (CHR '','') @ CHR '']'' # r) = Some (vs, r)"
proof (induction vs arbitrary: n)
  case (Cons v vs)
  then obtain m where n: "n = Suc m" by (cases n) auto
  show ?case
  proof (cases vs)
    case Nil
    with Cons.prems n reads_backD[of v "CHR '']'' # r" m] show ?thesis by (simp add: pelems.simps(2))
  next
    case (Cons v2 vs2)
    let ?J = "Join (map json_render vs) (CHR '','')"
    have J: "Join (map json_render (v # vs)) (CHR '','') = json_render v @ CHR '','' # ?J" using Cons by simp
    from Cons.prems(3) n render_length[of v] Cons.prems(2) have "length (json_render v) \<le> m" "length ?J < m"
      unfolding J by auto
    with Cons.IH[of m] Cons.prems(2) Cons reads_backD[of v "CHR '','' # ?J @ CHR '']'' # r" m] show ?thesis
      unfolding n J by (simp add: pelems.simps(2))
  qed
qed simp

lemma pmembers_render:
  "ms \<noteq> [] \<Longrightarrow> list_all (\<lambda>kv. valid_utf8 (fst kv) \<and> printable (snd kv) \<and> reads_back (snd kv)) ms \<Longrightarrow>
     length (Join (map (\<lambda>kv. json_quote (fst kv) @ CHR '':'' # json_render (snd kv)) ms) (CHR '','')) < n \<Longrightarrow>
     pmembers n (Join (map (\<lambda>kv. json_quote (fst kv) @ CHR '':'' # json_render (snd kv)) ms) (CHR '','') @ CHR ''}'' # r) = Some (ms, r)"
proof (induction ms arbitrary: n)
  case (Cons kv ms)
  then obtain m where n: "n = Suc m" by (cases n) auto
  obtain k v where kv: "kv = (k, v)" by (cases kv)
  from Cons.prems(2) have ok: "valid_utf8 k" "reads_back v" "printable v" by (simp_all add: kv)
  have key: "str_body (quote_body k @ CHR 0x22 # t) = Some (k, t)" for t using str_body_quote[OF ok(1)] .
  show ?case
  proof (cases ms)
    case Nil
    with Cons.prems(3) n reads_backD[OF ok(2), of "CHR ''}'' # r" m] key show ?thesis
      by (simp add: kv pmembers.simps(2) json_quote_def)
  next
    case (Cons kv2 ms2)
    let ?J = "Join (map (\<lambda>kv. json_quote (fst kv) @ CHR '':'' # json_render (snd kv)) ms) (CHR '','')"
    have J: "Join (map (\<lambda>kv. json_quote (fst kv) @ CHR '':'' # json_render (snd kv)) (kv # ms)) (CHR '','')
        = (json_quote k @ CHR '':'' # json_render v) @ CHR '','' # ?J" using Cons by (simp add: kv)
    from Cons.prems(3) n have "length (json_render v) \<le> m" "length ?J < m" unfolding J by auto
    with Cons.IH[of m] Cons.prems(2) Cons reads_backD[OF ok(2), of "CHR '','' # ?J @ CHR ''}'' # r" m] key show ?thesis
      unfolding n J by (simp add: kv pmembers.simps(2) json_quote_def)
  qed
qed simp

lemma printable_reads_back: "printable j \<Longrightarrow> reads_back j"
proof (induction j)
  case (JNum l)
  then obtain i where l: "l = Itoa i" by auto
  { fix n r assume r: "number_end r" "length (json_render (JNum l)) \<le> n"
    obtain c t where h: "Itoa i = c # t" "isDigit c \<or> c = CHR ''-''" using Itoa_head by blast
    from r(2) h obtain m where n: "n = Suc m" by (cases n) (auto simp: l)
    have "pvalue n (json_render (JNum l) @ r) = Some (JNum l, r)"
      using lex_literal_Itoa[OF r(1), of i] h by (auto simp: l n pvalue.simps(2) isDigit_def) }
  then show ?case by (simp add: reads_back_def)
next
  case (JStr s)
  { fix n r assume "length (json_render (JStr s)) \<le> n"
    then obtain m where n: "n = Suc m" by (cases n) (auto simp: json_quote_def)
    have "pvalue n (json_render (JStr s) @ r) = Some (JStr s, r)"
      using str_body_quote[of s r] JStr by (simp add: n pvalue.simps(2) json_quote_def) }
  then show ?case by (simp add: reads_back_def)
next
  case (JArr vs)
  then have all: "list_all (\<lambda>v. printable v \<and> reads_back v) vs" by (simp add: list_all_iff)
  { fix n r assume len: "length (json_render (JArr vs)) \<le> n"
    then obtain m where n: "n = Suc m" by (cases n) auto
    have "pvalue n (json_render (JArr vs) @ r) = Some (JArr vs, r)"
    proof (cases vs)
      case Nil
      then show ?thesis by (simp add: n pvalue.simps(2))
    next
      case (Cons v vs')
      with all obtain c t where h: "json_render v = c # t" "\<not> isWS c" "c \<noteq> CHR '']''" using render_head by fastforce
      have "\<exists>t. Join (map json_render vs) (CHR '','') = c # t" using h Cons by (cases vs') auto
      then obtain t' where J: "Join (map json_render vs) (CHR '','') = c # t'" by blast
      from pelems_render[OF _ all, of m r] len n Cons J have "pelems m (c # t' @ CHR '']'' # r) = Some (vs, r)" by simp
      with h J show ?thesis by (simp add: n pvalue.simps(2))
    qed }
  then show ?case by (simp add: reads_back_def)
next
  case (JObj ms)
  then have all: "list_all (\<lambda>kv. valid_utf8 (fst kv) \<and> printable (snd kv) \<and> reads_back (snd kv)) ms"
    by (force simp: list_all_iff)
  { fix n r assume len: "length (json_render (JObj ms)) \<le> n"
    then obtain m where n: "n = Suc m" by (cases n) auto
    have "pvalue n (json_render (JObj ms) @ r) = Some (JObj ms, r)"
    proof (cases ms)
      case Nil
      then show ?thesis by (simp add: n pvalue.simps(2))
    next
      case (Cons kv ms')
      let ?J = "Join (map (\<lambda>kv. json_quote (fst kv) @ CHR '':'' # json_render (snd kv)) ms) (CHR '','')"
      have "\<exists>t. ?J = CHR 0x22 # t" using Cons by (cases ms') (auto simp: json_quote_def)
      then obtain t where J: "?J = CHR 0x22 # t" by blast
      from pmembers_render[OF _ all, of m r] len n Cons J have "pmembers m (CHR 0x22 # t @ CHR ''}'' # r) = Some (ms, r)" by simp
      with J show ?thesis by (simp add: n pvalue.simps(2))
    qed }
  then show ?case by (simp add: reads_back_def)
next
  case (JBool b)
  { fix n r assume "length (json_render (JBool b)) \<le> n"
    then obtain m where n: "n = Suc m" by (cases n) (auto split: if_splits)
    have "pvalue n (json_render (JBool b) @ r) = Some (JBool b, r)"
      by (cases b) (simp_all add: n pvalue.simps(2) lex_literal_def HasPrefix_def) }
  then show ?case by (simp add: reads_back_def)
next
  case JNull
  { fix n r assume "length (json_render JNull) \<le> n"
    then obtain m where n: "n = Suc m" by (cases n) auto
    have "pvalue n (json_render JNull @ r) = Some (JNull, r)"
      by (simp add: n pvalue.simps(2) lex_literal_def HasPrefix_def) }
  then show ?case by (simp add: reads_back_def)
qed

lemma json_parse_render:
  assumes "printable j" "json_depth j \<le> 10000"
  shows "json_parse (json_render j) = Some j"
  using reads_backD[OF printable_reads_back[OF assms(1)], of "[]" "2 * length (json_render j) + 2"] assms(2)
  by (simp add: json_parse_def skipws_def)

section \<open>Structs\<close>

text \<open>
  Reading back the members a struct was printed as, one at a time: a member that was left out because
  its value is empty is read as no change, which is right when the variable is still empty.
\<close>

lemma dec_str_oe:
  assumes "find_field fs k = Some (snd (jfield k get upd dec_string))" "v = [] \<Longrightarrow> upd (\<lambda>_. v) s = s"
  shows "dec_members fs (w_str_oe k v @ ms) s = dec_members fs ms (upd (\<lambda>_. v) s)"
  using assms by (simp add: w_str_oe_def jfield_def dec_string_def split: prod.splits)

lemma dec_str:
  assumes "find_field fs k = Some (snd (jfield k get upd dec_string))"
  shows "dec_members fs (w_str k v @ ms) s = dec_members fs ms (upd (\<lambda>_. v) s)"
  using assms by (simp add: w_str_def jfield_def dec_string_def split: prod.splits)

lemma dec_elems_encoded:
  "(\<And>x. x \<in> set xs \<Longrightarrow> d (enc x) zero = (x, True)) \<Longrightarrow> dec_elems d zero (map enc xs) [] = (xs, True)"
  by (induction xs) simp_all

lemma dec_strs_oe:
  assumes "find_field fs k = Some (snd (jfield k get upd (dec_list dec_string [])))" "get s = []" "v = [] \<Longrightarrow> upd (\<lambda>_. v) s = s"
  shows "dec_members fs (w_strs_oe k v @ ms) s = dec_members fs ms (upd (\<lambda>_. v) s)"
proof -
  have "dec_elems dec_string [] (map JStr v) [] = (v, True)" by (rule dec_elems_encoded) (simp add: dec_string_def)
  with assms show ?thesis by (simp add: w_strs_oe_def jfield_def dec_list_def split: prod.splits)
qed

text \<open>Integers: an \<^verbatim>\<open>int16\<close> is printed with its sign, and a literal in range is read as its value.\<close>

lemma digits_val_snoc: "digits_val (xs @ [c]) = digits_val xs * 10 + int (digitVal c)"
  by (simp add: digits_val_def)

lemma digits_val_showNat: "digits_val (showNat n) = int n"
proof (induction n rule: showNat.induct)
  case (1 n)
  show ?case
  proof (cases "n < 10")
    case True
    then show ?thesis by (subst showNat.simps) (simp add: digits_val_def)
  next
    case False
    then have "digits_val (showNat n) = int (n div 10) * 10 + int (n mod 10)"
      using 1[OF False] by (subst showNat.simps) (simp add: digits_val_snoc)
    with div_mult_mod_eq[of n 10] show ?thesis by linarith
  qed
qed

lemma parse_int_literal_Itoa:
  assumes "- (2 ^ (w - 1)) \<le> i" "i < 2 ^ (w - 1)"
  shows "parse_int_literal w (Itoa i) = Some i"
proof -
  obtain c ds where d: "showNat (nat i) = c # ds" "isDigit c"
    using showNat_not_Nil[of "nat i"] showNat_digits[of "nat i"] by (cases "showNat (nat i)") auto
  then have "c \<noteq> CHR ''-''" by (auto simp: isDigit_def)
  with assms d digits_val_showNat[of "nat i"] digits_val_showNat[of "nat (- i)"] showNat_digits[of "nat i"]
    showNat_digits[of "nat (- i)"]
  show ?thesis by (auto simp: parse_int_literal_def Itoa_def Let_def)
qed

lemma dec_int16_Itoa: "dec_int16 (JNum (Itoa (sint i))) old = (i, True)"
  using parse_int_literal_Itoa[of 16 "sint i"] sint_ge[of i] sint_lt[of i] by (simp add: dec_int16_def)

lemma dec_int16_oe:
  assumes "find_field fs k = Some (snd (jfield k get upd (dec_ptr dec_int16 0)))" "v = None \<Longrightarrow> upd (\<lambda>_. v) s = s"
  shows "dec_members fs (w_int16_oe k v @ ms) s = dec_members fs ms (upd (\<lambda>_. v) s)"
  using assms dec_int16_Itoa
  by (cases v) (simp_all add: w_int16_oe_def jfield_def dec_ptr_def split: prod.splits)

lemmas jfield_select = find_field_def jfield_def

subsection \<open>Readings and events\<close>

lemma payload_find:
  "find_field payload_fields ''Timestamp'' = Some (snd (jfield ''Timestamp'' pl_Timestamp pl_Timestamp_update dec_string))"
  "find_field payload_fields ''Location'' = Some (snd (jfield ''Location'' pl_Location pl_Location_update dec_string))"
  "find_field payload_fields ''PhysicalContext'' = Some (snd (jfield ''PhysicalContext'' pl_PhysicalContext pl_PhysicalContext_update dec_string))"
  "find_field payload_fields ''Value'' = Some (snd (jfield ''Value'' pl_Value pl_Value_update dec_string))"
  by (simp_all add: payload_fields_def jfield_select)

lemma payload_find_oe:
  "find_field payload_fields ''ParentalContext'' = Some (snd (jfield ''ParentalContext'' pl_ParentalContext pl_ParentalContext_update dec_string))"
  "find_field payload_fields ''PhysicalSubContext'' = Some (snd (jfield ''PhysicalSubContext'' pl_PhysicalSubContext pl_PhysicalSubContext_update dec_string))"
  "find_field payload_fields ''DeviceSpecificContext'' = Some (snd (jfield ''DeviceSpecificContext'' pl_DeviceSpecificContext pl_DeviceSpecificContext_update dec_string))"
  by (simp_all add: payload_fields_def jfield_select)

lemma payload_find_index:
  "find_field payload_fields ''ParentalIndex'' = Some (snd (jfield ''ParentalIndex'' pl_ParentalIndex pl_ParentalIndex_update (dec_ptr dec_int16 0)))"
  "find_field payload_fields ''Index'' = Some (snd (jfield ''Index'' pl_Index pl_Index_update (dec_ptr dec_int16 0)))"
  "find_field payload_fields ''SubIndex'' = Some (snd (jfield ''SubIndex'' pl_SubIndex pl_SubIndex_update (dec_ptr dec_int16 0)))"
  by (simp_all add: payload_fields_def jfield_select)

lemmas payload_read = payload_find[THEN dec_str] payload_find_oe[THEN dec_str_oe] payload_find_index[THEN dec_int16_oe]

lemma dec_enc_payload: "dec_struct payload_fields (enc_payload p) payload_zero = (p, True)"
proof -
  have "dec_struct payload_fields (enc_payload p) payload_zero = dec_members payload_fields
    (w_str ''Timestamp'' (pl_Timestamp p) @ w_str ''Location'' (pl_Location p) @
     w_str_oe ''ParentalContext'' (pl_ParentalContext p) @ w_int16_oe ''ParentalIndex'' (pl_ParentalIndex p) @
     w_str ''PhysicalContext'' (pl_PhysicalContext p) @ w_int16_oe ''Index'' (pl_Index p) @
     w_str_oe ''PhysicalSubContext'' (pl_PhysicalSubContext p) @
     w_str_oe ''DeviceSpecificContext'' (pl_DeviceSpecificContext p) @
     w_int16_oe ''SubIndex'' (pl_SubIndex p) @ w_str ''Value'' (pl_Value p) @ []) payload_zero"
    by (simp add: dec_struct_def enc_payload_def)
  also have "\<dots> = (p, True)"
    by (simp add: payload_read payload_zero_def del: append_Nil2)
  finally show ?thesis .
qed

lemma sensors_find:
  "find_field sensors_fields ''Sensors'' = Some (snd (jfield ''Sensors'' ss_Sensors ss_Sensors_update
     (dec_slice (dec_struct payload_fields) payload_zero)))"
  "find_field sensors_fields ''TelemetrySource'' = Some (snd (jfield ''TelemetrySource'' ss_TelemetrySource
     ss_TelemetrySource_update dec_string))"
  by (simp_all add: sensors_fields_def jfield_select)

lemma dec_enc_sensors: "dec_struct sensors_fields (enc_sensors s) sensors_zero = (s, True)"
proof -
  have "dec_elems (dec_struct payload_fields) payload_zero (map enc_payload ps) [] = (ps, True)" for ps
    by (rule dec_elems_encoded) (rule dec_enc_payload)
  then show ?thesis
    by (cases "ss_Sensors s")
       (simp_all add: dec_struct_def enc_sensors_def sensors_find jfield_def dec_slice_def dec_string_def sensors_zero_def)
qed

lemma dec_enc_resource: "dec_struct resource_fields (enc_resource r) resource_zero = (r, True)"
  by (simp add: dec_struct_def enc_resource_def resource_fields_def jfield_select dec_string_def resource_zero_def)

lemma event_find:
  "find_field event_fields ''EventType'' = Some (snd (jfield ''EventType'' ev_EventType ev_EventType_update dec_string))"
  "find_field event_fields ''EventId'' = Some (snd (jfield ''EventId'' ev_EventId ev_EventId_update dec_string))"
  "find_field event_fields ''EventTimestamp'' = Some (snd (jfield ''EventTimestamp'' ev_EventTimestamp ev_EventTimestamp_update dec_string))"
  "find_field event_fields ''Severity'' = Some (snd (jfield ''Severity'' ev_Severity ev_Severity_update dec_string))"
  "find_field event_fields ''Message'' = Some (snd (jfield ''Message'' ev_Message ev_Message_update dec_string))"
  "find_field event_fields ''MessageId'' = Some (snd (jfield ''MessageId'' ev_MessageId ev_MessageId_update dec_string))"
  "find_field event_fields ''Context'' = Some (snd (jfield ''Context'' ev_Context ev_Context_update dec_string))"
  by (simp_all add: event_fields_def jfield_select)

lemma event_find_args:
  "find_field event_fields ''MessageArgs'' = Some (snd (jfield ''MessageArgs'' ev_MessageArgs ev_MessageArgs_update (dec_list dec_string [])))"
  by (simp add: event_fields_def jfield_select)

lemma event_find_origin:
  "find_field event_fields ''OriginOfCondition'' = Some (snd (jfield ''OriginOfCondition'' ev_OriginOfCondition
     ev_OriginOfCondition_update (dec_ptr (dec_struct resource_fields) resource_zero)))"
  by (simp add: event_fields_def jfield_select)

lemma event_find_oem:
  "find_field event_fields ''Oem'' = Some (snd (jfield ''Oem'' ev_Oem ev_Oem_update
     (dec_ptr (dec_struct sensors_fields) sensors_zero)))"
  by (simp add: event_fields_def jfield_select)

lemma dec_ptr_oe:
  assumes "find_field fs k = Some (snd (jfield k get upd (dec_ptr d zero)))" "\<And>x. d (enc x) zero = (x, True)"
    and "\<And>x. enc x \<noteq> JNull" "get s = None" "v = None \<Longrightarrow> upd (\<lambda>_. v) s = s"
  shows "dec_members fs ((case v of None \<Rightarrow> [] | Some x \<Rightarrow> [(k, enc x)]) @ ms) s = dec_members fs ms (upd (\<lambda>_. v) s)"
proof (cases v)
  case (Some x)
  then have "dec_ptr d zero (enc x) None = (Some x, True)"
    using assms(2)[of x] assms(3)[of x] by (cases "enc x") (simp_all add: dec_ptr_def)
  with assms(1,4) Some show ?thesis by (simp add: jfield_def)
qed (use assms(5) in simp)

lemma enc_not_JNull: "enc_resource r \<noteq> JNull" "enc_sensors s \<noteq> JNull"
  by (simp_all add: enc_resource_def enc_sensors_def)

lemmas event_read = event_find[THEN dec_str_oe] event_find_args[THEN dec_strs_oe]
  dec_ptr_oe[OF event_find_origin dec_enc_resource enc_not_JNull(1)]
  dec_ptr_oe[OF event_find_oem dec_enc_sensors enc_not_JNull(2)]

lemma dec_enc_event: "dec_struct event_fields (enc_event e) event_zero = (e, True)"
proof -
  have "dec_struct event_fields (enc_event e) event_zero = dec_members event_fields
    (w_str_oe ''EventType'' (ev_EventType e) @ w_str_oe ''EventId'' (ev_EventId e) @
     w_str_oe ''EventTimestamp'' (ev_EventTimestamp e) @ w_str_oe ''Severity'' (ev_Severity e) @
     w_str_oe ''Message'' (ev_Message e) @ w_str_oe ''MessageId'' (ev_MessageId e) @
     w_strs_oe ''MessageArgs'' (ev_MessageArgs e) @ w_str_oe ''Context'' (ev_Context e) @
     (case ev_OriginOfCondition e of None \<Rightarrow> [] | Some r \<Rightarrow> [(''OriginOfCondition'', enc_resource r)]) @
     (case ev_Oem e of None \<Rightarrow> [] | Some s \<Rightarrow> [(''Oem'', enc_sensors s)]) @ []) event_zero"
    by (simp add: dec_struct_def enc_event_def)
  also have "\<dots> = (e, True)"
    by (simp add: event_read event_zero_def del: append_Nil2)
  finally show ?thesis .
qed

lemma events_find:
  "find_field events_fields ''@odata.context'' = Some (snd (jfield ''@odata.context'' evs_OContext evs_OContext_update dec_string))"
  "find_field events_fields ''@odata.id'' = Some (snd (jfield ''@odata.id'' evs_Oid evs_Oid_update dec_string))"
  "find_field events_fields ''@odata.type'' = Some (snd (jfield ''@odata.type'' evs_Otype evs_Otype_update dec_string))"
  "find_field events_fields ''Id'' = Some (snd (jfield ''Id'' evs_Id evs_Id_update dec_string))"
  "find_field events_fields ''Name'' = Some (snd (jfield ''Name'' evs_Name evs_Name_update dec_string))"
  "find_field events_fields ''Context'' = Some (snd (jfield ''Context'' evs_Context evs_Context_update dec_string))"
  "find_field events_fields ''Description'' = Some (snd (jfield ''Description'' evs_Description evs_Description_update dec_string))"
  by (simp_all add: events_fields_def jfield_select)

lemma events_find_events:
  "find_field events_fields ''Events'' = Some (snd (jfield ''Events'' evs_Events evs_Events_update
     (dec_list (dec_struct event_fields) event_zero)))"
  "find_field events_fields ''Events@odata.count'' = Some (snd (jfield ''Events@odata.count'' evs_EventsOCount
     evs_EventsOCount_update (dec_int 64)))"
  by (simp_all add: events_fields_def jfield_select)

lemma dec_int_oe:
  assumes "find_field fs k = Some (snd (jfield k get upd (dec_int 64)))" "- (2 ^ 63) \<le> v" "v < 2 ^ 63"
    and "v = 0 \<Longrightarrow> upd (\<lambda>_. v) s = s"
  shows "dec_members fs ((if v = 0 then [] else [(k, JNum (Itoa v))]) @ ms) s = dec_members fs ms (upd (\<lambda>_. v) s)"
  using assms parse_int_literal_Itoa[of 64 v] by (simp add: jfield_def dec_int_def)

lemma dec_list_oe:
  assumes "find_field fs k = Some (snd (jfield k get upd (dec_list d zero)))" "\<And>x. d (enc x) zero = (x, True)"
    and "get s = []" "v = [] \<Longrightarrow> upd (\<lambda>_. v) s = s"
  shows "dec_members fs ((if v = [] then [] else [(k, JArr (map enc v))]) @ ms) s = dec_members fs ms (upd (\<lambda>_. v) s)"
  using assms dec_elems_encoded[of v d enc zero] by (simp add: jfield_def dec_list_def)

lemmas events_read = events_find[THEN dec_str_oe] dec_list_oe[OF events_find_events(1) dec_enc_event]
  dec_int_oe[OF events_find_events(2)]

lemma dec_enc_events:
  assumes "- (2 ^ 63) \<le> evs_EventsOCount e" "evs_EventsOCount e < 2 ^ 63"
  shows "dec_struct events_fields (enc_events e) events_zero = (e, True)"
proof -
  have "dec_struct events_fields (enc_events e) events_zero = dec_members events_fields
    (w_str_oe ''@odata.context'' (evs_OContext e) @ w_str_oe ''@odata.id'' (evs_Oid e) @
     w_str_oe ''@odata.type'' (evs_Otype e) @ w_str_oe ''Id'' (evs_Id e) @
     w_str_oe ''Name'' (evs_Name e) @ w_str_oe ''Context'' (evs_Context e) @
     w_str_oe ''Description'' (evs_Description e) @
     (if evs_Events e = [] then [] else [(''Events'', JArr (map enc_event (evs_Events e)))]) @
     (if evs_EventsOCount e = 0 then []
      else [(''Events@odata.count'', JNum (Itoa (evs_EventsOCount e)))]) @ []) events_zero"
    by (simp add: dec_struct_def enc_events_def)
  also have "\<dots> = (e, True)"
    by (simp add: events_read assms[simplified] events_zero_def del: append_Nil2)
  finally show ?thesis .
qed

subsection \<open>Subscriptions\<close>

lemma es_find:
  "find_field es_fields ''@odata.context'' = Some (snd (jfield ''@odata.context'' es_OContext es_OContext_update dec_string))"
  "find_field es_fields ''@odata.id'' = Some (snd (jfield ''@odata.id'' es_Oid es_Oid_update dec_string))"
  "find_field es_fields ''@odata.type'' = Some (snd (jfield ''@odata.type'' es_Otype es_Otype_update dec_string))"
  "find_field es_fields ''Id'' = Some (snd (jfield ''Id'' es_Id es_Id_update dec_string))"
  "find_field es_fields ''Name'' = Some (snd (jfield ''Name'' es_Name es_Name_update dec_string))"
  "find_field es_fields ''Context'' = Some (snd (jfield ''Context'' es_Context es_Context_update dec_string))"
  by (simp_all add: es_fields_def jfield_select)

lemma es_find_str:
  "find_field es_fields ''Destination'' = Some (snd (jfield ''Destination'' es_Destination es_Destination_update dec_string))"
  "find_field es_fields ''Protocol'' = Some (snd (jfield ''Protocol'' es_Protocol es_Protocol_update dec_string))"
  by (simp_all add: es_fields_def jfield_select)

lemma es_find_strs:
  "find_field es_fields ''EventTypes'' = Some (snd (jfield ''EventTypes'' es_EventTypes es_EventTypes_update (dec_list dec_string [])))"
  "find_field es_fields ''RegistryPrefixes'' = Some (snd (jfield ''RegistryPrefixes'' es_RegistryPrefixes
     es_RegistryPrefixes_update (dec_list dec_string [])))"
  by (simp_all add: es_fields_def jfield_select)

lemmas es_read = es_find[THEN dec_str_oe] es_find_str[THEN dec_str] es_find_strs[THEN dec_strs_oe]

text \<open>A subscription without the Oem part, as the collector posts it.\<close>

lemma dec_enc_subscription:
  assumes "es_Oem e = None"
  shows "dec_struct es_fields (enc_subscription e) es_zero = (e, True)"
proof -
  have "dec_struct es_fields (enc_subscription e) es_zero = dec_members es_fields
    (w_str_oe ''@odata.context'' (es_OContext e) @ w_str_oe ''@odata.id'' (es_Oid e) @
     w_str_oe ''@odata.type'' (es_Otype e) @ w_str_oe ''Id'' (es_Id e) @ w_str_oe ''Name'' (es_Name e) @
     w_str_oe ''Context'' (es_Context e) @ w_str ''Destination'' (es_Destination e) @
     w_strs_oe ''EventTypes'' (es_EventTypes e) @ w_str ''Protocol'' (es_Protocol e) @
     w_strs_oe ''RegistryPrefixes'' (es_RegistryPrefixes e) @ []) es_zero"
    using assms by (simp add: dec_struct_def enc_subscription_def)
  also have "\<dots> = (e, True)"
    using assms by (simp add: es_read es_zero_def del: append_Nil2)
  finally show ?thesis .
qed

section \<open>Texts\<close>

text \<open>Every string in the data is valid UTF-8.\<close>

definition payload_text :: "CrayJSONPayload \<Rightarrow> bool" where
  "payload_text p \<longleftrightarrow> list_all valid_utf8 [pl_Timestamp p, pl_Location p, pl_ParentalContext p, pl_PhysicalContext p,
     pl_PhysicalSubContext p, pl_DeviceSpecificContext p, pl_Value p]"

definition sensors_text :: "Sensors \<Rightarrow> bool" where
  "sensors_text s \<longleftrightarrow> valid_utf8 (ss_TelemetrySource s)
     \<and> (case ss_Sensors s of None \<Rightarrow> True | Some ps \<Rightarrow> list_all payload_text ps)"

definition event_text :: "Event \<Rightarrow> bool" where
  "event_text e \<longleftrightarrow> list_all valid_utf8 ([ev_EventType e, ev_EventId e, ev_EventTimestamp e, ev_Severity e, ev_Message e,
       ev_MessageId e, ev_Context e] @ ev_MessageArgs e)
     \<and> (case ev_OriginOfCondition e of None \<Rightarrow> True | Some r \<Rightarrow> valid_utf8 (rid_Oid r))
     \<and> (case ev_Oem e of None \<Rightarrow> True | Some s \<Rightarrow> sensors_text s)"

definition events_text :: "Events \<Rightarrow> bool" where
  "events_text e \<longleftrightarrow> list_all valid_utf8 [evs_OContext e, evs_Oid e, evs_Otype e, evs_Id e, evs_Name e, evs_Context e,
       evs_Description e] \<and> list_all event_text (evs_Events e)"

definition subscription_text :: "EventSubscription \<Rightarrow> bool" where
  "subscription_text e \<longleftrightarrow> list_all valid_utf8 ([es_OContext e, es_Oid e, es_Otype e, es_Id e, es_Name e, es_Context e,
       es_Destination e, es_Protocol e] @ es_EventTypes e @ es_RegistryPrefixes e)"

abbreviation member_ok :: "string \<times> json \<Rightarrow> bool" where
  "member_ok kv \<equiv> valid_utf8 (fst kv) \<and> printable (snd kv)"

lemma printable_members:
  "list_all member_ok (w_str k v) \<longleftrightarrow> valid_utf8 k \<and> valid_utf8 v"
  "valid_utf8 k \<Longrightarrow> valid_utf8 v \<Longrightarrow> list_all member_ok (w_str_oe k v)"
  "valid_utf8 k \<Longrightarrow> list_all valid_utf8 vs \<Longrightarrow> list_all member_ok (w_strs_oe k vs)"
  "valid_utf8 k \<Longrightarrow> list_all member_ok (w_int16_oe k i)"
  by (auto simp: w_str_def w_str_oe_def w_strs_oe_def w_int16_oe_def list_all_iff split: option.splits)

lemma valid_names:
  "list_all valid_utf8 [''Timestamp'', ''Location'', ''ParentalContext'', ''ParentalIndex'', ''PhysicalContext'', ''Index'',
     ''PhysicalSubContext'', ''DeviceSpecificContext'', ''SubIndex'', ''Value'', ''Sensors'', ''TelemetrySource'',
     ''@odata.id'', ''EventType'', ''EventId'', ''EventTimestamp'', ''Severity'', ''Message'', ''MessageId'', ''MessageArgs'',
     ''Context'', ''OriginOfCondition'', ''Oem'', ''@odata.context'', ''@odata.type'', ''Id'', ''Name'', ''Description'',
     ''Events'', ''Events@odata.count'', ''Destination'', ''EventTypes'', ''Protocol'', ''RegistryPrefixes'']"
  by code_simp

lemma printable_payload: "payload_text p \<Longrightarrow> printable (enc_payload p)"
  using valid_names by (simp add: payload_text_def enc_payload_def printable_members del: valid_utf8.simps)

lemma printable_sensors: "sensors_text s \<Longrightarrow> printable (enc_sensors s)"
  using valid_names printable_payload
  by (auto simp: sensors_text_def enc_sensors_def list_all_iff simp del: valid_utf8.simps split: option.splits)

lemma printable_event: "event_text e \<Longrightarrow> printable (enc_event e)"
  using valid_names printable_sensors
  by (auto simp: event_text_def enc_event_def enc_resource_def printable_members simp del: valid_utf8.simps split: option.splits)

lemma printable_events: "events_text e \<Longrightarrow> printable (enc_events e)"
  using valid_names printable_event
  by (auto simp: events_text_def enc_events_def printable_members list_all_iff[of _ "map _ _"] list_all_iff[of event_text]
      simp del: valid_utf8.simps)

lemma printable_subscription: "subscription_text e \<Longrightarrow> es_Oem e = None \<Longrightarrow> printable (enc_subscription e)"
  using valid_names by (simp add: subscription_text_def enc_subscription_def printable_members del: valid_utf8.simps)

lemma depth_max: "foldr (\<lambda>v m. max (f v) m) vs (0 :: nat) \<le> n \<longleftrightarrow> (\<forall>v \<in> set vs. f v \<le> n)"
  by (induction vs) auto

lemma depth_le:
  "json_depth (JArr vs) \<le> Suc n \<longleftrightarrow> (\<forall>v \<in> set vs. json_depth v \<le> n)"
  "json_depth (JObj ms) \<le> Suc n \<longleftrightarrow> (\<forall>kv \<in> set ms. json_depth (snd kv) \<le> n)"
  by (simp_all add: depth_max)

lemma depth_members:
  "kv \<in> set (w_str k v) \<Longrightarrow> json_depth (snd kv) = 0"
  "kv \<in> set (w_str_oe k v) \<Longrightarrow> json_depth (snd kv) = 0"
  "kv \<in> set (w_int16_oe k i) \<Longrightarrow> json_depth (snd kv) = 0"
  "kv \<in> set (w_strs_oe k vs) \<Longrightarrow> json_depth (snd kv) \<le> 1"
  using depth_max[of json_depth "map JStr vs" 0]
  by (auto simp: w_str_def w_str_oe_def w_int16_oe_def w_strs_oe_def split: if_splits option.splits)

lemma depth_payload: "json_depth (enc_payload p) \<le> Suc 0"
  unfolding enc_payload_def depth_le by (auto dest: depth_members)

lemma depth_sensors: "json_depth (enc_sensors s) \<le> Suc (Suc (Suc 0))"
  unfolding enc_sensors_def depth_le using depth_payload
  by (auto simp: depth_max simp del: One_nat_def split: option.splits)

lemma depth_event: "json_depth (enc_event e) \<le> Suc 3"
proof -
  have "json_depth (enc_resource r) \<le> 3" for r by (simp add: enc_resource_def)
  moreover have "json_depth (enc_sensors s) \<le> 3" for s using depth_sensors[of s] by simp
  ultimately show ?thesis unfolding enc_event_def depth_le
    by (auto dest!: depth_members split: option.splits)
qed

lemma depth_events: "json_depth (enc_events e) \<le> Suc (Suc 4)"
proof -
  have "json_depth (enc_event v) \<le> 4" for v using depth_event[of v] by simp
  then have "json_depth (JArr (map enc_event vs)) \<le> Suc 4" for vs unfolding depth_le by simp
  then show ?thesis unfolding enc_events_def depth_le(2)
    by (auto dest!: depth_members simp del: json_depth.simps(1))
qed

lemma depth_subscription: "es_Oem e = None \<Longrightarrow> json_depth (enc_subscription e) \<le> Suc 1"
  unfolding enc_subscription_def depth_le by (auto dest!: depth_members)

lemma Unmarshal_Subscription_render:
  assumes "subscription_text e" "es_Oem e = None"
  shows "Unmarshal_Subscription (json_render (enc_subscription e)) = Some e"
  using json_parse_render[OF printable_subscription[OF assms]] depth_subscription[OF assms(2)]
    dec_enc_subscription[OF assms(2)]
  by (simp add: Unmarshal_Subscription_def Unmarshal_def)

section \<open>Property\<close>

text \<open>
  C20: what is published can be read back. The JSON text of events whose strings are valid UTF-8 is
  read by \<^verbatim>\<open>json.Unmarshal\<close> into the same events: no field is lost, an omitted field is the
  empty one, every escape is undone and every 16-bit index keeps its value and its sign.
\<close>

theorem events_roundtrip:
  assumes "events_text e" "- (2 ^ 63) \<le> evs_EventsOCount e" "evs_EventsOCount e < 2 ^ 63"
  shows "Unmarshal (dec_struct events_fields) events_zero (Marshal_events e) = Some e"
  using json_parse_render[OF printable_events[OF assms(1)]] depth_events[of e] dec_enc_events[OF assms(2,3)]
  by (simp add: Unmarshal_def Marshal_events_def)

definition quoted_reading :: Events where
  "quoted_reading = events_zero\<lparr>evs_Context := ''x3000c0s1b0'', evs_Events := [event_zero\<lparr>
     ev_MessageId := ''CrayTelemetry.Fan'', ev_Oem := Some \<lparr> ss_Sensors = Some [payload_zero\<lparr>pl_Index := Some (- 3),
       pl_DeviceSpecificContext := ''Fan <1> & '' @ [CHR 0x22, CHR 0x0A, CHR 0xC3, CHR 0xA9]\<rparr>],
     ss_TelemetrySource = ''River'' \<rparr>\<rparr>]\<rparr>"

theorem events_roundtrip_witness:
  "Unmarshal (dec_struct events_fields) events_zero (Marshal_events quoted_reading) = Some quoted_reading"
  by (rule events_roundtrip) code_simp+

end
