(* ===== verification/Echo.thy ===== *)
theory Echo
  imports Subscriptions JsonRoundtrip
begin

text \<open>
  The composition of creating and recognising a subscription (\<^verbatim>\<open>postRFSubscription\<close> and
  \<^verbatim>\<open>isDupRFSubscription\<close> in \<^verbatim>\<open>cmd/hmcollector/rf_subscriptions.go\<close>): an endpoint that keeps what was
  posted to it is found to be subscribed.
\<close>

lemma new_subscription_simps [simp]:
  "es_Context (new_subscription c d ts g) = c" "es_Destination (new_subscription c d ts g) = d"
  "es_RegistryPrefixes (new_subscription c d ts g) = group_elems g" "es_Oem (new_subscription c d ts g) = None"
  by (simp_all add: new_subscription_def group_elems_def es_zero_def)

lemma prefixes_match_same: "prefixes_match g (group_elems g)"
  by (auto simp: prefixes_match_def group_elems_def list_all_iff list_ex_iff split: option.splits)

text \<open>
  C22: a subscription that was posted is found again. When the endpoint answers for a subscription with
  the JSON text the collector posted for it, the search for a duplicate ends there with a positive
  answer, without a further request and without changing the subscription, for every group of registry
  prefixes; so neither a second subscription is created nor the verification reports it missing.
\<close>

theorem posted_subscription_found:
  assumes "doHTTPAction E p ''GET'' (base @ rid_Oid m) None w =
      (Ret (json_render (enc_subscription (new_subscription (ep_ID (w_ep w1 p)) d evTypes g)), code, None), w1)"
    and "getDestination E p w1 = (Ret d, w2)"
    and "subscription_text (new_subscription (ep_ID (w_ep w1 p)) d evTypes g)"
  shows "isDup_members E p base g (m # ms) w = (Ret (True, None), w2)"
proof -
  from keepsD[OF sub_frame_identity.keeps_getDestination assms(2)]
  have "identity (w_ep w2 p) = identity (w_ep w1 p)" by meson
  note id = identity_eqD(1)[OF this]
  from Unmarshal_Subscription_render[OF assms(3)] assms(1,2) show ?thesis
    by (simp add: bindIO_Ret prefixes_match_same id)
qed

text \<open>An endpoint that answers every request with the subscription posted to it.\<close>

definition echo_sub :: EventSubscription where
  "echo_sub = new_subscription ''x3000c0s1b0'' ''https://10.94.100.71/x3000c0s1b0'' [''Alert''] (Some [''CrayTelemetry''])"

definition echo_env :: "unit env" where
  "echo_env = env0\<lparr>env_Do := (\<lambda>r e. (Inr \<lparr> rs_StatusCode = 200, rs_Body = json_render (enc_subscription echo_sub),
     rs_readErr = False \<rparr>, e))\<rparr>"

lemma echo_answer:
  "fst (doHTTPAction echo_env 0 ''GET'' (''https://x3000c0s1b0'' @ ''/s/1'') None plain_world)
     = Ret (json_render (enc_subscription echo_sub), 200, None)"
  "ep_ID (w_ep (snd (doHTTPAction echo_env 0 ''GET'' (''https://x3000c0s1b0'' @ ''/s/1'') None plain_world)) 0) = ''x3000c0s1b0''"
  by code_simp+

lemma echo_destination:
  "fst (getDestination echo_env 0 (snd (doHTTPAction echo_env 0 ''GET'' (''https://x3000c0s1b0'' @ ''/s/1'') None plain_world)))
     = Ret ''https://10.94.100.71/x3000c0s1b0''"
  by code_simp

lemma echo_text: "subscription_text echo_sub"
  by code_simp

theorem posted_subscription_found_witness:
  "fst (isDup_members echo_env 0 ''https://x3000c0s1b0'' (Some [''CrayTelemetry'']) [\<lparr> rid_Oid = ''/s/1'' \<rparr>] plain_world)
     = Ret (True, None)"
proof -
  let ?run = "doHTTPAction echo_env 0 ''GET'' (''https://x3000c0s1b0'' @ ''/s/1'') None plain_world"
  have 1: "doHTTPAction echo_env 0 ''GET'' (''https://x3000c0s1b0'' @ rid_Oid \<lparr> rid_Oid = ''/s/1'' \<rparr>) None plain_world =
      (Ret (json_render (enc_subscription (new_subscription (ep_ID (w_ep (snd ?run) 0))
         ''https://10.94.100.71/x3000c0s1b0'' [''Alert''] (Some [''CrayTelemetry'']))), 200, None), snd ?run)"
    using echo_answer by (simp add: prod_eq_iff echo_sub_def)
  have 2: "getDestination echo_env 0 (snd ?run) = (Ret ''https://10.94.100.71/x3000c0s1b0'', snd (getDestination echo_env 0 (snd ?run)))"
    using echo_destination by (simp add: prod_eq_iff)
  show ?thesis
    using posted_subscription_found[OF 1 2] echo_text unfolding echo_answer(2) echo_sub_def by simp
qed

end
