(* ===== verification/Startup.thy ===== *)
theory Startup
  imports Rest Polling
begin

text \<open>
  What \<^verbatim>\<open>main\<close> sets up before the collector works: the connections to Kafka (\<^verbatim>\<open>setupKafka\<close>) with the watch
  over the SMA broker (\<^verbatim>\<open>monitorSMA\<close>), the connection to Vault (\<^verbatim>\<open>setupVault\<close>), the client for Redfish
  requests (\<^verbatim>\<open>createRFClient\<close>, \<^verbatim>\<open>caChangeCB\<close>) and logging (\<^verbatim>\<open>SetupLogging\<close>, the adapter in
  \<^verbatim>\<open>internal/http_logger\<close>). The libraries behind them and the operating system are the record \<open>boot\<close>.
\<close>

text \<open>
  \<^verbatim>\<open>bt_Open\<close> is the content of the brokers' configuration file, \<^verbatim>\<open>bt_NewProducer\<close> and \<^verbatim>\<open>bt_NewVaultAdapter\<close>
  tell whether a connection attempt worked, \<^verbatim>\<open>bt_Running\<close> reads the flag the signal handler clears,
  \<^verbatim>\<open>bt_Exec\<close> runs a shell command (its output, and whether it ended without error), \<^verbatim>\<open>bt_CreateClient\<close>
  makes a client pair for a CA bundle, \<^verbatim>\<open>bt_SetConfigParam\<close> sets a parameter of the package \<^verbatim>\<open>hms_certs\<close>, \<^verbatim>\<open>bt_InitInstance\<close>
  and \<^verbatim>\<open>bt_CAUpdateRegister\<close> are its functions of that name, \<^verbatim>\<open>bt_ServiceName\<close> is the name of the service instance, if it
  can be found, and \<^verbatim>\<open>bt_Flush\<close> waits for the messages of a broker. \<^verbatim>\<open>bt_fuel\<close> bounds the retries of one connection.
\<close>

record 'e boot =
  bt_Open :: "'e \<Rightarrow> (string + string) \<times> 'e"
  bt_NewProducer :: "string \<Rightarrow> 'e \<Rightarrow> bool \<times> 'e"
  bt_NewVaultAdapter :: "'e \<Rightarrow> bool \<times> 'e"
  bt_Running :: "'e \<Rightarrow> bool \<times> 'e"
  bt_Exec :: "string \<Rightarrow> 'e \<Rightarrow> (string \<times> bool) \<times> 'e"
  bt_CreateClient :: "string \<Rightarrow> int \<Rightarrow> 'e \<Rightarrow> bool \<times> 'e"
  bt_SetConfigParam :: "string \<Rightarrow> string \<Rightarrow> 'e \<Rightarrow> unit \<times> 'e"
  bt_InitInstance :: "string \<Rightarrow> 'e \<Rightarrow> unit \<times> 'e"
  bt_CAUpdateRegister :: "string \<Rightarrow> 'e \<Rightarrow> bool \<times> 'e"
  bt_ServiceName :: "'e \<Rightarrow> string option \<times> 'e"
  bt_Flush :: "string \<Rightarrow> 'e \<Rightarrow> int \<times> 'e"
  bt_Getenv :: "string \<Rightarrow> string"
  bt_httpTimeout :: int
  bt_fuel :: nat

section \<open>Kafka\<close>

definition broker_zero :: KafkaBroker where
  "broker_zero = \<lparr> kb_BrokerAddress = [], kb_TopicsToPublish = [], kb_KafkaProducer = False \<rparr>"

text \<open>The set of topics is written as a JSON object whose values do not matter.\<close>

definition dec_topics :: "string list decoder" where
  "dec_topics j old =
     (case j of
        JObj ms \<Rightarrow> (case iface_members ms (map (\<lambda>k. (k, JNull)) old) of
                      Some m \<Rightarrow> (map fst m, True) | None \<Rightarrow> (old, False))
      | JNull \<Rightarrow> ([], True)
      | _ \<Rightarrow> (old, False))"

definition broker_fields :: "KafkaBroker field list" where
  "broker_fields =
    [jfield ''BrokerAddress'' kb_BrokerAddress kb_BrokerAddress_update dec_string,
     jfield ''TopicsToPublish'' kb_TopicsToPublish kb_TopicsToPublish_update dec_topics]"

definition Unmarshal_brokers :: "string \<Rightarrow> KafkaBroker option list option" where
  "Unmarshal_brokers = Unmarshal (dec_list (dec_ptr (dec_struct broker_fields) broker_zero) None) []"

text \<open>Connecting to one broker; \<open>False\<close> is the exit of the process when it is told to stop meanwhile.\<close>

fun connect :: "nat \<Rightarrow> 'e boot \<Rightarrow> string \<Rightarrow> ('e world, bool) io" where
  "connect 0 B addr = liftIO NoFuel"
| "connect (Suc n) B addr =
     bindIO (extIO (bt_NewProducer B addr)) (\<lambda>connected.
     if connected then return True
     else bindIO (extIO (bt_Running B)) (\<lambda>running. if \<not> running then return False else connect n B addr))"

definition set_producer :: "nat \<Rightarrow> ('e world, unit) io" where
  "set_producer idx = modifyIO (\<lambda>w. w\<lparr>w_kafkaBrokers :=
     (w_kafkaBrokers w)[idx := (w_kafkaBrokers w ! idx)\<lparr>kb_KafkaProducer := True\<rparr>]\<rparr>)"

fun connect_brokers :: "'e boot \<Rightarrow> nat \<Rightarrow> KafkaBroker option list \<Rightarrow> ('e world, bool) io" where
  "connect_brokers B idx [] = return True"
| "connect_brokers B idx (None # bs) = panicIO NilDereference"
| "connect_brokers B idx (Some thisBroker # bs) =
     thenIO (if Contains (kb_BrokerAddress thisBroker) ''sma.svc''
             then modifyIO (\<lambda>w. w\<lparr>w_smaBroker := kb_BrokerAddress thisBroker\<rparr>) else return ())
     (bindIO (connect (bt_fuel B) B (kb_BrokerAddress thisBroker)) (\<lambda>connected.
      if \<not> connected then return False
      else thenIO (set_producer idx) (connect_brokers B (Suc idx) bs)))"

text \<open>\<open>None\<close> is the exit of the process, otherwise whether the SMA broker is to be watched.\<close>

definition setupKafka :: "'e boot \<Rightarrow> ('e world, bool option) io" where
  "setupKafka B =
     bindIO (extIO (bt_Open B)) (\<lambda>r.
     case r of
       Inl err \<Rightarrow> panicIO (ExplicitPanic err)
     | Inr jsonBytes \<Rightarrow>
         (case Unmarshal_brokers jsonBytes of
            None \<Rightarrow> panicIO (ExplicitPanic ''json'')
          | Some brokers \<Rightarrow>
              thenIO (modifyIO (\<lambda>w. w\<lparr>w_kafkaBrokers := map (\<lambda>b. case b of Some b \<Rightarrow> b | None \<Rightarrow> broker_zero) brokers\<rparr>))
              (if brokers = [] then panicIO (ExplicitPanic ''No Kafka brokers defined!'')
               else bindIO (connect_brokers B 0 brokers) (\<lambda>connected.
                    if \<not> connected then return None else getsIO (\<lambda>w. Some (w_smaBroker w \<noteq> []))))))"

section \<open>The SMA broker\<close>

text \<open>\<^verbatim>\<open>net.SplitHostPort\<close>, of which only the host is used.\<close>

definition SplitHostPort_host :: "string \<Rightarrow> string option" where
  "SplitHostPort_host hostport =
     (case cut_last hostport (CHR '':'') of
        None \<Rightarrow> None
      | Some (before, port) \<Rightarrow>
          if hd hostport = CHR ''['' then
            (case cut hostport (CHR '']'') of
               (inside, after, found) \<Rightarrow>
                 if \<not> found \<or> after \<noteq> CHR '':'' # port then None
                 else if CHR ''['' \<in> set (tl inside) \<or> CHR ''['' \<in> set after \<or> CHR '']'' \<in> set after then None
                 else Some (tl inside))
          else if CHR '':'' \<in> set before \<or> CHR ''['' \<in> set hostport \<or> CHR '']'' \<in> set hostport then None
          else Some before)"

definition sma_host :: "string \<Rightarrow> string option" where
  "sma_host broker = (if Contains broker '':'' then SplitHostPort_host broker else Some broker)"

definition sma_command :: "string \<Rightarrow> string" where
  "sma_command smaHost = ''nc -z '' @ smaHost @ '' 9092 > /dev/null && echo pingtrue || echo pingfalse''"

text \<open>One round of the loop of \<^verbatim>\<open>monitorSMA\<close>; the result is the change that is logged, if any.\<close>

definition sma_check :: "'e boot \<Rightarrow> string \<Rightarrow> bool \<Rightarrow> ('e world, bool option) io" where
  "sma_check B smaHost first =
     bindIO (extIO (bt_Exec B (sma_command smaHost))) (\<lambda>(outp, ok).
     bindIO (if ok then
               thenIO (modifyIO (\<lambda>w. w\<lparr>w_smaOK := Contains outp ''pingtrue''\<rparr>))
                 (getsIO (\<lambda>w. if first \<or> w_smaOK w \<noteq> w_smaOKPrev w then Some (w_smaOK w) else None))
             else return None) (\<lambda>change.
     thenIO (modifyIO (\<lambda>w. w\<lparr>w_smaOKPrev := w_smaOK w\<rparr>)) (return change)))"

text \<open>Some rounds, with the changes logged in them.\<close>

fun sma_rounds :: "nat \<Rightarrow> 'e boot \<Rightarrow> string \<Rightarrow> bool \<Rightarrow> ('e world, bool list) io" where
  "sma_rounds 0 B smaHost first = return []"
| "sma_rounds (Suc n) B smaHost first =
     bindIO (sma_check B smaHost first) (\<lambda>change.
     bindIO (sma_rounds n B smaHost False) (\<lambda>changes.
     return (case change of None \<Rightarrow> changes | Some c \<Rightarrow> c # changes)))"

section \<open>Vault\<close>

fun setupVault_fuel :: "nat \<Rightarrow> 'e boot \<Rightarrow> ('e world, unit) io" where
  "setupVault_fuel 0 B = liftIO NoFuel"
| "setupVault_fuel (Suc n) B =
     bindIO (extIO (bt_Running B)) (\<lambda>running.
     if \<not> running then return ()
     else bindIO (extIO (bt_NewVaultAdapter B)) (\<lambda>connected.
       if connected then modifyIO (\<lambda>w. w\<lparr>w_compCredStore := True\<rparr>) else setupVault_fuel n B))"

section \<open>The Redfish client\<close>

definition override_param :: "'e boot \<Rightarrow> string \<Rightarrow> string \<Rightarrow> ('e world, unit) io" where
  "override_param B name param =
     (let envstr = bt_Getenv B name
      in if envstr \<noteq> [] then extIO (bt_SetConfigParam B param envstr) else return ())"

definition createRFClient :: "'e boot \<Rightarrow> ('e world, bool) io" where
  "createRFClient B =
     thenIO (override_param B ''HMCOLLECTOR_VAULT_CA_CHAIN_PATH'' ''CAChainPath'')
     (thenIO (override_param B ''HMCOLLECTOR_VAULT_PKI_BASE'' ''VaultPKIBase'')
     (thenIO (override_param B ''HMCOLLECTOR_VAULT_PKI_PATH'' ''PKIPath'')
     (bindIO (getsIO w_caURI) (\<lambda>caURI.
     bindIO (extIO (bt_CreateClient B caURI (bt_httpTimeout B))) (\<lambda>created.
     if created then thenIO (modifyIO (\<lambda>w. w\<lparr>w_rfClient := Some caURI\<rparr>)) (return True) else return False)))))"

definition caChangeCB :: "'e boot \<Rightarrow> ('e world, unit) io" where
  "caChangeCB B = bindIO (createRFClient B) (\<lambda>_. return ())"

fun try_clients :: "nat \<Rightarrow> 'e boot \<Rightarrow> ('e world, bool) io" where
  "try_clients 0 B = return False"
| "try_clients (Suc n) B = bindIO (createRFClient B) (\<lambda>created. if created then return True else try_clients n B)"

definition setup_client :: "'e boot \<Rightarrow> ('e world, unit) io" where
  "setup_client B =
     bindIO (try_clients 10 B) (\<lambda>ok.
     if ok then return ()
     else thenIO (modifyIO (\<lambda>w. w\<lparr>w_caURI := []\<rparr>))
       (bindIO (createRFClient B) (\<lambda>created.
        if created then return () else panicIO (ExplicitPanic ''Can't create Redfish HTTP client!!!''))))"

section \<open>Logging\<close>

datatype Level = DebugLevel | InfoLevel | WarnLevel | ErrorLevel | FatalLevel | PanicLevel

definition log_level :: "string \<Rightarrow> Level" where
  "log_level setting =
     (let logLevel = ToUpper setting in
      if logLevel = ''DEBUG'' then DebugLevel
      else if logLevel = ''INFO'' then InfoLevel
      else if logLevel = ''WARN'' then WarnLevel
      else if logLevel = ''ERROR'' then ErrorLevel
      else if logLevel = ''FATAL'' then FatalLevel
      else if logLevel = ''PANIC'' then PanicLevel
      else InfoLevel)"

record LogConfig =
  lc_atomicLevel :: Level
  lc_shouldLogErrors :: bool
  lc_logXnames :: "string list"
  lc_shouldLogForXnames :: bool
  lc_invalidModes :: "string list"

text \<open>The configuration, and the modes reported as invalid.\<close>

definition SetupLogging :: "'e boot \<Rightarrow> LogConfig" where
  "SetupLogging B =
     (let logModes = fillMap [] (bt_Getenv B ''LOG_MODES'');
          logXnames = fillMap [] (bt_Getenv B ''LOG_XNAMES'')
      in \<lparr> lc_atomicLevel = log_level (bt_Getenv B ''LOG_LEVEL''),
           lc_shouldLogErrors = (''errors'' \<in> set logModes),
           lc_logXnames = logXnames, lc_shouldLogForXnames = (logXnames \<noteq> []),
           lc_invalidModes = filter (\<lambda>mode. mode \<noteq> ''errors'') logModes \<rparr>)"

text \<open>The adapter for the log of the HTTP library: the level and the message of a line.\<close>

definition HTTPLogger_Printf :: "string \<Rightarrow> Level \<times> string" where
  "HTTPLogger_Printf originalMessage =
     (if HasPrefix originalMessage ''[DEBUG]'' then (DebugLevel, TrimPrefix originalMessage ''[DEBUG]'')
      else if HasPrefix originalMessage ''[ERR]'' then (ErrorLevel, TrimPrefix originalMessage ''[ERR]'')
      else (InfoLevel, originalMessage))"

section \<open>What starting up achieves\<close>

lemma keeps_connect: "(\<And>w e. g (w\<lparr>w_ext := e\<rparr>) = g w) \<Longrightarrow> keeps g (connect n B addr)"
proof (induction n)
  case (Suc n)
  show ?case unfolding connect.simps by (intro frame_rules Suc)
qed simp

text \<open>More fuel does not change a connection that ended.\<close>

lemma connect_more_fuel: "connect n B addr w = (r, w') \<Longrightarrow> r \<noteq> NoFuel \<Longrightarrow> connect (n + k) B addr w = (r, w')"
  by (induction n arbitrary: w) (auto split: if_splits)

abbreviation connected_broker :: "KafkaBroker \<Rightarrow> KafkaBroker" where
  "connected_broker b \<equiv> b\<lparr>kb_KafkaProducer := True\<rparr>"

lemma connect_brokers_all:
  "connect_brokers B i bs w = (Ret True, w') \<Longrightarrow> i + length bs = length (w_kafkaBrokers w) \<Longrightarrow>
     w_kafkaBrokers w' = take i (w_kafkaBrokers w) @ map connected_broker (drop i (w_kafkaBrokers w)) \<and> None \<notin> set bs"
proof (induction B i bs arbitrary: w rule: connect_brokers.induct)
  case (3 B i b bs)
  define w1 where "w1 = (if Contains (kb_BrokerAddress b) ''sma.svc'' then w\<lparr>w_smaBroker := kb_BrokerAddress b\<rparr> else w)"
  have w1: "w_kafkaBrokers w1 = w_kafkaBrokers w" by (simp add: w1_def)
  from 3(2) obtain w2 where conn: "connect (bt_fuel B) B (kb_BrokerAddress b) w1 = (Ret True, w2)"
    and rest: "connect_brokers B (Suc i) bs (w2\<lparr>w_kafkaBrokers :=
      (w_kafkaBrokers w2)[i := connected_broker (w_kafkaBrokers w2 ! i)]\<rparr>) = (Ret True, w')"
    by (auto simp: thenIO_def bindIO_eq_Ret set_producer_def w1_def split: if_splits)
  from keepsD[OF keeps_connect conn, of w_kafkaBrokers] w1 have br: "w_kafkaBrokers w2 = w_kafkaBrokers w" by simp
  from 3(3) have i: "i < length (w_kafkaBrokers w)" by simp
  from 3(1)[OF _ rest] 3(3) br i show ?case
    by (simp add: take_Suc_conv_app_nth Cons_nth_drop_Suc[symmetric] drop_update_cancel)
qed auto

lemma keeps_override: "keeps (\<lambda>w. (w_caURI w, w_rfClient w)) (override_param B n p)"
  unfolding override_param_def Let_def by (intro frame_rules) simp

lemma client_created:
  assumes "createRFClient B w = (Ret ok, w')"
  shows "w_caURI w' = w_caURI w \<and> (ok \<longrightarrow> w_rfClient w' = Some (w_caURI w)) \<and> (\<not> ok \<longrightarrow> w_rfClient w' = w_rfClient w)"
proof -
  from assms obtain u1 u2 u3 w1 w2 w3 where
    params: "override_param B ''HMCOLLECTOR_VAULT_CA_CHAIN_PATH'' ''CAChainPath'' w = (Ret u1, w1)"
      "override_param B ''HMCOLLECTOR_VAULT_PKI_BASE'' ''VaultPKIBase'' w1 = (Ret u2, w2)"
      "override_param B ''HMCOLLECTOR_VAULT_PKI_PATH'' ''PKIPath'' w2 = (Ret u3, w3)"
    and made: "bindIO (getsIO w_caURI) (\<lambda>caURI.
       bindIO (extIO (bt_CreateClient B caURI (bt_httpTimeout B))) (\<lambda>created.
       if created then thenIO (modifyIO (\<lambda>w. w\<lparr>w_rfClient := Some caURI\<rparr>)) (return True) else return False)) w3 = (Ret ok, w')"
    unfolding createRFClient_def thenIO_eq_Ret by blast
  from params[THEN keepsD[OF keeps_override]] have "w_caURI w3 = w_caURI w" "w_rfClient w3 = w_rfClient w" by simp_all
  with made show ?thesis by (auto simp: thenIO_def split: if_splits)
qed

lemma client_attempts: "try_clients n B w = (Ret ok, w') \<Longrightarrow>
    w_caURI w' = w_caURI w \<and> (ok \<longrightarrow> w_rfClient w' = Some (w_caURI w)) \<and> (\<not> ok \<longrightarrow> w_rfClient w' = w_rfClient w)"
proof (induction n arbitrary: w)
  case (Suc n)
  from Suc.prems obtain made w1 where one: "createRFClient B w = (Ret made, w1)"
    and more: "(if made then return True else try_clients n B) w1 = (Ret ok, w')" by (auto simp: bindIO_eq_Ret)
  from client_created[OF one] more Suc.IH[of w1] show ?case by (cases made) auto
qed simp

lemma setupKafka_ready:
  assumes "setupKafka B w = (Ret (Some watch), w')"
  shows "\<exists>jsonBytes brokers. fst (bt_Open B (w_ext w)) = Inr jsonBytes
     \<and> Unmarshal_brokers jsonBytes = Some (map Some brokers) \<and> brokers \<noteq> []
     \<and> w_kafkaBrokers w' = map connected_broker brokers
     \<and> brokers_ready (w_kafkaBrokers w') \<and> doReadiness w' = (Ret (204, []), w') \<and> watch = (w_smaBroker w' \<noteq> [])"
proof -
  define v where "v bs = (w\<lparr>w_ext := snd (bt_Open B (w_ext w))\<rparr>)\<lparr>w_kafkaBrokers :=
      map (\<lambda>b. case b of Some b \<Rightarrow> b | None \<Rightarrow> broker_zero) bs\<rparr>" for bs
  from assms obtain jsonBytes bs where content: "fst (bt_Open B (w_ext w)) = Inr jsonBytes" "Unmarshal_brokers jsonBytes = Some bs"
    and bs: "bs \<noteq> []" and run: "connect_brokers B 0 bs (v bs) = (Ret True, w')"
    and watch: "watch = (w_smaBroker w' \<noteq> [])"
    by (auto simp: setupKafka_def thenIO_def v_def bindIO_eq_Ret split: sum.splits option.splits if_splits)
  from connect_brokers_all[OF run] have br: "w_kafkaBrokers w' = map connected_broker (w_kafkaBrokers (v bs))"
    and some: "None \<notin> set bs" by (simp_all add: v_def)
  define brokers where "brokers = map the bs"
  have the: "bs = map Some brokers" unfolding brokers_def map_map
    by (rule map_idI[symmetric]) (use some in \<open>metis comp_apply option.exhaust_sel\<close>)
  have "w_kafkaBrokers (v bs) = brokers" by (simp add: v_def the comp_def)
  with br have all: "w_kafkaBrokers w' = map connected_broker brokers" by simp
  with bs the have "brokers_ready (w_kafkaBrokers w')" "w_kafkaBrokers w' \<noteq> []"
    by (auto simp: brokers_ready_def list_all_iff)
  with doReadiness_eq[of w'] all bs content the watch show ?thesis by auto
qed

lemma client_set_up:
  assumes "setup_client B w = (Ret (), w1)"
  shows "w_rfClient w1 = Some (w_caURI w1) \<and> w_caURI w1 \<in> {w_caURI w, []}
     \<and> (w_caURI w1 \<noteq> w_caURI w \<longrightarrow> (\<exists>v. try_clients 10 B w = (Ret False, v)))"
proof -
  from assms obtain ok v where attempts: "try_clients 10 B w = (Ret ok, v)"
    and rest: "(if ok then return () else thenIO (modifyIO (\<lambda>w. w\<lparr>w_caURI := []\<rparr>))
       (bindIO (createRFClient B) (\<lambda>created. if created then return ()
          else panicIO (ExplicitPanic ''Can't create Redfish HTTP client!!!'')))) v = (Ret (), w1)"
    unfolding setup_client_def bindIO_eq_Ret by blast
  show "w_rfClient w1 = Some (w_caURI w1) \<and> w_caURI w1 \<in> {w_caURI w, []}
     \<and> (w_caURI w1 \<noteq> w_caURI w \<longrightarrow> (\<exists>v. try_clients 10 B w = (Ret False, v)))"
  proof (cases ok)
    case True
    with rest client_attempts[OF attempts] show ?thesis by simp
  next
    case False
    with rest obtain created where "createRFClient B (v\<lparr>w_caURI := []\<rparr>) = (Ret created, w1)" "created"
      by (auto simp: thenIO_def bindIO_eq_Ret split: if_splits)
    from client_created[OF this(1)] this(2) False attempts show ?thesis by auto
  qed
qed

section \<open>Properties\<close>

text \<open>
  The set-up of Kafka makes the collector ready. If it returns and the process was not told to stop
  meanwhile, the brokers are exactly those of the configuration file, in its order and with its
  topics, there is at least one, and every one has a producer; so the readiness probe answers 204 from
  then on, and no message can fail for a missing producer. The SMA broker is watched exactly when one of
  the brokers is taken for it.
\<close>

theorem startup_makes_ready:
  assumes "setupKafka B w = (Ret (Some watch), w')"
  shows "\<exists>jsonBytes brokers. fst (bt_Open B (w_ext w)) = Inr jsonBytes
     \<and> Unmarshal_brokers jsonBytes = Some (map Some brokers) \<and> brokers \<noteq> []
     \<and> w_kafkaBrokers w' = map connected_broker brokers
     \<and> brokers_ready (w_kafkaBrokers w') \<and> doReadiness w' = (Ret (204, []), w') \<and> watch = (w_smaBroker w' \<noteq> [])"
  by (rule setupKafka_ready[OF assms])

text \<open>A file with one broker, which can be reached at the second attempt.\<close>

definition one_broker_file :: string where
  "one_broker_file = ''[{\"BrokerAddress\":\"kafka.sma.svc:9092\",\"TopicsToPublish\":{\"cray-telemetry-fan\":null}}]''"

definition boot0 :: "nat boot" where
  "boot0 = \<lparr> bt_Open = (\<lambda>e. (Inr one_broker_file, e)), bt_NewProducer = (\<lambda>a e. (0 < e, Suc e)),
     bt_NewVaultAdapter = (\<lambda>e. (True, e)), bt_Running = (\<lambda>e. (True, e)), bt_Exec = (\<lambda>c e. ((''pingfalse'', True), e)),
     bt_CreateClient = (\<lambda>ca t e. (ca = [], e)), bt_SetConfigParam = (\<lambda>p v e. ((), e)), bt_InitInstance = (\<lambda>n e. ((), e)),
     bt_CAUpdateRegister = (\<lambda>ca e. (True, e)), bt_ServiceName = (\<lambda>e. (None, e)), bt_Flush = (\<lambda>a e. (0, e)), bt_Getenv = (\<lambda>n. []), bt_httpTimeout = 10, bt_fuel = 3 \<rparr>"

lemma one_broker_setup: "fst (setupKafka boot0 (world0 0)) = Ret (Some True)"
  by code_simp

lemma one_broker_list: "Unmarshal_brokers one_broker_file = Some [Some \<lparr> kb_BrokerAddress = ''kafka.sma.svc:9092'',
    kb_TopicsToPublish = [''cray-telemetry-fan''], kb_KafkaProducer = False \<rparr>]"
  by code_simp

theorem startup_makes_ready_witness:
  "w_kafkaBrokers (snd (setupKafka boot0 (world0 0))) = [\<lparr> kb_BrokerAddress = ''kafka.sma.svc:9092'',
     kb_TopicsToPublish = [''cray-telemetry-fan''], kb_KafkaProducer = True \<rparr>]"
proof -
  have run: "setupKafka boot0 (world0 0) = (Ret (Some True), snd (setupKafka boot0 (world0 0)))"
    using one_broker_setup by (simp add: prod_eq_iff)
  from startup_makes_ready[OF run] one_broker_list show ?thesis by (auto simp: boot0_def)
qed

text \<open>
  Polling pauses while SMA cannot be reached. A check that ran sets the flag to whether its output
  reports success, and a check that failed to run leaves it; after a check without success a poll
  of any endpoint does nothing.
\<close>

theorem sma_pause:
  assumes "sma_check B smaHost first w = (r, w')"
  shows "w_smaOK w' = (if snd (fst (bt_Exec B (sma_command smaHost) (w_ext w)))
                      then Contains (fst (fst (bt_Exec B (sma_command smaHost) (w_ext w)))) ''pingtrue'' else w_smaOK w)
     \<and> w_smaOKPrev w' = w_smaOK w' \<and> (\<not> w_smaOK w' \<longrightarrow> collectData E k w' = (Ret (), w'))"
proof -
  from assms have "w_smaOKPrev w' = w_smaOK w'
     \<and> w_smaOK w' = (if snd (fst (bt_Exec B (sma_command smaHost) (w_ext w)))
                      then Contains (fst (fst (bt_Exec B (sma_command smaHost) (w_ext w)))) ''pingtrue'' else w_smaOK w)"
    by (auto simp: sma_check_def thenIO_def bindIO_def split: prod.splits if_splits)
  moreover have "\<not> w_smaOK w' \<longrightarrow> collectData E k w' = (Ret (), w')" by (simp add: collectData_def bindIO_def)
  ultimately show ?thesis by blast
qed

theorem sma_pause_witness:
  "let w' = snd (sma_check boot0 ''kafka.sma.svc'' True ((world0 0)\<lparr>w_smaOK := True\<rparr>))
   in \<not> w_smaOK w' \<and> collectData env0 pdu_endpoint w' = (Ret (), w')"
proof -
  have "\<not> Contains ''pingfalse'' ''pingtrue''" by code_simp
  with sma_pause[OF prod.collapse[symmetric], of boot0 "''kafka.sma.svc''" True "(world0 0)\<lparr>w_smaOK := True\<rparr>" env0 pdu_endpoint]
  show ?thesis by (simp add: boot0_def Let_def)
qed

text \<open>
  The watch reports changes only: over any number of rounds, the states it logs alternate, and the
  last one logged is the state it leaves.
\<close>

lemma sma_rounds_alternate:
  "sma_rounds n B smaHost first w = (Ret changes, w') \<Longrightarrow> w_smaOKPrev w = w_smaOK w \<Longrightarrow>
     distinct_adj changes \<and> (\<not> first \<and> changes \<noteq> [] \<longrightarrow> hd changes \<noteq> w_smaOK w)
     \<and> (changes \<noteq> [] \<longrightarrow> last changes = w_smaOK w') \<and> (\<not> first \<and> changes = [] \<longrightarrow> w_smaOK w' = w_smaOK w)"
proof (induction n arbitrary: first w changes)
  case (Suc n)
  from Suc.prems(1) obtain change w1 rest where one: "sma_check B smaHost first w = (Ret change, w1)"
    and more: "sma_rounds n B smaHost False w1 = (Ret rest, w')"
    and changes: "changes = (case change of None \<Rightarrow> rest | Some c \<Rightarrow> c # rest)"
    by (auto simp: bindIO_eq_Ret)
  from one Suc.prems(2) have w1: "w_smaOKPrev w1 = w_smaOK w1" "\<And>c. change = Some c \<Longrightarrow> c = w_smaOK w1 \<and> (first \<or> c \<noteq> w_smaOK w)"
    "change = None \<Longrightarrow> w_smaOK w1 = w_smaOK w"
    by (auto simp: sma_check_def thenIO_def bindIO_def split: prod.splits if_splits)
  from Suc.IH[OF more w1(1)] have ih: "distinct_adj rest" "rest \<noteq> [] \<Longrightarrow> hd rest \<noteq> w_smaOK w1"
    "rest \<noteq> [] \<Longrightarrow> last rest = w_smaOK w'" "rest = [] \<Longrightarrow> w_smaOK w' = w_smaOK w1" by simp_all
  show ?case
  proof (cases change)
    case None
    with ih w1(3) changes show ?thesis by auto
  next
    case (Some c)
    with ih w1(2) changes show ?thesis by (auto simp: distinct_adj_Cons)
  qed
qed simp

text \<open>
  There is always a client for Redfish requests after start-up, and it is a verified one whenever
  that is possible: the client is made for the configured CA bundle, unless ten attempts failed, in
  which case the bundle is given up and the client is an unverified one. A later change of the
  bundle for which no client can be made leaves the previous client in use.
\<close>

theorem client_kept:
  assumes "setup_client B w = (Ret (), w1)" "caChangeCB B w1 = (Ret (), w2)"
  shows "w_rfClient w1 = Some (w_caURI w1) \<and> w_caURI w1 \<in> {w_caURI w, []}
     \<and> (w_caURI w1 \<noteq> w_caURI w \<longrightarrow> (\<exists>v. try_clients 10 B w = (Ret False, v)))
     \<and> w_rfClient w2 = Some (w_caURI w1) \<and> w_caURI w2 = w_caURI w1"
proof -
  from assms(2) obtain made where "createRFClient B w1 = (Ret made, w2)"
    by (auto simp: caChangeCB_def bindIO_eq_Ret)
  from client_created[OF this] client_set_up[OF assms(1)] show ?thesis by (cases made) auto
qed

lemma fallback_run: "fst (setup_client boot0 ((world0 0)\<lparr>w_caURI := ''vault://ca''\<rparr>)) = Ret ()"
  "fst (caChangeCB boot0 (snd (setup_client boot0 ((world0 0)\<lparr>w_caURI := ''vault://ca''\<rparr>)))) = Ret ()"
  "w_caURI (snd (setup_client boot0 ((world0 0)\<lparr>w_caURI := ''vault://ca''\<rparr>))) = []"
  by code_simp+

theorem client_kept_witness:
  "\<exists>v. try_clients 10 boot0 ((world0 0)\<lparr>w_caURI := ''vault://ca''\<rparr>) = (Ret False, v)"
proof -
  let ?w = "(world0 0)\<lparr>w_caURI := ''vault://ca''\<rparr> :: nat world"
  have run: "setup_client boot0 ?w = (Ret (), snd (setup_client boot0 ?w))"
    "caChangeCB boot0 (snd (setup_client boot0 ?w)) = (Ret (), snd (caChangeCB boot0 (snd (setup_client boot0 ?w))))"
    using fallback_run by (simp_all add: prod_eq_iff)
  have "w_caURI (snd (setup_client boot0 ?w)) \<noteq> w_caURI ?w" using fallback_run(3) by simp
  with client_kept[OF run] show ?thesis by blast
qed

end
