(* ===== verification/PollMachine.thy ===== *)
theory PollMachine
  imports Polling "HOL-Library.Multiset"
begin

text \<open>
  The worker pool of \<^verbatim>\<open>doPolling\<close> (\<^verbatim>\<open>cmd/hmcollector/polling.go\<close>) as a step relation: the loop that hands
  the endpoints to the collectors at every interval, the collectors (\<^verbatim>\<open>collectData\<close>), and the workers
  that publish (\<^verbatim>\<open>processData\<close>), and the closing of the channels when the loop ends. The requests of one collection are one step; the payloads it made are
  then sent one by one to the channel, which is a queue of the shared state, interleaved with all other
  goroutines. Two components of the state only record history: the payloads made and those
  published.
\<close>

section \<open>State and steps\<close>

definition NumWorkers :: nat where "NumWorkers = 30"

definition payloads_capacity :: nat where "payloads_capacity = 10000"

record 'e pool =
  q_world :: "'e world"
  q_round :: "EndpointWithCollector list"
  q_pending :: "EndpointWithCollector list"
  q_capacity :: nat
  q_collecting :: "jsonPayload list list"
  q_made :: "jsonPayload list"
  q_published :: "jsonPayload list"
  q_closed :: bool
  q_panicked :: "panic option"

text \<open>The capacity of the channel of endpoints is the number of endpoints known at the start.\<close>

definition pool0 :: "'e world \<Rightarrow> 'e pool" where
  "pool0 w = \<lparr> q_world = w\<lparr>w_jsonPayloads := []\<rparr>, q_round = [], q_pending = [], q_capacity = length (w_endpoints w),
     q_collecting = [], q_made = [], q_published = [], q_closed = False, q_panicked = None \<rparr>"

text \<open>What one collection does: the state after it, and the payloads to send; a panic ends the process.\<close>

definition collected :: "'e env \<Rightarrow> EndpointWithCollector \<Rightarrow> 'e pool \<Rightarrow> 'e pool \<Rightarrow> bool" where
  "collected E endpoint m m' \<longleftrightarrow>
     (case collectData E endpoint ((q_world m)\<lparr>w_jsonPayloads := []\<rparr>) of
        (Ret _, w') \<Rightarrow> m' = m\<lparr>q_world := w'\<lparr>w_jsonPayloads := w_jsonPayloads (q_world m)\<rparr>,
            q_collecting := q_collecting m @ [w_jsonPayloads w'], q_made := q_made m @ w_jsonPayloads w'\<rparr>
      | (Panic c, w') \<Rightarrow> m' = m\<lparr>q_world := w', q_panicked := Some c\<rparr>
      | _ \<Rightarrow> False)"

definition closed_channel :: panic where
  "closed_channel = ExplicitPanic ''send on closed channel''"

text \<open>
  The loop tests \<^verbatim>\<open>Running\<close> between rounds and, when it is cleared, closes both channels (\<open>stop\<close>): what was sent can
  still be received, but a collector that sends afterwards panics.
\<close>

inductive pool_move :: "'e env \<Rightarrow> 'e pool \<Rightarrow> 'e pool \<Rightarrow> bool" for E where
  begin_round:
    "q_round m = [] \<Longrightarrow> \<not> q_closed m \<Longrightarrow> pool_move E m (m\<lparr>q_round := w_endpoints (q_world m)\<rparr>)"
| send_endpoint:
    "q_round m = k # ks \<Longrightarrow> length (q_pending m) < q_capacity m \<Longrightarrow>
     pool_move E m (m\<lparr>q_round := ks, q_pending := q_pending m @ [k]\<rparr>)"
| hand_over:
    "q_round m = k # ks \<Longrightarrow> q_pending m = [] \<Longrightarrow> length (q_collecting m) < NumWorkers \<Longrightarrow>
     collected E k (m\<lparr>q_round := ks\<rparr>) m' \<Longrightarrow> pool_move E m m'"
| collect:
    "q_pending m = k # ks \<Longrightarrow> length (q_collecting m) < NumWorkers \<Longrightarrow>
     collected E k (m\<lparr>q_pending := ks\<rparr>) m' \<Longrightarrow> pool_move E m m'"
| send_payload:
    "q_collecting m = as @ (p # ps) # bs \<Longrightarrow> \<not> q_closed m \<Longrightarrow> length (w_jsonPayloads (q_world m)) < payloads_capacity \<Longrightarrow>
     pool_move E m (m\<lparr>q_collecting := as @ ps # bs,
       q_world := (q_world m)\<lparr>w_jsonPayloads := w_jsonPayloads (q_world m) @ [p]\<rparr>\<rparr>)"
| send_closed:
    "q_collecting m = as @ (p # ps) # bs \<Longrightarrow> q_closed m \<Longrightarrow> pool_move E m (m\<lparr>q_panicked := Some closed_channel\<rparr>)"
| end_collect:
    "q_collecting m = as @ [] # bs \<Longrightarrow> pool_move E m (m\<lparr>q_collecting := as @ bs\<rparr>)"
| publish:
    "w_jsonPayloads (q_world m) = p # q \<Longrightarrow> processData E (q_world m) = (Ret (), w') \<Longrightarrow>
     pool_move E m (m\<lparr>q_world := w', q_published := q_published m @ [p]\<rparr>)"
| publish_panics:
    "w_jsonPayloads (q_world m) = p # q \<Longrightarrow> processData E (q_world m) = (Panic c, w') \<Longrightarrow>
     pool_move E m (m\<lparr>q_world := w', q_panicked := Some c\<rparr>)"
| stop:
    "q_round m = [] \<Longrightarrow> pool_move E m (m\<lparr>q_closed := True\<rparr>)"

text \<open>A step is a move of the pool, or something the rest of the program does, which never touches the channel.\<close>

inductive pool_act :: "'e env \<Rightarrow> 'e pool \<Rightarrow> 'e pool \<Rightarrow> bool" for E where
  own: "pool_move E m m' \<Longrightarrow> pool_act E m m'"
| others: "w_jsonPayloads w' = w_jsonPayloads (q_world m) \<Longrightarrow> pool_act E m (m\<lparr>q_world := w'\<rparr>)"

definition pool_step :: "'e env \<Rightarrow> 'e pool \<Rightarrow> 'e pool \<Rightarrow> bool" where
  "pool_step E m m' \<longleftrightarrow> q_panicked m = None \<and> pool_act E m m'"

lemma pool_stepI: "q_panicked m = None \<Longrightarrow> pool_move E m m' \<Longrightarrow> pool_step E m m'"
  by (simp add: pool_step_def pool_act.own)

abbreviation pool_reaches :: "'e env \<Rightarrow> 'e pool \<Rightarrow> 'e pool \<Rightarrow> bool" where
  "pool_reaches E \<equiv> (pool_step E)\<^sup>*\<^sup>*"

section \<open>Nothing is lost\<close>

interpretation frame_queue: http_frame w_jsonPayloads
  by unfold_locales auto

lemma processData_queue:
  assumes "w_jsonPayloads w = p # q" "processData E w = (r, w')"
  shows "w_jsonPayloads w' = q"
proof -
  from assms have "writeToKafka E (jp_topic p) (jp_payload p) (Some (jp_context p @ ''.'' @ jp_messageId p))
      (w\<lparr>w_jsonPayloads := q\<rparr>) = (r, w')" by (simp add: processData_def thenIO_def)
  from keepsD[OF frame_queue.keeps_writeToKafka this] show ?thesis by simp
qed

definition pool_ok :: "'e pool \<Rightarrow> bool" where
  "pool_ok m \<longleftrightarrow> (q_panicked m = None \<longrightarrow> mset (q_made m) = mset (q_published m) + mset (w_jsonPayloads (q_world m)) + mset (concat (q_collecting m))
     \<and> length (q_collecting m) \<le> NumWorkers \<and> length (q_pending m) \<le> q_capacity m
     \<and> length (w_jsonPayloads (q_world m)) \<le> payloads_capacity)"

lemma collected_ok:
  assumes "collected E k m m'" "pool_ok m" "length (q_collecting m) < NumWorkers"
  shows "pool_ok m'"
  using assms by (auto simp: collected_def pool_ok_def split: prod.splits res.splits)

lemma pool_move_ok: "pool_move E m m' \<Longrightarrow> q_panicked m = None \<Longrightarrow> pool_ok m \<Longrightarrow> pool_ok m'"
proof (induction rule: pool_move.induct)
  case (hand_over m k ks m')
  then show ?case by (intro collected_ok[OF hand_over(4)]) (simp_all add: pool_ok_def)
next
  case (collect m k ks m')
  then show ?case by (intro collected_ok[OF collect(3)]) (simp_all add: pool_ok_def)
next
  case (publish m p q w')
  with processData_queue[OF publish(1,2)] show ?case by (simp add: pool_ok_def)
qed (auto simp: pool_ok_def)

lemma pool_act_ok: "pool_act E m m' \<Longrightarrow> q_panicked m = None \<Longrightarrow> pool_ok m \<Longrightarrow> pool_ok m'"
  by (induction rule: pool_act.induct) (rule pool_move_ok, assumption+, simp add: pool_ok_def)

lemma pool_reaches_ok: "pool_reaches E m m' \<Longrightarrow> pool_ok m \<Longrightarrow> pool_ok m'"
  by (induction rule: rtranclp_induct) (auto simp: pool_step_def intro: pool_act_ok)

section \<open>What the pool leaves alone\<close>

text \<open>A part of the state that involves none of what collectors and publishers write is kept by every move.\<close>

locale pool_guarantee = poll_frame g for g :: "'e world \<Rightarrow> 'b" +
  assumes g_parsed: "g (w\<lparr>w_ext := e, w_sensors := s\<rparr>) = g w"
    and g_contacted: "g (w\<lparr>w_lastContacted := t\<rparr>) = g w"
    and g_queue: "g (w\<lparr>w_jsonPayloads := q\<rparr>) = g w"
begin

lemma keeps_events: "keeps g (GetEventsForPayload E c b ep t)"
proof (rule keepsI)
  fix w r w'
  assume "GetEventsForPayload E c b ep t w = (r, w')"
  then have "w'\<lparr>w_ext := undefined, w_sensors := undefined\<rparr> = w\<lparr>w_ext := undefined, w_sensors := undefined\<rparr>"
    unfolding GetEventsForPayload_events_for by (rule keepsD[OF dispatch.events_for_frame])
  then show "g w' = g w" by (metis g_parsed)
qed

lemma keeps_urls: "keeps g (GetPayloadURLForTelemetryType E c ep t)"
  unfolding GetPayloadURLForTelemetryType_def hpepdu_GetPayloadURLForTelemetryType_def
  by (cases c) (auto intro!: frame_rules keeps_ext)

lemma keeps_queue_event: "keeps g (queue_event i ev)"
  unfolding queue_event_def Let_def by (auto intro!: frame_rules simp: g_queue)

lemma keeps_collectData: "keeps g (collectData E k)"
  unfolding collectData_def collect_type_def collect_url_def contacted_def readEp_def
  by (intro frame_rules keeps_ext keeps_http keeps_events keeps_urls keeps_queue_event) (simp add: g_contacted)

lemma keeps_processData: "keeps g (processData E)"
  unfolding processData_def
  by (auto intro!: frame_rules keeps_writeToKafka simp: g_queue split: list.splits)

lemma collected_keeps: "collected E k m m' \<Longrightarrow> g (q_world m') = g (q_world m)"
  unfolding collected_def
  by (auto simp: g_queue dest: keepsD[OF keeps_collectData] split: prod.splits res.splits)

lemma move_keeps: "pool_move E m m' \<Longrightarrow> g (q_world m') = g (q_world m)"
  by (induction rule: pool_move.induct) (auto simp: g_queue dest: collected_keeps keepsD[OF keeps_processData])

end

interpretation pool_leaves: pool_guarantee
  "\<lambda>w. ((w_endpoints w, w_nonPolledEndpoints w, w_HSMEndpoints w, w_nextEp w, \<lambda>q. identity (w_ep w q)),
        (w_status w, w_prefixGroups w, w_nextSub w), w_kafkaBrokers w)"
  by unfold_locales (auto simp: identity_def)

section \<open>Everything can be published\<close>

text \<open>What is still to be done before all payloads are published.\<close>

definition backlog :: "'e pool \<Rightarrow> nat" where
  "backlog m = 2 * length (concat (q_collecting m)) + length (q_collecting m) + length (w_jsonPayloads (q_world m))"

lemma produce_returns: "brokers_ready bs \<Longrightarrow> \<exists>v. forIO (produce E msg) bs w = (Ret (), v)"
proof (induction bs arbitrary: w)
  case (Cons b bs)
  then have "\<exists>v. produce E msg b w = (Ret (), v)" by (simp add: produce_def brokers_ready_def)
  then obtain v where "produce E msg b w = (Ret (), v)" by blast
  with Cons show ?case by (simp add: thenIO_def bindIO_Ret brokers_ready_def)
qed simp

lemma processData_returns:
  assumes "brokers_ready (w_kafkaBrokers w)"
  shows "\<exists>w'. processData E w = (Ret (), w') \<and> w_kafkaBrokers w' = w_kafkaBrokers w"
proof (cases "w_jsonPayloads w")
  case Nil
  then show ?thesis by (simp add: processData_def)
next
  case (Cons p q)
  obtain v where run: "processData E w = (Ret (), v)"
    using Cons produce_returns[OF assms, of E "\<lparr> km_Topic = jp_topic p, km_Key = Some (jp_context p @ ''.'' @ jp_messageId p),
        km_Value = jp_payload p, km_Timestamp = fst (env_Now E (w_ext w)) \<rparr>"
        "w\<lparr>w_jsonPayloads := q, w_ext := snd (env_Now E (w_ext w))\<rparr>"]
    by (auto simp: processData_def thenIO_def writeToKafka_def)
  have "keeps w_kafkaBrokers (processData E)"
    unfolding processData_def by (auto intro!: frame_rules frame_brokers.keeps_writeToKafka split: list.splits)
  from keepsD[OF this run] run show ?thesis by blast
qed

definition running :: "'e pool \<Rightarrow> bool" where
  "running m \<longleftrightarrow> \<not> q_closed m \<and> q_panicked m = None \<and> brokers_ready (w_kafkaBrokers (q_world m))"

text \<open>As long as something is left, a move that only the pool is needed for makes it less.\<close>

lemma pool_progress:
  assumes "running m" "backlog m \<noteq> 0"
  shows "\<exists>m'. pool_move E m m' \<and> backlog m' < backlog m \<and> q_made m' = q_made m \<and> q_round m' = q_round m \<and> running m'"
proof (cases "w_jsonPayloads (q_world m)")
  case (Cons p q)
  obtain w' where run: "processData E (q_world m) = (Ret (), w')" "w_kafkaBrokers w' = w_kafkaBrokers (q_world m)"
    using processData_returns assms(1) unfolding running_def by blast
  from pool_move.publish[OF Cons run(1)] processData_queue[OF Cons run(1)] run(2) Cons assms(1) show ?thesis
    by (intro exI[of _ "m\<lparr>q_world := w', q_published := q_published m @ [p]\<rparr>"]) (simp add: backlog_def running_def)
next
  case Nil
  with assms(2) obtain c cs where cs: "q_collecting m = c # cs" by (cases "q_collecting m") (auto simp: backlog_def)
  show ?thesis
  proof (cases c)
    case empty: Nil
    with cs have "q_collecting m = [] @ [] # cs" by simp
    from pool_move.end_collect[OF this] cs empty assms(1) show ?thesis
      by (intro exI[of _ "m\<lparr>q_collecting := [] @ cs\<rparr>"]) (simp add: backlog_def running_def)
  next
    case (Cons p ps)
    with cs have "q_collecting m = [] @ (p # ps) # cs" by simp
    from pool_move.send_payload[OF this] cs Cons Nil assms(1) show ?thesis
      by (intro exI[of _ "m\<lparr>q_collecting := [] @ ps # cs,
            q_world := (q_world m)\<lparr>w_jsonPayloads := w_jsonPayloads (q_world m) @ [p]\<rparr>\<rparr>"])
         (simp add: backlog_def payloads_capacity_def running_def)
  qed
qed

lemma pool_drain: "running m \<Longrightarrow> \<exists>m'. pool_reaches E m m' \<and> backlog m' = 0 \<and> q_made m' = q_made m \<and> running m'"
proof (induction "backlog m" arbitrary: m rule: less_induct)
  case less
  show ?case
  proof (cases "backlog m = 0")
    case False
    from pool_progress[OF less(2) False] obtain m1 where m1: "pool_move E m m1" "backlog m1 < backlog m" "q_made m1 = q_made m"
      "running m1" by blast
    from less(2) m1(1) have "pool_step E m m1" by (auto simp: running_def intro: pool_stepI)
    with less(1)[OF m1(2,4)] m1(3) show ?thesis by (metis converse_rtranclp_into_rtranclp)
  qed (use less(2) in blast)
qed

section \<open>Properties\<close>

text \<open>
  C19: the worker pool loses and repeats nothing. In every reachable state, whatever the interleaving of
  the collectors, the publishers and the rest of the program, the payloads made so far are exactly
  those published, those in the channel and those a collector still has to send; no channel is
  fuller than its capacity and no more collectors are busy than there are, as long as no goroutine has
  panicked.
\<close>

theorem pool_loses_nothing:
  assumes "pool_reaches E (pool0 w) m" "q_panicked m = None"
  shows "mset (q_made m) = mset (q_published m) + mset (w_jsonPayloads (q_world m)) + mset (concat (q_collecting m))
     \<and> length (q_collecting m) \<le> NumWorkers \<and> length (q_pending m) \<le> q_capacity m
     \<and> length (w_jsonPayloads (q_world m)) \<le> payloads_capacity"
  using pool_reaches_ok[OF assms(1)] assms(2) by (simp add: pool_ok_def pool0_def)

text \<open>One Intel server that answers; a collector has read it and has sent nothing yet.\<close>

definition pool_world :: "unit world" where
  "pool_world = two_endpoints\<lparr>w_smaOK := True, w_endpoints := [intel_endpoint]\<rparr>"

lemma pool_collect:
  "case collectData empty_env intel_endpoint (pool_world\<lparr>w_jsonPayloads := []\<rparr>) of
     (r, w') \<Rightarrow> r = Ret () \<and> length (w_jsonPayloads w') = 3 \<and> w_kafkaBrokers w' = []"
  by code_simp

lemma pool_busy: "\<exists>m. pool_reaches empty_env (pool0 pool_world) m \<and> length (q_made m) = 3 \<and> running m
    \<and> q_round m = [] \<and> concat (q_collecting m) \<noteq> []"
proof -
  let ?m1 = "(pool0 pool_world)\<lparr>q_round := [intel_endpoint]\<rparr>"
  obtain w' where run: "collectData empty_env intel_endpoint (pool_world\<lparr>w_jsonPayloads := []\<rparr>) = (Ret (), w')"
    and made: "length (w_jsonPayloads w') = 3" "w_kafkaBrokers w' = []"
    using pool_collect by (auto split: prod.splits)
  let ?m2 = "?m1\<lparr>q_round := [], q_world := w'\<lparr>w_jsonPayloads := []\<rparr>, q_collecting := [w_jsonPayloads w'],
      q_made := w_jsonPayloads w'\<rparr>"
  have "pool_step empty_env (pool0 pool_world) ?m1"
    using pool_move.begin_round[of "pool0 pool_world" empty_env] by (intro pool_stepI) (simp_all add: pool0_def pool_world_def)
  moreover have "collected empty_env intel_endpoint (?m1\<lparr>q_round := []\<rparr>) ?m2"
    using run by (simp add: collected_def pool0_def)
  then have "pool_step empty_env ?m1 ?m2"
    by (intro pool_stepI pool_move.hand_over[of _ intel_endpoint "[]"]) (simp_all add: pool0_def NumWorkers_def)
  ultimately have "pool_reaches empty_env (pool0 pool_world) ?m2" by (meson converse_rtranclp_into_rtranclp r_into_rtranclp)
  with made show ?thesis by (intro exI[of _ ?m2]) (auto simp: running_def brokers_ready_def pool0_def)
qed

theorem pool_loses_nothing_witness:
  "\<exists>m. pool_reaches empty_env (pool0 pool_world) m \<and> length (q_made m) = 3 \<and>
     mset (q_made m) = mset (q_published m) + mset (w_jsonPayloads (q_world m)) + mset (concat (q_collecting m))"
  using pool_busy pool_loses_nothing[of empty_env pool_world] unfolding running_def by blast

text \<open>
  C30: the worker pool never blocks for good. From every reachable state of the running pool in which the
  brokers are connected, the pool can go on to a state in which all payloads made are published, each
  once: no interleaving leads to a state where a payload is stuck in a collector or in the channel.
\<close>

theorem pool_drains:
  assumes "pool_reaches E (pool0 w) m" "brokers_ready (w_kafkaBrokers (q_world m))" "\<not> q_closed m" "q_panicked m = None"
  shows "\<exists>m'. pool_reaches E m m' \<and> q_panicked m' = None \<and> q_made m' = q_made m \<and> mset (q_published m') = mset (q_made m')"
proof -
  from assms(2-4) have "running m" by (simp add: running_def)
  from pool_drain[OF this] obtain m' where m': "pool_reaches E m m'" "backlog m' = 0" "q_made m' = q_made m"
    and "running m'" by blast
  then have going: "q_panicked m' = None" by (simp add: running_def)
  have "pool_ok (pool0 w)" by (simp add: pool_ok_def pool0_def)
  from pool_reaches_ok[OF rtranclp_trans[OF assms(1) m'(1)] this] m' going show ?thesis
    by (auto simp: pool_ok_def backlog_def)
qed

theorem pool_drains_witness:
  "\<exists>m m'. length (q_made m) = 3 \<and> pool_reaches empty_env m m' \<and> q_made m' = q_made m \<and> mset (q_published m') = mset (q_made m')"
proof -
  obtain m where m: "pool_reaches empty_env (pool0 pool_world) m" "length (q_made m) = 3" "running m"
    using pool_busy by blast
  from pool_drains[OF m(1)] m(2,3) show ?thesis by (auto simp: running_def)
qed

text \<open>
  C38: stopping the pool can make it panic. From every reachable state between two rounds in which some
  collector still has payloads to send, the pool can be stopped so that the collector sends to the
  closed channel: \<^verbatim>\<open>doPolling\<close> closes it without waiting for the collectors.
\<close>

theorem pool_stop_panics:
  assumes "pool_reaches E (pool0 w) m" "q_panicked m = None" "q_round m = []" "concat (q_collecting m) \<noteq> []"
  shows "\<exists>m'. pool_reaches E m m' \<and> q_panicked m' = Some closed_channel"
proof -
  from assms(4) obtain as c bs where "q_collecting m = as @ c # bs" "c \<noteq> []" by (auto simp: in_set_conv_decomp)
  then obtain p ps where split: "q_collecting m = as @ (p # ps) # bs" by (cases c) auto
  let ?m1 = "m\<lparr>q_closed := True\<rparr>"
  have "pool_step E m ?m1" using assms(2,3) by (intro pool_stepI pool_move.stop)
  moreover have "pool_step E ?m1 (?m1\<lparr>q_panicked := Some closed_channel\<rparr>)"
    using assms(2) split by (intro pool_stepI pool_move.send_closed[of _ as p ps bs]) simp_all
  ultimately have "pool_reaches E m (?m1\<lparr>q_panicked := Some closed_channel\<rparr>)" by (meson converse_rtranclp_into_rtranclp r_into_rtranclp)
  then show ?thesis by (intro exI[of _ "?m1\<lparr>q_panicked := Some closed_channel\<rparr>"]) simp
qed

theorem pool_stop_panics_witness:
  "\<exists>m. pool_reaches empty_env (pool0 pool_world) m \<and> q_panicked m = Some closed_channel"
proof -
  obtain m where m: "pool_reaches empty_env (pool0 pool_world) m" "running m" "q_round m = []" "concat (q_collecting m) \<noteq> []"
    using pool_busy by blast
  from pool_stop_panics[OF m(1) _ m(3,4)] m(1,2) show ?thesis unfolding running_def by (meson rtranclp_trans)
qed

end
