(* ===== verification/Lifecycle.thy ===== *)
theory Lifecycle
  imports Main
begin

text \<open>
  How the process starts and stops: \<^verbatim>\<open>main\<close> of \<^verbatim>\<open>cmd/hmcollector/hmcollector.go\<close> from the start of the REST
  server on, its signal handler, and the outer loops of the goroutines that \<^verbatim>\<open>main\<close> starts
  (\<^verbatim>\<open>doUpdateHSMEndpoints\<close>, \<^verbatim>\<open>doPolling\<close> with \<^verbatim>\<open>monitorPollingEndpoints\<close>, \<^verbatim>\<open>doRFSubscribe\<close>, the server's goroutine of
  \<^verbatim>\<open>doRest\<close>). What the loops do in one round is the subject of the other theories; here a round is
  one step, and the test of \<^verbatim>\<open>Running\<close>, the unbuffered shutdown channels and the wait group are exact.
\<close>

section \<open>State\<close>

record settings =
  c_pollingEnabled :: bool
  c_rfSubscribeEnabled :: bool
  c_smURL :: string
  c_restURL :: string

text \<open>Where a loop is; a loop that is \<open>Selecting\<close> waits for its shutdown channel or its timer.\<close>

datatype loop = NotStarted | Starting | AtTest | Working | Selecting | Stopped

datatype handler = AwaitSignal | SendRefresh | SendSubscribe | SendPolling | StopRest | HandlerDone

datatype rest_server = Serving | Closed

datatype main_phase = SettingUp | StartRefresh | StartPolling | StartSubscribe | MainWaiting | Exited | Crashed

record life =
  l_Running :: bool
  l_WaitGroup :: int
  l_handler :: handler
  l_main :: main_phase
  l_refresh :: loop
  l_polling :: loop
  l_monitor :: loop
  l_subscribe :: loop
  l_RestSRV :: rest_server

text \<open>After \<^verbatim>\<open>doRest\<close>, which the wait group counts, and with the signal handler installed.\<close>

definition life0 :: life where
  "life0 = \<lparr> l_Running = True, l_WaitGroup = 1, l_handler = AwaitSignal, l_main = SettingUp, l_refresh = NotStarted,
     l_polling = NotStarted, l_monitor = NotStarted, l_subscribe = NotStarted, l_RestSRV = Serving \<rparr>"

section \<open>Steps\<close>

text \<open>A loop \<^verbatim>\<open>for Running { work; select { case <-shutdown: case <-timer: } }\<close> without the shutdown message.\<close>

inductive loop_step :: "bool \<Rightarrow> loop \<Rightarrow> loop \<Rightarrow> bool" where
  again: "loop_step True AtTest Working"
| leave: "loop_step False AtTest Stopped"
| worked: "loop_step R Working Selecting"
| timer: "loop_step R Selecting AtTest"

inductive_cases loop_stepE: "loop_step R l l'"
inductive_simps loop_step_ended [simp]: "loop_step R Stopped l"

text \<open>The loop of \<^verbatim>\<open>doPolling\<close> sleeps instead of selecting.\<close>

inductive polling_step :: "bool \<Rightarrow> loop \<Rightarrow> loop \<Rightarrow> bool" where
  poll_again: "polling_step True AtTest Working"
| poll_leave: "polling_step False AtTest Stopped"
| poll_slept: "polling_step R Working AtTest"

inductive_cases polling_stepE: "polling_step R l l'"

definition finished :: "loop \<Rightarrow> int" where
  "finished l = (if l = Stopped then 1 else 0)"

definition after_refresh :: "settings \<Rightarrow> handler" where
  "after_refresh c = (if c_rfSubscribeEnabled c then SendSubscribe
     else if c_pollingEnabled c then SendPolling else StopRest)"

definition after_subscribe :: "settings \<Rightarrow> handler" where
  "after_subscribe c = (if c_pollingEnabled c then SendPolling else StopRest)"

definition first_send :: "settings \<Rightarrow> handler" where
  "first_send c = (if c_pollingEnabled c \<or> c_rfSubscribeEnabled c then SendRefresh else after_refresh c)"

text \<open>
  The wait group is raised before a goroutine is started. The setting up of Kafka may end the process when it is no longer to run
  (\<open>setup_exit\<close>); a panic of any goroutine ends it too. The server is asked to shut down with a nil
  context, which is read only while a connection is in use (\<open>rest_busy\<close>).
\<close>

inductive life_act :: "settings \<Rightarrow> life \<Rightarrow> life \<Rightarrow> bool" for c where
  signal: "l_handler m = AwaitSignal \<Longrightarrow> life_act c m (m\<lparr>l_Running := False, l_handler := first_send c\<rparr>)"
| send_refresh: "l_handler m = SendRefresh \<Longrightarrow> l_refresh m = Selecting \<Longrightarrow>
    life_act c m (m\<lparr>l_refresh := AtTest, l_handler := after_refresh c\<rparr>)"
| send_subscribe: "l_handler m = SendSubscribe \<Longrightarrow> l_subscribe m = Selecting \<Longrightarrow>
    life_act c m (m\<lparr>l_subscribe := AtTest, l_handler := after_subscribe c\<rparr>)"
| send_polling: "l_handler m = SendPolling \<Longrightarrow> l_monitor m = Selecting \<Longrightarrow>
    life_act c m (m\<lparr>l_monitor := AtTest, l_handler := StopRest\<rparr>)"
| rest_stopped: "l_handler m = StopRest \<Longrightarrow> l_RestSRV m = Serving \<Longrightarrow>
    life_act c m (m\<lparr>l_handler := HandlerDone, l_RestSRV := Closed, l_WaitGroup := l_WaitGroup m - 1\<rparr>)"
| rest_busy: "l_handler m = StopRest \<Longrightarrow> l_RestSRV m = Serving \<Longrightarrow> life_act c m (m\<lparr>l_main := Crashed\<rparr>)"
| rest_failed: "l_RestSRV m = Serving \<Longrightarrow> life_act c m (m\<lparr>l_main := Crashed\<rparr>)"
| setup_exit: "l_main m = SettingUp \<Longrightarrow> \<not> l_Running m \<Longrightarrow> life_act c m (m\<lparr>l_main := Exited\<rparr>)"
| setup_failed: "l_main m = SettingUp \<Longrightarrow> life_act c m (m\<lparr>l_main := Crashed\<rparr>)"
| setup_done: "l_main m = SettingUp \<Longrightarrow> life_act c m (m\<lparr>l_main := StartRefresh\<rparr>)"
| start_refresh: "l_main m = StartRefresh \<Longrightarrow>
    life_act c m (if c_pollingEnabled c \<or> c_rfSubscribeEnabled c then m\<lparr>l_refresh := AtTest, l_main := StartPolling\<rparr>
      else m\<lparr>l_main := StartPolling\<rparr>)"
| start_polling: "l_main m = StartPolling \<Longrightarrow>
    life_act c m (if \<not> c_pollingEnabled c then m\<lparr>l_main := StartSubscribe\<rparr>
      else if c_smURL c = [] then m\<lparr>l_main := Crashed\<rparr>
      else m\<lparr>l_WaitGroup := l_WaitGroup m + 1, l_polling := Starting, l_main := StartSubscribe\<rparr>)"
| start_subscribe: "l_main m = StartSubscribe \<Longrightarrow>
    life_act c m (if \<not> c_rfSubscribeEnabled c then m\<lparr>l_main := MainWaiting\<rparr>
      else if c_smURL c = [] \<or> c_restURL c = [] then m\<lparr>l_main := Crashed\<rparr>
      else m\<lparr>l_WaitGroup := l_WaitGroup m + 1, l_subscribe := AtTest, l_main := MainWaiting\<rparr>)"
| main_exit: "l_main m = MainWaiting \<Longrightarrow> l_WaitGroup m = 0 \<Longrightarrow> life_act c m (m\<lparr>l_main := Exited\<rparr>)"
| refresh: "loop_step (l_Running m) (l_refresh m) l \<Longrightarrow> life_act c m (m\<lparr>l_refresh := l\<rparr>)"
| start_monitor: "l_polling m = Starting \<Longrightarrow> life_act c m (m\<lparr>l_polling := AtTest, l_monitor := AtTest\<rparr>)"
| monitor: "loop_step (l_Running m) (l_monitor m) l \<Longrightarrow> life_act c m (m\<lparr>l_monitor := l\<rparr>)"
| polling: "polling_step (l_Running m) (l_polling m) l \<Longrightarrow>
    life_act c m (m\<lparr>l_polling := l, l_WaitGroup := l_WaitGroup m - finished l\<rparr>)"
| subscribe: "loop_step (l_Running m) (l_subscribe m) l \<Longrightarrow>
    life_act c m (m\<lparr>l_subscribe := l, l_WaitGroup := l_WaitGroup m - finished l\<rparr>)"

definition alive :: "life \<Rightarrow> bool" where
  "alive m \<longleftrightarrow> l_main m \<noteq> Exited \<and> l_main m \<noteq> Crashed"

definition life_step :: "settings \<Rightarrow> life \<Rightarrow> life \<Rightarrow> bool" where
  "life_step c m m' \<longleftrightarrow> alive m \<and> life_act c m m'"

abbreviation life_reaches :: "settings \<Rightarrow> life \<Rightarrow> life \<Rightarrow> bool" where
  "life_reaches c \<equiv> (life_step c)\<^sup>*\<^sup>*"

section \<open>The wait group and the order of events\<close>

definition counted :: "loop \<Rightarrow> int" where
  "counted l = (if l = NotStarted \<or> l = Stopped then 0 else 1)"

lemma counted_simps [simp]:
  "counted NotStarted = 0" "counted Stopped = 0" "counted Starting = 1" "counted AtTest = 1" "counted Working = 1"
  "counted Selecting = 1" "finished Stopped = 1" "finished AtTest = 0" "finished Working = 0" "finished Selecting = 0"
  by (simp_all add: counted_def finished_def)

lemma counted_nonneg: "0 \<le> counted l"
  by (simp add: counted_def)

text \<open>The wait group counts the server and the two loops; \<^verbatim>\<open>Running\<close> and the server follow the signal handler.\<close>

definition group_ok :: "life \<Rightarrow> bool" where
  "group_ok m \<longleftrightarrow> l_WaitGroup m = (if l_RestSRV m = Serving then 1 else 0) + counted (l_polling m) + counted (l_subscribe m)
     \<and> (l_RestSRV m = Closed \<longleftrightarrow> l_handler m = HandlerDone) \<and> (l_Running m \<longleftrightarrow> l_handler m = AwaitSignal)"

text \<open>What has been started in every phase of \<^verbatim>\<open>main\<close>.\<close>

definition phase_ok :: "settings \<Rightarrow> life \<Rightarrow> bool" where
  "phase_ok c m \<longleftrightarrow>
     (l_main m \<in> {SettingUp, StartRefresh} \<longrightarrow> l_refresh m = NotStarted)
   \<and> (l_main m \<in> {SettingUp, StartRefresh, StartPolling} \<longrightarrow> l_polling m = NotStarted)
   \<and> (l_main m \<in> {SettingUp, StartRefresh, StartPolling, StartSubscribe} \<longrightarrow> l_subscribe m = NotStarted)
   \<and> (l_polling m \<in> {NotStarted, Starting} \<longrightarrow> l_monitor m = NotStarted)
   \<and> (l_polling m \<notin> {NotStarted, Starting} \<longrightarrow> l_monitor m \<noteq> NotStarted)
   \<and> (c_pollingEnabled c \<and> l_main m \<in> {StartSubscribe, MainWaiting} \<longrightarrow> l_polling m \<noteq> NotStarted)
   \<and> (c_rfSubscribeEnabled c \<and> l_main m = MainWaiting \<longrightarrow> l_subscribe m \<noteq> NotStarted)
   \<and> ((c_pollingEnabled c \<or> c_rfSubscribeEnabled c) \<and> l_main m \<in> {StartPolling, StartSubscribe, MainWaiting} \<longrightarrow> l_refresh m \<noteq> NotStarted)
   \<and> (\<not> (c_pollingEnabled c \<or> c_rfSubscribeEnabled c) \<longrightarrow> l_refresh m = NotStarted)
   \<and> (\<not> c_pollingEnabled c \<longrightarrow> l_polling m = NotStarted) \<and> (\<not> c_rfSubscribeEnabled c \<longrightarrow> l_subscribe m = NotStarted)
   \<and> l_refresh m \<noteq> Starting \<and> l_monitor m \<noteq> Starting \<and> l_subscribe m \<noteq> Starting \<and> l_polling m \<noteq> Selecting"

text \<open>Between rounds: a loop that has been told to stop does not begin another round.\<close>

abbreviation (input) at_rest :: "loop \<Rightarrow> bool" where
  "at_rest l \<equiv> l = AtTest \<or> l = Stopped"

definition told_ok :: "settings \<Rightarrow> life \<Rightarrow> bool" where
  "told_ok c m \<longleftrightarrow>
     (l_handler m \<in> {SendSubscribe, SendPolling, StopRest, HandlerDone} \<and> (c_pollingEnabled c \<or> c_rfSubscribeEnabled c) \<longrightarrow> at_rest (l_refresh m))
   \<and> (l_handler m \<in> {SendPolling, StopRest, HandlerDone} \<and> c_rfSubscribeEnabled c \<longrightarrow> at_rest (l_subscribe m))
   \<and> (l_handler m \<in> {StopRest, HandlerDone} \<and> c_pollingEnabled c \<longrightarrow> at_rest (l_monitor m))
   \<and> (l_Running m \<longrightarrow> Stopped \<notin> {l_refresh m, l_polling m, l_monitor m, l_subscribe m})"

text \<open>How the process can have ended.\<close>

definition exit_ok :: "life \<Rightarrow> bool" where
  "exit_ok m \<longleftrightarrow> (l_main m = Exited \<longrightarrow> \<not> l_Running m
     \<and> (l_WaitGroup m = 0 \<or> l_refresh m = NotStarted \<and> l_polling m = NotStarted \<and> l_subscribe m = NotStarted))"

lemmas life_defs = group_ok_def phase_ok_def told_ok_def exit_ok_def alive_def first_send_def after_refresh_def after_subscribe_def

lemma group_step: "life_act c m m' \<Longrightarrow> group_ok m \<Longrightarrow> phase_ok c m \<Longrightarrow> alive m \<Longrightarrow> group_ok m'"
  by (induction rule: life_act.induct; (erule loop_stepE | erule polling_stepE)?; simp add: life_defs; blast?)

lemma phase_step: "life_act c m m' \<Longrightarrow> phase_ok c m \<Longrightarrow> alive m \<Longrightarrow> phase_ok c m'"
  by (induction rule: life_act.induct; (erule loop_stepE | erule polling_stepE)?; simp add: life_defs; blast?)

lemma told_step: "life_act c m m' \<Longrightarrow> group_ok m \<Longrightarrow> phase_ok c m \<Longrightarrow> told_ok c m \<Longrightarrow> alive m \<Longrightarrow> told_ok c m'"
  by (induction rule: life_act.induct; (erule loop_stepE | erule polling_stepE)?; simp add: life_defs; blast?)

lemma group_zero:
  assumes "group_ok m" "l_WaitGroup m = 0"
  shows "l_RestSRV m = Closed \<and> counted (l_polling m) = 0 \<and> counted (l_subscribe m) = 0 \<and> \<not> l_Running m \<and> l_handler m = HandlerDone"
  using assms counted_nonneg[of "l_polling m"] counted_nonneg[of "l_subscribe m"]
  by (cases "l_RestSRV m") (auto simp: group_ok_def)

lemma exit_step:
  assumes "life_act c m m'" "group_ok m" "phase_ok c m" "alive m"
  shows "exit_ok m'"
proof -
  have "l_WaitGroup m = 0 \<longrightarrow> \<not> l_Running m" using group_zero[OF assms(2)] by blast
  with assms(1,3,4) show ?thesis
    by (induction rule: life_act.induct; (erule loop_stepE | erule polling_stepE)?;
      simp add: phase_ok_def alive_def exit_ok_def split del: if_split split: if_splits)
qed

definition life_ok :: "settings \<Rightarrow> life \<Rightarrow> bool" where
  "life_ok c m \<longleftrightarrow> group_ok m \<and> phase_ok c m \<and> told_ok c m \<and> exit_ok m"

lemma life_step_ok: "life_step c m m' \<Longrightarrow> life_ok c m \<Longrightarrow> life_ok c m'"
  using group_step phase_step told_step exit_step by (auto simp: life_ok_def life_step_def)

lemma life_ok_reached: "life_reaches c life0 m \<Longrightarrow> life_ok c m"
proof (induction rule: rtranclp_induct)
  case base
  show ?case by (simp add: life_ok_def life0_def life_defs)
qed (rule life_step_ok)

section \<open>Properties\<close>

text \<open>
  C23: the process ends only after an orderly shutdown. When \<^verbatim>\<open>main\<close> has returned or left the setting up,
  the signal has been received, and either no loop had been started, or the REST server is closed, all
  enabled parts have been told to stop, the loops that the process waits for have ended, and no loop is
  cut off in the middle of a round.
\<close>

theorem orderly_exit:
  assumes "life_reaches c life0 m" "l_main m = Exited"
  shows "\<not> l_Running m \<and>
     (l_refresh m = NotStarted \<and> l_polling m = NotStarted \<and> l_subscribe m = NotStarted
      \<or> l_RestSRV m = Closed \<and> l_handler m = HandlerDone
        \<and> l_polling m = (if c_pollingEnabled c then Stopped else NotStarted)
        \<and> l_subscribe m = (if c_rfSubscribeEnabled c then Stopped else NotStarted)
        \<and> {l_refresh m, l_monitor m} \<subseteq> {NotStarted, AtTest, Stopped})"
proof (cases "l_WaitGroup m = 0")
  case False
  with life_ok_reached[OF assms(1)] assms(2) show ?thesis by (simp add: life_ok_def exit_ok_def)
next
  case True
  from life_ok_reached[OF assms(1)] have ok: "group_ok m" "phase_ok c m" "told_ok c m" by (simp_all add: life_ok_def)
  from group_zero[OF ok(1) True] have zero: "l_RestSRV m = Closed" "l_handler m = HandlerDone" "\<not> l_Running m"
    "l_polling m = NotStarted \<or> l_polling m = Stopped" "l_subscribe m = NotStarted \<or> l_subscribe m = Stopped"
    by (auto simp: counted_def split: if_splits)
  from zero(4,5) ok(2,3) zero(1-3) show ?thesis
    by (elim disjE; cases "c_pollingEnabled c"; cases "c_rfSubscribeEnabled c"; simp add: phase_ok_def told_ok_def)
qed

section \<open>A shutdown can hang\<close>

definition stuck :: "life \<Rightarrow> bool" where
  "stuck m \<longleftrightarrow> l_handler m = SendRefresh \<and> l_refresh m = Stopped \<and> l_RestSRV m = Serving
     \<and> l_main m \<notin> {SettingUp, StartRefresh, Exited} \<and> group_ok m"

lemma stuck_step:
  assumes "life_act c m m'" "stuck m" "group_ok m'"
  shows "stuck m'"
proof -
  have "l_WaitGroup m \<noteq> 0" using assms(2) group_zero[of m] unfolding stuck_def by auto
  with assms(1,2) have "l_handler m' = SendRefresh \<and> l_refresh m' = Stopped \<and> l_RestSRV m' = Serving
     \<and> l_main m' \<notin> {SettingUp, StartRefresh, Exited}"
    by (induction rule: life_act.induct) (simp_all add: stuck_def)
  with assms(3) show ?thesis by (simp add: stuck_def)
qed

lemma stuck_forever:
  assumes "life_reaches c m m'" "life_ok c m" "stuck m"
  shows "stuck m' \<and> life_ok c m'"
  using assms
proof (induction rule: rtranclp_induct)
  case (step y z)
  then have y: "stuck y" "life_ok c y" by blast+
  from life_step_ok[OF step(2) y(2)] stuck_step[of c y z] step(2) y(1) show ?case
    by (simp add: life_step_def life_ok_def)
qed blast

text \<open>
  C39: a shutdown can hang. Whenever polling or subscribing is enabled, a state can be reached in which
  the signal has been received, from which the process never ends by itself and the REST server
  is never closed: the loop that refreshes the endpoints saw \<^verbatim>\<open>Running\<close> cleared when its timer fired and has
  ended, so that the signal handler waits for good to send it the first shutdown message.
\<close>

theorem shutdown_can_hang:
  assumes "c_pollingEnabled c \<or> c_rfSubscribeEnabled c"
  shows "\<exists>m. life_reaches c life0 m \<and> \<not> l_Running m
     \<and> (\<forall>m'. life_reaches c m m' \<longrightarrow> l_main m' \<noteq> Exited \<and> l_handler m' = SendRefresh \<and> l_RestSRV m' = Serving)"
proof -
  let ?up = "life0\<lparr>l_main := StartPolling, l_refresh := AtTest\<rparr>"
  let ?sel = "?up\<lparr>l_refresh := Selecting\<rparr>"
  let ?sig = "?sel\<lparr>l_Running := False, l_handler := SendRefresh\<rparr>"
  have "life_step c life0 (life0\<lparr>l_main := StartRefresh\<rparr>)"
    using life_act.setup_done[of life0 c] by (simp add: life_step_def alive_def life0_def)
  moreover have "life_step c (life0\<lparr>l_main := StartRefresh\<rparr>) ?up"
    using life_act.start_refresh[of "life0\<lparr>l_main := StartRefresh\<rparr>" c] assms by (simp add: life_step_def alive_def life0_def)
  moreover have "life_step c ?up (?up\<lparr>l_refresh := Working\<rparr>)" "life_step c (?up\<lparr>l_refresh := Working\<rparr>) ?sel"
    using life_act.refresh[of ?up Working c] life_act.refresh[of "?up\<lparr>l_refresh := Working\<rparr>" Selecting c]
    by (simp_all add: life_step_def alive_def life0_def loop_step.intros)
  moreover have "life_step c ?sel ?sig"
    using life_act.signal[of ?sel c] assms by (simp add: life_step_def alive_def life0_def first_send_def)
  moreover have "life_step c ?sig (?sig\<lparr>l_refresh := AtTest\<rparr>)" "life_step c (?sig\<lparr>l_refresh := AtTest\<rparr>) (?sig\<lparr>l_refresh := Stopped\<rparr>)"
    using life_act.refresh[of ?sig AtTest c] life_act.refresh[of "?sig\<lparr>l_refresh := AtTest\<rparr>" Stopped c]
    by (simp_all add: life_step_def alive_def life0_def loop_step.intros)
  ultimately have reached: "life_reaches c life0 (?sig\<lparr>l_refresh := Stopped\<rparr>)"
    by (meson converse_rtranclp_into_rtranclp rtranclp.rtrancl_refl)
  have "stuck (?sig\<lparr>l_refresh := Stopped\<rparr>)" by (simp add: stuck_def group_ok_def life0_def)
  with stuck_forever[OF _ life_ok_reached[OF reached]] have
    "\<forall>m'. life_reaches c (?sig\<lparr>l_refresh := Stopped\<rparr>) m' \<longrightarrow> stuck m'" by blast
  with reached show ?thesis by (intro exI[of _ "?sig\<lparr>l_refresh := Stopped\<rparr>"]) (simp add: stuck_def)
qed

definition both :: settings where
  "both = \<lparr> c_pollingEnabled = True, c_rfSubscribeEnabled = True, c_smURL = ''http://smd'', c_restURL = ''http://me'' \<rparr>"

theorem shutdown_can_hang_witness:
  "\<exists>m. life_reaches both life0 m \<and> \<not> l_Running m \<and> (\<forall>m'. life_reaches both m m' \<longrightarrow> l_main m' \<noteq> Exited)"
  using shutdown_can_hang[of both] by (auto simp: both_def)

section \<open>A shutdown can complete\<close>

text \<open>
  All loops still to be told to stop wait for the message.
\<close>

definition ready :: "settings \<Rightarrow> life \<Rightarrow> bool" where
  "ready c m \<longleftrightarrow> life_ok c m \<and> l_main m = MainWaiting \<and> \<not> l_Running m
     \<and> (l_handler m = SendRefresh \<longrightarrow> l_refresh m = Selecting)
     \<and> (c_rfSubscribeEnabled c \<and> l_handler m \<in> {SendRefresh, SendSubscribe} \<longrightarrow> l_subscribe m = Selecting)
     \<and> (c_pollingEnabled c \<and> l_handler m \<in> {SendRefresh, SendSubscribe, SendPolling} \<longrightarrow> l_monitor m = Selecting)
     \<and> (l_handler m = SendSubscribe \<longrightarrow> c_rfSubscribeEnabled c) \<and> (l_handler m = SendPolling \<longrightarrow> c_pollingEnabled c)
     \<and> l_polling m \<noteq> Starting"

fun todo :: "handler \<Rightarrow> nat" where
  "todo AwaitSignal = 5" | "todo SendRefresh = 4" | "todo SendSubscribe = 3" | "todo SendPolling = 2"
| "todo StopRest = 1" | "todo HandlerDone = 0"

fun rounds :: "loop \<Rightarrow> nat" where
  "rounds Working = 2" | "rounds AtTest = 1" | "rounds _ = 0"

definition to_finish :: "life \<Rightarrow> nat" where
  "to_finish m = 3 * todo (l_handler m) + rounds (l_polling m) + rounds (l_subscribe m)"

lemma ready_progress:
  assumes "ready c m"
  shows "\<exists>m'. life_step c m m' \<and> (l_main m' = Exited \<or> ready c m' \<and> to_finish m' < to_finish m)"
proof -
  have alive: "alive m" and ok: "life_ok c m" using assms by (simp_all add: ready_def alive_def)
  have *: ?thesis if "life_act c m m'" "life_ok c m' \<Longrightarrow> l_main m' = Exited \<or> ready c m' \<and> to_finish m' < to_finish m" for m'
    using that alive life_step_ok[OF _ ok, of m'] by (auto simp: life_step_def)
  show ?thesis
  proof (cases "l_handler m")
    case AwaitSignal
    with ok assms have False unfolding ready_def life_ok_def group_ok_def by blast
    then show ?thesis ..
  next
    case SendRefresh
    with assms have "l_refresh m = Selecting" by (simp add: ready_def)
    from *[OF life_act.send_refresh[OF SendRefresh this]] assms SendRefresh show ?thesis
      by (simp add: ready_def to_finish_def after_refresh_def split: if_splits)
  next
    case SendSubscribe
    with assms have "l_subscribe m = Selecting" by (simp add: ready_def)
    from *[OF life_act.send_subscribe[OF SendSubscribe this]] assms SendSubscribe this show ?thesis
      by (simp add: ready_def to_finish_def after_subscribe_def split: if_splits)
  next
    case SendPolling
    with assms have "l_monitor m = Selecting" by (simp add: ready_def)
    from *[OF life_act.send_polling[OF SendPolling this]] assms SendPolling show ?thesis
      by (simp add: ready_def to_finish_def)
  next
    case StopRest
    with ok have "l_RestSRV m = Serving" by (cases "l_RestSRV m") (simp_all add: life_ok_def group_ok_def)
    from *[OF life_act.rest_stopped[OF StopRest this]] assms StopRest show ?thesis
      by (simp add: ready_def to_finish_def)
  next
    case HandlerDone
    then have rest: "l_RestSRV m = Closed" using ok by (simp add: life_ok_def group_ok_def)
    show ?thesis
    proof (cases "l_WaitGroup m = 0")
      case True
      from *[OF life_act.main_exit[OF _ True]] assms show ?thesis by (simp add: ready_def)
    next
      case False
      with ok rest have "counted (l_polling m) \<noteq> 0 \<or> counted (l_subscribe m) \<noteq> 0"
        by (auto simp: life_ok_def group_ok_def)
      then consider "l_polling m = AtTest" | "l_polling m = Working" | "l_subscribe m = AtTest"
        using ok assms HandlerDone by (cases "l_polling m") (auto simp: counted_def ready_def life_ok_def told_ok_def phase_ok_def split: if_splits)
      then show ?thesis
      proof cases
        case 1
        with assms have "polling_step (l_Running m) (l_polling m) Stopped" by (simp add: ready_def polling_step.intros)
        from *[OF life_act.polling[OF this]] assms 1 HandlerDone show ?thesis by (simp add: ready_def to_finish_def)
      next
        case 2
        with assms have "polling_step (l_Running m) (l_polling m) AtTest" by (simp add: ready_def polling_step.intros)
        from *[OF life_act.polling[OF this]] assms 2 HandlerDone show ?thesis by (simp add: ready_def to_finish_def)
      next
        case 3
        with assms have "loop_step (l_Running m) (l_subscribe m) Stopped" by (simp add: ready_def loop_step.intros)
        from *[OF life_act.subscribe[OF this]] assms 3 HandlerDone show ?thesis by (simp add: ready_def to_finish_def)
      qed
    qed
  qed
qed


lemma ready_exits: "ready c m \<Longrightarrow> \<exists>m'. life_reaches c m m' \<and> l_main m' = Exited"
proof (induction "to_finish m" arbitrary: m rule: less_induct)
  case less
  from ready_progress[OF less(2)] obtain m1 where m1: "life_step c m m1"
    "l_main m1 = Exited \<or> ready c m1 \<and> to_finish m1 < to_finish m" by blast
  from m1(2) less(1)[of m1] obtain m2 where "life_reaches c m1 m2" "l_main m2 = Exited" by blast
  with m1(1) show ?case by (meson converse_rtranclp_into_rtranclp)
qed

text \<open>While the process is running, every loop can be brought to wait for its message.\<close>

definition up :: "settings \<Rightarrow> life \<Rightarrow> bool" where
  "up c m \<longleftrightarrow> life_ok c m \<and> l_main m = MainWaiting \<and> l_Running m"

fun distance :: "loop \<Rightarrow> nat" where
  "distance AtTest = 2" | "distance Working = 1" | "distance _ = 0"

definition to_settle :: "life \<Rightarrow> nat" where
  "to_settle m = distance (l_refresh m) + distance (l_subscribe m) + distance (l_monitor m)
     + (if l_polling m = Starting then 3 else 0)"

lemma loop_forward:
  assumes "distance l \<noteq> 0"
  shows "\<exists>l'. loop_step True l l' \<and> distance l' < distance l \<and> l' \<noteq> Stopped"
  using assms by (cases l) (auto intro: loop_step.intros)

lemma up_progress:
  assumes "up c m" "to_settle m \<noteq> 0"
  shows "\<exists>m'. life_step c m m' \<and> up c m' \<and> to_settle m' < to_settle m"
proof -
  have alive: "alive m" and ok: "life_ok c m" and running: "l_Running m" using assms by (simp_all add: up_def alive_def)
  have *: ?thesis if "life_act c m m'" "life_ok c m' \<Longrightarrow> up c m' \<and> to_settle m' < to_settle m" for m'
    using that alive life_step_ok[OF _ ok, of m'] by (auto simp: life_step_def)
  from assms(2) consider "distance (l_refresh m) \<noteq> 0" | "distance (l_subscribe m) \<noteq> 0" | "distance (l_monitor m) \<noteq> 0"
    | "l_polling m = Starting" by (auto simp: to_settle_def split: if_splits)
  then show ?thesis
  proof cases
    case 1
    from loop_forward[OF this] running obtain l where l: "loop_step (l_Running m) (l_refresh m) l" "distance l < distance (l_refresh m)"
      by auto
    from *[OF life_act.refresh[OF l(1)]] l(2) assms(1) show ?thesis by (simp add: up_def to_settle_def)
  next
    case 2
    from loop_forward[OF this] running obtain l where l: "loop_step (l_Running m) (l_subscribe m) l" "distance l < distance (l_subscribe m)"
      by auto
    from *[OF life_act.subscribe[OF l(1)]] l(2) assms(1) show ?thesis by (simp add: up_def to_settle_def)
  next
    case 3
    from loop_forward[OF this] running obtain l where l: "loop_step (l_Running m) (l_monitor m) l" "distance l < distance (l_monitor m)"
      by auto
    from *[OF life_act.monitor[OF l(1)]] l(2) assms(1) show ?thesis by (simp add: up_def to_settle_def)
  next
    case 4
    with ok have "l_monitor m = NotStarted" by (simp add: life_ok_def phase_ok_def)
    with *[OF life_act.start_monitor[OF 4]] 4 assms(1) show ?thesis by (simp add: up_def to_settle_def)
  qed
qed

lemma up_settles: "up c m \<Longrightarrow> \<exists>m'. life_reaches c m m' \<and> up c m' \<and> to_settle m' = 0"
proof (induction "to_settle m" arbitrary: m rule: less_induct)
  case less
  show ?case
  proof (cases "to_settle m = 0")
    case False
    from up_progress[OF less(2) this] obtain m1 where m1: "life_step c m m1" "up c m1" "to_settle m1 < to_settle m" by blast
    from less(1)[OF m1(3,2)] m1(1) show ?thesis by (meson converse_rtranclp_into_rtranclp)
  qed (use less(2) in blast)
qed

lemma settled_ready:
  assumes "up c m" "to_settle m = 0"
  shows "\<exists>m'. life_step c m m' \<and> ready c m'"
proof -
  have ok: "life_ok c m" and main: "l_main m = MainWaiting" "l_Running m" using assms by (simp_all add: up_def)
  from ok main(2) have "l_handler m = AwaitSignal" by (simp add: life_ok_def group_ok_def)
  then have step: "life_step c m (m\<lparr>l_Running := False, l_handler := first_send c\<rparr>)"
    using main by (simp add: life_step_def alive_def life_act.signal)
  have quiet: "l \<in> {NotStarted, Selecting}" if "distance l = 0" "l \<noteq> Stopped" "l \<noteq> Starting" for l
    using that by (cases l) simp_all
  from assms(2) have "distance (l_refresh m) = 0" "distance (l_subscribe m) = 0" "distance (l_monitor m) = 0" "l_polling m \<noteq> Starting"
    by (simp_all add: to_settle_def split: if_splits)
  moreover from ok main have "l_refresh m \<noteq> Stopped" "l_refresh m \<noteq> Starting" "l_subscribe m \<noteq> Stopped" "l_subscribe m \<noteq> Starting"
    "l_monitor m \<noteq> Stopped" "l_monitor m \<noteq> Starting"
    by (simp_all add: life_ok_def phase_ok_def told_ok_def eq_commute[of Stopped])
  ultimately have "l_refresh m \<in> {NotStarted, Selecting}" "l_subscribe m \<in> {NotStarted, Selecting}"
    "l_monitor m \<in> {NotStarted, Selecting}"
    using quiet[of "l_refresh m"] quiet[of "l_subscribe m"] quiet[of "l_monitor m"] by simp_all
  moreover from ok main \<open>l_polling m \<noteq> Starting\<close> have "c_pollingEnabled c \<Longrightarrow> l_monitor m \<noteq> NotStarted"
    "c_rfSubscribeEnabled c \<Longrightarrow> l_subscribe m \<noteq> NotStarted" "c_pollingEnabled c \<or> c_rfSubscribeEnabled c \<Longrightarrow> l_refresh m \<noteq> NotStarted"
    by (auto simp: life_ok_def phase_ok_def)
  ultimately have "c_pollingEnabled c \<Longrightarrow> l_monitor m = Selecting" "c_rfSubscribeEnabled c \<Longrightarrow> l_subscribe m = Selecting"
    "c_pollingEnabled c \<or> c_rfSubscribeEnabled c \<Longrightarrow> l_refresh m = Selecting" by blast+
  with life_step_ok[OF step ok] main \<open>l_polling m \<noteq> Starting\<close>
  have "ready c (m\<lparr>l_Running := False, l_handler := first_send c\<rparr>)"
    by (simp add: ready_def first_send_def after_refresh_def after_subscribe_def)
  with step show ?thesis by blast
qed

lemma up_exits:
  assumes "life_reaches c life0 m" "l_main m = MainWaiting" "l_Running m"
  shows "\<exists>m'. life_reaches c m m' \<and> l_main m' = Exited"
proof -
  from life_ok_reached[OF assms(1)] assms(2,3) have "up c m" by (simp add: up_def)
  from up_settles[OF this] obtain m1 where m1: "life_reaches c m m1" "up c m1" "to_settle m1 = 0" by blast
  from settled_ready[OF m1(2,3)] obtain m2 where m2: "life_step c m1 m2" "ready c m2" by blast
  from ready_exits[OF m2(2)] m1(1) m2(1) show ?thesis
    by (meson rtranclp.rtrancl_into_rtrancl rtranclp_trans)
qed

text \<open>
  C31: a shutdown can always complete. From every reachable state in which the process is up and no signal
  has been received yet, whatever its loops are doing, there is a continuation with a signal in which
  the process ends; so, apart from the race of the timer above, no configuration of enabled parts
  prevents it.
\<close>

theorem shutdown_completes:
  assumes "life_reaches c life0 m" "l_main m = MainWaiting" "l_Running m"
  shows "\<exists>m'. life_reaches c m m' \<and> l_main m' = Exited"
  by (rule up_exits[OF assms])

lemma both_up: "\<exists>m. life_reaches both life0 m \<and> l_main m = MainWaiting \<and> l_Running m"
proof -
  let ?a = "life0\<lparr>l_main := StartRefresh\<rparr>"
  let ?b = "?a\<lparr>l_refresh := AtTest, l_main := StartPolling\<rparr>"
  let ?c = "?b\<lparr>l_WaitGroup := 2, l_polling := Starting, l_main := StartSubscribe\<rparr>"
  let ?d = "?c\<lparr>l_WaitGroup := 3, l_subscribe := AtTest, l_main := MainWaiting\<rparr>"
  have "life_step both life0 ?a" "life_step both ?a ?b" "life_step both ?b ?c" "life_step both ?c ?d"
    using life_act.setup_done[of life0 both] life_act.start_refresh[of ?a both] life_act.start_polling[of ?b both]
      life_act.start_subscribe[of ?c both] by (simp_all add: life_step_def alive_def life0_def both_def)
  then have "life_reaches both life0 ?d" by (meson converse_rtranclp_into_rtranclp rtranclp.rtrancl_refl)
  then show ?thesis by (intro exI[of _ ?d]) (simp add: life0_def)
qed

theorem shutdown_completes_witness:
  "\<exists>m m'. l_main m = MainWaiting \<and> life_reaches both m m' \<and> l_main m' = Exited"
  using both_up shutdown_completes[of both] by blast

theorem orderly_exit_witness:
  "\<exists>m. life_reaches both life0 m \<and> l_main m = Exited \<and> \<not> l_Running m \<and> l_polling m \<in> {NotStarted, Stopped}"
proof -
  obtain m where "life_reaches both life0 m" "l_main m = Exited"
    using both_up up_exits[of both] by (meson rtranclp_trans)
  with orderly_exit[OF this] show ?thesis by (auto split: if_splits)
qed

end
