(* ===== verification/PassMachine.thy ===== *)
theory PassMachine
  imports Polling Hsm
begin

text \<open>
  The passes of \<^verbatim>\<open>monitorPollingEndpoints\<close> (\<^verbatim>\<open>cmd/hmcollector/polling.go\<close>) with their goroutines as a step
  relation. The loop visits the endpoints of the State Manager in any order, starts a goroutine for
  each one that is neither polled nor ignored, and waits for all of them before the next pass. The
  requests of one classification are one step; starting, finishing and adding interleave, with each
  other and with the rest of the program, which may refresh the endpoints meanwhile. The sequential
  run of a pass in \<^verbatim>\<open>Polling\<close> is one of the runs.
\<close>

section \<open>State and steps\<close>

record 'e pass =
  s_world :: "'e world"
  s_snapshot :: "nat list"
  s_todo :: "nat list option"
  s_classifying :: "nat list"
  s_found :: "(nat \<times> classification) list"
  s_givenUp :: "nat list"
  s_panicked :: "panic option"

definition pass0 :: "'e world \<Rightarrow> 'e pass" where
  "pass0 w = \<lparr> s_world = w, s_snapshot = [], s_todo = None, s_classifying = [], s_found = [], s_givenUp = [],
     s_panicked = None \<rparr>"

text \<open>
  What the other goroutines may do to the state: they neither add nor remove classified endpoints,
  never change the ID of a description, and keep the map of endpoints well formed.
\<close>

definition interferes :: "'e world \<Rightarrow> 'e world \<Rightarrow> bool" where
  "interferes w w' \<longleftrightarrow> w_endpoints w' = w_endpoints w \<and> w_nonPolledEndpoints w' = w_nonPolledEndpoints w
     \<and> w_nextEp w \<le> w_nextEp w' \<and> (\<forall>q < w_nextEp w. ep_ID (w_ep w' q) = ep_ID (w_ep w q)) \<and> (hsm_ok w \<longrightarrow> hsm_ok w')"

inductive pass_move :: "'e env \<Rightarrow> 'e pass \<Rightarrow> 'e pass \<Rightarrow> bool" for E where
  begin_pass:
    "s_todo m = None \<Longrightarrow> mset order = mset (map snd (w_HSMEndpoints (s_world m))) \<Longrightarrow>
     pass_move E m (m\<lparr>s_snapshot := order, s_todo := Some order, s_givenUp := []\<rparr>)"
| skip_seen:
    "s_todo m = Some (p # ps) \<Longrightarrow> is_seen p (s_world m) \<Longrightarrow> pass_move E m (m\<lparr>s_todo := Some ps\<rparr>)"
| start_goroutine:
    "s_todo m = Some (p # ps) \<Longrightarrow> \<not> is_seen p (s_world m) \<Longrightarrow>
     pass_move E m (m\<lparr>s_todo := Some ps, s_classifying := s_classifying m @ [p]\<rparr>)"
| classified:
    "s_classifying m = as @ p # bs \<Longrightarrow> classify E p (s_world m) = (Ret c, w') \<Longrightarrow>
     pass_move E m (m\<lparr>s_world := w', s_classifying := as @ bs, s_found := s_found m @ [(p, c)]\<rparr>)"
| classify_panics:
    "s_classifying m = as @ p # bs \<Longrightarrow> classify E p (s_world m) = (Panic x, w') \<Longrightarrow>
     pass_move E m (m\<lparr>s_world := w', s_panicked := Some x\<rparr>)"
| added:
    "s_found m = as @ (p, c) # bs \<Longrightarrow> add_endpoint E p c (s_world m) = (Ret (), w') \<Longrightarrow>
     pass_move E m (m\<lparr>s_world := w', s_found := as @ bs,
       s_givenUp := (if c = GivenUp then s_givenUp m @ [p] else s_givenUp m)\<rparr>)"
| end_pass:
    "s_todo m = Some [] \<Longrightarrow> s_classifying m = [] \<Longrightarrow> s_found m = [] \<Longrightarrow> pass_move E m (m\<lparr>s_todo := None\<rparr>)"

text \<open>A step is a move of the loop or of one of its goroutines, or something the rest of the program does.\<close>

inductive pass_act :: "'e env \<Rightarrow> 'e pass \<Rightarrow> 'e pass \<Rightarrow> bool" for E where
  own: "pass_move E m m' \<Longrightarrow> pass_act E m m'"
| rest_of_program: "interferes (s_world m) w' \<Longrightarrow> pass_act E m (m\<lparr>s_world := w'\<rparr>)"

lemmas pass_acts = pass_act.own[OF pass_move.begin_pass] pass_act.own[OF pass_move.skip_seen]
  pass_act.own[OF pass_move.end_pass]

definition pass_step :: "'e env \<Rightarrow> 'e pass \<Rightarrow> 'e pass \<Rightarrow> bool" where
  "pass_step E m m' \<longleftrightarrow> s_panicked m = None \<and> pass_act E m m'"

abbreviation pass_reaches :: "'e env \<Rightarrow> 'e pass \<Rightarrow> 'e pass \<Rightarrow> bool" where
  "pass_reaches E \<equiv> (pass_step E)\<^sup>*\<^sup>*"

section \<open>Interference\<close>

interpretation pass_frame: poll_frame
  "\<lambda>w. (w_endpoints w, w_nonPolledEndpoints w, w_HSMEndpoints w, w_nextEp w, \<lambda>q. identity (w_ep w q))"
  by unfold_locales (auto simp: identity_def)

lemma interferesI:
  assumes "w_endpoints w' = w_endpoints w" "w_nonPolledEndpoints w' = w_nonPolledEndpoints w"
    "w_HSMEndpoints w' = w_HSMEndpoints w" "w_nextEp w' = w_nextEp w" "\<And>q. ep_ID (w_ep w' q) = ep_ID (w_ep w q)"
  shows "interferes w w'"
  using assms by (simp add: interferes_def hsm_ok_def)

lemma same_interferes:
  assumes "(w_endpoints w', w_nonPolledEndpoints w', w_HSMEndpoints w', w_nextEp w', \<lambda>q. identity (w_ep w' q))
    = (w_endpoints w, w_nonPolledEndpoints w, w_HSMEndpoints w, w_nextEp w, \<lambda>q. identity (w_ep w q))"
  shows "interferes w w'"
proof -
  from assms have k: "w_endpoints w' = w_endpoints w" "w_nonPolledEndpoints w' = w_nonPolledEndpoints w"
    "w_HSMEndpoints w' = w_HSMEndpoints w" "w_nextEp w' = w_nextEp w" "\<And>q. identity (w_ep w' q) = identity (w_ep w q)"
    by (auto simp: fun_eq_iff)
  from k(5) have "ep_ID (w_ep w' q) = ep_ID (w_ep w q)" for q by (rule identity_eqD(1))
  with k(1-4) show ?thesis by (rule interferesI)
qed

lemmas classify_interferes = same_interferes[OF keepsD[OF pass_frame.keeps_classify]]

lemma interferes_trans: "interferes a b \<Longrightarrow> interferes b c \<Longrightarrow> interferes a c"
  by (simp add: interferes_def)

text \<open>A refresh of the endpoints is such an interference, as is any computation that keeps the classified endpoints.\<close>

lemma update_endpoint_interferes:
  assumes "update_endpoint E n w = (r, w')"
  shows "interferes w w'"
proof -
  have ok: "hsm_ok w \<longrightarrow> hsm_ok w'" using update_endpoint_ok[OF _ assms] by blast
  have keep: "keeps (\<lambda>w. (w_endpoints w, w_nonPolledEndpoints w)) (update_endpoint E n)"
    unfolding update_endpoint_def allocEp_def updateEndpointWithCredentials_def writeEp_def
    by (intro frame_rules) auto
  from assms have "w_nextEp w \<le> w_nextEp w' \<and> (\<forall>q < w_nextEp w. ep_ID (w_ep w' q) = ep_ID (w_ep w q))"
    by (cases rule: update_endpoint_cases) (simp, simp, fastforce)
  with keepsD[OF keep assms] ok show ?thesis by (simp add: interferes_def)
qed

lemma update_endpoints_interferes: "forIO (update_endpoint E) ns w = (r, w') \<Longrightarrow> interferes w w'"
proof (induction ns arbitrary: w)
  case (Cons n ns)
  from Cons.prems show ?case unfolding forIO.simps thenIO_def
    by (cases rule: bindIO_cases)
       (auto intro: interferes_trans[OF update_endpoint_interferes Cons.IH] dest: update_endpoint_interferes)
qed (simp add: interferes_def)

lemma doUpdate_interferes:
  assumes "doUpdateHSMEndpoints E w = (r, w')"
  shows "interferes w w'"
proof -
  have ext: "interferes w (w\<lparr>w_ext := e\<rparr>)" for e by (simp add: interferes_def)
  from assms show ?thesis
    by (cases rule: doUpdate_cases) (auto intro: ext interferes_trans[OF ext update_endpoints_interferes])
qed

section \<open>What the passes leave alone\<close>

text \<open>A part of the state that involves none of what a pass reads and writes is kept by every move.\<close>

locale pass_guarantee = poll_frame g for g :: "'e world \<Rightarrow> 'b" +
  assumes g_endpoints: "g (w\<lparr>w_endpoints := es\<rparr>) = g w"
    and g_nonPolled: "g (w\<lparr>w_nonPolledEndpoints := ps\<rparr>) = g w"
begin

lemma keeps_add_endpoint: "keeps g (add_endpoint E p c)"
  unfolding add_endpoint_def
  by (cases c) (auto intro!: frame_rules keeps_allocTime simp: g_endpoints g_nonPolled)

lemma move_keeps: "pass_move E m m' \<Longrightarrow> g (s_world m') = g (s_world m)"
  by (induction rule: pass_move.induct) (simp_all add: keepsD[OF keeps_classify] keepsD[OF keeps_add_endpoint])

end

interpretation pass_leaves: pass_guarantee
  "\<lambda>w. (w_jsonPayloads w, w_status w, w_prefixGroups w, w_nextSub w, w_kafkaBrokers w)"
  by unfold_locales auto

interpretation pass_leaves_map: pass_guarantee "\<lambda>w. (w_HSMEndpoints w, w_nextEp w, \<lambda>q. identity (w_ep w q))"
  by unfold_locales (auto simp: identity_def)

section \<open>The invariant\<close>

abbreviation ids :: "'e world \<Rightarrow> nat list \<Rightarrow> string list" where
  "ids w ps \<equiv> map (\<lambda>p. ep_ID (w_ep w p)) ps"

definition pending :: "'e pass \<Rightarrow> nat list" where
  "pending m = (case s_todo m of None \<Rightarrow> [] | Some ps \<Rightarrow> ps)"

definition busy :: "'e pass \<Rightarrow> nat list" where
  "busy m = s_classifying m @ map fst (s_found m)"

text \<open>Every address in use is allocated.\<close>

definition addresses :: "'e pass \<Rightarrow> nat set" where
  "addresses m = set (map ec_Endpoint (w_endpoints (s_world m)) @ w_nonPolledEndpoints (s_world m))
     \<union> set (s_snapshot m) \<union> set (pending m) \<union> set (busy m) \<union> set (s_givenUp m)"

definition pass_ok :: "'e pass \<Rightarrow> bool" where
  "pass_ok m \<longleftrightarrow> hsm_ok (s_world m) \<and> (\<forall>p \<in> addresses m. p < w_nextEp (s_world m))
     \<and> distinct (poll_ids (s_world m)) \<and> distinct (ids (s_world m) (pending m @ busy m))
     \<and> set (ids (s_world m) (busy m)) \<inter> set (poll_ids (s_world m)) = {}
     \<and> (s_todo m = None \<longrightarrow> busy m = [])
     \<and> set (ids (s_world m) (s_snapshot m)) \<subseteq>
         set (ids (s_world m) (pending m @ busy m @ s_givenUp m)) \<union> set (poll_ids (s_world m))"

lemma interferes_poll_ids:
  assumes "interferes w w'" "\<forall>p \<in> set (map ec_Endpoint (w_endpoints w) @ w_nonPolledEndpoints w). p < w_nextEp w"
  shows "poll_ids w' = poll_ids w"
  using assms by (auto simp: interferes_def poll_ids_def)

lemma pass_interferes:
  assumes "pass_ok m" "interferes (s_world m) w'"
  shows "pass_ok (m\<lparr>s_world := w'\<rparr>)" "poll_ids w' = poll_ids (s_world m)"
proof -
  let ?m = "m\<lparr>s_world := w'\<rparr>"
  have adr: "\<forall>p \<in> addresses m. p < w_nextEp (s_world m)" using assms(1) by (simp add: pass_ok_def)
  have same: "pending ?m = pending m" "busy ?m = busy m" by (simp_all add: pending_def busy_def)
  have "addresses ?m = addresses m" using assms(2) same by (simp add: addresses_def interferes_def)
  with adr assms(2) have "\<forall>p \<in> addresses ?m. p < w_nextEp w'" by (auto simp: interferes_def)
  moreover from adr show ids: "poll_ids w' = poll_ids (s_world m)"
    by (intro interferes_poll_ids[OF assms(2)]) (simp add: addresses_def ball_Un)
  moreover have id: "ep_ID (w_ep w' p) = ep_ID (w_ep (s_world m) p)" if "p \<in> addresses m" for p
    using adr that assms(2) by (simp add: interferes_def)
  have "ids w' (pending m @ busy m) = ids (s_world m) (pending m @ busy m)" "ids w' (busy m) = ids (s_world m) (busy m)"
    "ids w' (s_snapshot m) = ids (s_world m) (s_snapshot m)"
    "ids w' (pending m @ busy m @ s_givenUp m) = ids (s_world m) (pending m @ busy m @ s_givenUp m)"
    by (auto simp: addresses_def intro!: id)
  ultimately show "pass_ok ?m" using assms by (simp add: pass_ok_def same interferes_def cong: map_cong)
qed

text \<open>The invariant looks at the endpoints in work only as a multiset.\<close>

lemma pass_ok_busy:
  assumes "pass_ok m" "mset (s_classifying m') + mset (map fst (s_found m')) = mset (busy m)"
    "s_world m' = s_world m" "s_todo m' = s_todo m" "s_snapshot m' = s_snapshot m" "s_givenUp m' = s_givenUp m"
  shows "pass_ok m'"
proof -
  have b: "mset (busy m') = mset (busy m)" using assms(2) by (simp add: busy_def)
  have s: "set (busy m') = set (busy m)" by (rule mset_eq_setD[OF b])
  have e: "busy m' = [] \<longleftrightarrow> busy m = []" using s by (metis set_empty)
  have p: "pending m' = pending m" using assms(4) by (simp add: pending_def)
  have "mset (ids (s_world m) (pending m @ busy m')) = mset (ids (s_world m) (pending m @ busy m))" using b by simp
  from mset_eq_imp_distinct_iff[OF this] have d: "distinct (ids (s_world m) (pending m' @ busy m'))
      \<longleftrightarrow> distinct (ids (s_world m) (pending m @ busy m))" by (simp only: p)
  from assms(1) show ?thesis
    unfolding pass_ok_def addresses_def assms(3-6) d e by (simp add: s p)
qed

text \<open>The snapshot of a new pass has every endpoint of the map once.\<close>

lemma snapshot_ids:
  assumes "hsm_ok w" "mset order = mset (map snd (w_HSMEndpoints w))"
  shows "distinct (ids w order)" "\<forall>p \<in> set order. p < w_nextEp w"
proof -
  have "set order = set (map snd (w_HSMEndpoints w))" by (rule mset_eq_setD[OF assms(2)])
  with assms(1) show "\<forall>p \<in> set order. p < w_nextEp w" by (auto simp: hsm_ok_def list_all_iff)
  have "ids w (map snd (w_HSMEndpoints w)) = map fst (w_HSMEndpoints w)"
    using assms(1) by (auto simp: hsm_ok_def list_all_iff)
  moreover have "mset (ids w order) = mset (ids w (map snd (w_HSMEndpoints w)))"
    using assms(2) by (metis mset_map)
  ultimately have "mset (ids w order) = mset (map fst (w_HSMEndpoints w))" by metis
  from mset_eq_imp_distinct_iff[OF this] assms(1) show "distinct (ids w order)" by (simp add: hsm_ok_def)
qed

text \<open>Adding an endpoint moves its xname from the endpoints in work to the classified ones.\<close>

lemma added_ok:
  assumes "pass_ok m" "s_found m = as @ (p, c) # bs" "add_endpoint E p c (s_world m) = (Ret (), w')"
    and "m' = m\<lparr>s_world := w', s_found := as @ bs, s_givenUp := (if c = GivenUp then s_givenUp m @ [p] else s_givenUp m)\<rparr>"
  shows "pass_ok m' \<and> set (poll_ids (s_world m)) \<subseteq> set (poll_ids w')"
proof -
  let ?w = "s_world m"
  obtain w2 where w2: "add_endpoint E p c ?w = (Ret (), w2)" "w_ep w2 = w_ep ?w" "w_nextEp w2 = w_nextEp ?w"
    "w_HSMEndpoints w2 = w_HSMEndpoints ?w"
    "mset (poll_ids w2) = (if c = GivenUp then mset (poll_ids ?w) else add_mset (ep_ID (w_ep ?w p)) (mset (poll_ids ?w)))"
    "set (map ec_Endpoint (w_endpoints w2) @ w_nonPolledEndpoints w2)
       \<subseteq> insert p (set (map ec_Endpoint (w_endpoints ?w) @ w_nonPolledEndpoints ?w))"
    by (rule add_endpoint_run)
  with assms(3) have w': "w_ep w' = w_ep ?w" "w_nextEp w' = w_nextEp ?w" "w_HSMEndpoints w' = w_HSMEndpoints ?w"
    and more: "mset (poll_ids w') = (if c = GivenUp then mset (poll_ids ?w) else add_mset (ep_ID (w_ep ?w p)) (mset (poll_ids ?w)))"
    and adr: "set (map ec_Endpoint (w_endpoints w') @ w_nonPolledEndpoints w')
       \<subseteq> insert p (set (map ec_Endpoint (w_endpoints ?w) @ w_nonPolledEndpoints ?w))" by simp_all
  have pids: "set (poll_ids w') = (if c = GivenUp then set (poll_ids ?w) else insert (ep_ID (w_ep ?w p)) (set (poll_ids ?w)))"
    using more by (metis (no_types, lifting) set_mset_add_mset_insert set_mset_mset)
  have b: "busy m = s_classifying m @ map fst as @ p # map fst bs" using assms(2) by (simp add: busy_def)
  have new: "ep_ID (w_ep ?w p) \<notin> set (poll_ids ?w)" using assms(1) b by (auto simp: pass_ok_def)
  have "distinct (poll_ids w')"
  proof (cases "c = GivenUp")
    case True
    with more mset_eq_imp_distinct_iff[of "poll_ids w'" "poll_ids ?w"] assms(1) show ?thesis by (simp add: pass_ok_def)
  next
    case False
    with more mset_eq_imp_distinct_iff[of "poll_ids w'" "ep_ID (w_ep ?w p) # poll_ids ?w"] assms(1) new
    show ?thesis by (simp add: pass_ok_def)
  qed
  moreover have "hsm_ok w'" using assms(1) w' by (simp add: pass_ok_def hsm_ok_def)
  moreover have b': "busy m' = s_classifying m @ map fst as @ map fst bs" "pending m' = pending m" "s_snapshot m' = s_snapshot m"
      "s_todo m' = s_todo m" "s_world m' = w'" "s_givenUp m' = (if c = GivenUp then s_givenUp m @ [p] else s_givenUp m)"
    using assms(4) by (simp_all add: busy_def pending_def)
  have "addresses m' \<subseteq> addresses m" using adr b unfolding addresses_def b' by auto
  then have "\<forall>q \<in> addresses m'. q < w_nextEp w'" using assms(1) w'(2) unfolding pass_ok_def by auto
  ultimately have "pass_ok m'" using assms(1) pids new
    unfolding pass_ok_def b' b w'(1) by (auto split: if_splits)
  with pids show ?thesis by auto
qed

lemma pass_move_ok:
  assumes "pass_move E m m'" "pass_ok m"
  shows "pass_ok m' \<and> set (poll_ids (s_world m)) \<subseteq> set (poll_ids (s_world m'))"
  using assms
proof (induction rule: pass_move.induct)
  case (begin_pass m order)
  then have "hsm_ok (s_world m)" "busy m = []" by (simp_all add: pass_ok_def)
  with snapshot_ids[OF _ begin_pass(2)] begin_pass(3) show ?case
    by (auto simp: pass_ok_def addresses_def pending_def busy_def)
next
  case (skip_seen m p ps)
  then show ?case by (auto simp: pass_ok_def addresses_def pending_def busy_def is_seen_iff)
next
  case (start_goroutine m p ps)
  then show ?case by (auto simp: pass_ok_def addresses_def pending_def busy_def is_seen_iff)
next
  case (classified m as p bs c w')
  from pass_interferes[OF classified(3) classify_interferes[OF classified(2)]]
  have "pass_ok (m\<lparr>s_world := w'\<rparr>)" "poll_ids w' = poll_ids (s_world m)" .
  with classified(1) show ?case by (auto intro: pass_ok_busy[of "m\<lparr>s_world := w'\<rparr>"] simp: busy_def)
next
  case (classify_panics m as p bs x w')
  from pass_interferes[OF classify_panics(3) classify_interferes[OF classify_panics(2)]]
  have "pass_ok (m\<lparr>s_world := w'\<rparr>)" "poll_ids w' = poll_ids (s_world m)" .
  then show ?case by (auto intro: pass_ok_busy[of "m\<lparr>s_world := w'\<rparr>"] simp: busy_def)
next
  case (added m as p c bs w')
  from added_ok[OF added(3,1,2) refl] show ?case by simp
next
  case (end_pass m)
  then show ?case by (auto simp: pass_ok_def addresses_def pending_def busy_def)
qed

lemma pass_act_ok:
  assumes "pass_act E m m'" "pass_ok m"
  shows "pass_ok m' \<and> set (poll_ids (s_world m)) \<subseteq> set (poll_ids (s_world m'))"
  using assms
proof (cases rule: pass_act.cases)
  case own
  from pass_move_ok[OF this assms(2)] show ?thesis .
next
  case (rest_of_program w')
  with pass_interferes[OF assms(2) rest_of_program(2)] show ?thesis by simp
qed

lemma pass_reaches_ok:
  "pass_reaches E m m' \<Longrightarrow> pass_ok m \<Longrightarrow> pass_ok m' \<and> set (poll_ids (s_world m)) \<subseteq> set (poll_ids (s_world m'))"
proof (induction rule: rtranclp_induct)
  case (step y z)
  then have y: "pass_ok y" "set (poll_ids (s_world m)) \<subseteq> set (poll_ids (s_world y))" by blast+
  from step(2) have "pass_act E y z" by (simp add: pass_step_def)
  from pass_act_ok[OF this y(1)] y(2) show ?case by blast
qed simp

text \<open>A state the monitor can start in: the map well formed, and the classified endpoints allocated and distinct.\<close>

definition monitor_ready :: "'e world \<Rightarrow> bool" where
  "monitor_ready w \<longleftrightarrow> hsm_ok w \<and> poll_ok w
     \<and> list_all (\<lambda>p. p < w_nextEp w) (map ec_Endpoint (w_endpoints w) @ w_nonPolledEndpoints w)"

lemma pass0_ok: "monitor_ready w \<Longrightarrow> pass_ok (pass0 w)"
  by (auto simp: monitor_ready_def pass_ok_def pass0_def addresses_def pending_def busy_def poll_ok_def list_all_iff)

section \<open>The sequential run\<close>

definition between :: "'e pass \<Rightarrow> bool" where
  "between m \<longleftrightarrow> s_classifying m = [] \<and> s_found m = [] \<and> s_panicked m = None"

text \<open>One endpoint after the other, each classified and added at once.\<close>

lemma monitor_endpoint_steps:
  assumes "between m" "s_todo m = Some (p # ps)" "monitor_endpoint E p (s_world m) = (Ret (), w')"
  shows "\<exists>m'. pass_reaches E m m' \<and> between m' \<and> s_todo m' = Some ps \<and> s_snapshot m' = s_snapshot m \<and> s_world m' = w'"
proof (cases "is_seen p (s_world m)")
  case True
  let ?m = "m\<lparr>s_todo := Some ps\<rparr>"
  have "pass_step E m ?m" using assms True by (simp add: pass_step_def between_def pass_acts)
  moreover have "s_world m = w'" using assms(3) True by (simp add: monitor_endpoint_def)
  ultimately show ?thesis using assms(1) by (intro exI[of _ ?m]) (auto simp: between_def)
next
  case False
  with assms(3) obtain c w1 where c: "classify E p (s_world m) = (Ret c, w1)" and a: "add_endpoint E p c w1 = (Ret (), w')"
    by (auto simp: monitor_endpoint_def bindIO_eq_Ret)
  let ?m1 = "m\<lparr>s_todo := Some ps, s_classifying := [p]\<rparr>"
  let ?m2 = "m\<lparr>s_todo := Some ps, s_world := w1, s_classifying := [], s_found := [(p, c)]\<rparr>"
  let ?m3 = "?m2\<lparr>s_world := w', s_found := [], s_givenUp := (if c = GivenUp then s_givenUp m @ [p] else s_givenUp m)\<rparr>"
  have "pass_act E m ?m1" using pass_act.own[OF pass_move.start_goroutine[OF assms(2) False]] assms(1) by (simp add: between_def)
  moreover have "pass_act E ?m1 ?m2"
    using pass_act.own[OF pass_move.classified[of ?m1 "[]" p "[]" E c w1]] c assms(1) by (simp add: between_def)
  moreover have "pass_act E ?m2 ?m3"
    using pass_act.own[OF pass_move.added[of ?m2 "[]" p c "[]" E w']] a assms(1)
    by (cases "c = GivenUp") (simp_all add: between_def)
  ultimately have "pass_step E m ?m1" "pass_step E ?m1 ?m2" "pass_step E ?m2 ?m3"
    using assms(1) by (simp_all add: pass_step_def between_def)
  then have "pass_reaches E m ?m3" by (meson converse_rtranclp_into_rtranclp rtranclp.rtrancl_refl)
  then show ?thesis using assms(1) by (intro exI[of _ ?m3]) (auto simp: between_def)
qed

lemma monitor_endpoints_steps:
  "between m \<Longrightarrow> s_todo m = Some ps \<Longrightarrow> forIO (monitor_endpoint E) ps (s_world m) = (Ret (), w') \<Longrightarrow>
     \<exists>m'. pass_reaches E m m' \<and> between m' \<and> s_todo m' = Some [] \<and> s_snapshot m' = s_snapshot m \<and> s_world m' = w'"
proof (induction ps arbitrary: m)
  case (Cons p ps)
  then obtain w1 where one: "monitor_endpoint E p (s_world m) = (Ret (), w1)"
    and rest: "forIO (monitor_endpoint E) ps w1 = (Ret (), w')" by (auto simp: thenIO_eq_Ret)
  from monitor_endpoint_steps[OF Cons.prems(1,2) one] obtain m1 where
    m1: "pass_reaches E m m1" "between m1" "s_todo m1 = Some ps" "s_snapshot m1 = s_snapshot m" "s_world m1 = w1" by blast
  from Cons.IH[OF m1(2,3)] rest m1(1,4,5) show ?case by (metis rtranclp_trans)
qed auto

lemma forIO_map_of:
  "distinct (map fst al) \<Longrightarrow> set ks \<subseteq> fst ` set al \<Longrightarrow>
     forIO (\<lambda>i. case map_of al i of None \<Rightarrow> return () | Some p \<Rightarrow> f p) ks = forIO f (map (\<lambda>k. the (map_of al k)) ks)"
proof (induction ks)
  case (Cons k ks)
  from Cons.prems(2) have "map_of al k \<noteq> None" by (simp add: map_of_eq_None_iff)
  with Cons show ?case by auto
qed simp

lemma sequential_run:
  assumes "hsm_ok w" "mset (fst (env_range E (map fst (w_HSMEndpoints w)) (w_ext w))) = mset (map fst (w_HSMEndpoints w))"
    and "monitorPollingEndpoints E w = (Ret (), w')"
  shows "\<exists>m order. pass_reaches E (pass0 w) m \<and> s_todo m = Some [] \<and> between m \<and> s_world m = w'
     \<and> s_snapshot m = order \<and> mset order = mset (map snd (w_HSMEndpoints w))"
proof -
  let ?H = "w_HSMEndpoints w"
  define keys where "keys = fst (env_range E (map fst ?H) (w_ext w))"
  define w1 where "w1 = w\<lparr>w_ext := snd (env_range E (map fst ?H) (w_ext w))\<rparr>"
  define order where "order = map (\<lambda>k. the (map_of ?H k)) keys"
  have keys: "mset keys = mset (map fst ?H)" using assms(2) by (simp add: keys_def)
  have "set keys = fst ` set ?H" using mset_eq_setD[OF keys] by simp
  moreover have "distinct (map fst ?H)" using assms(1) by (simp add: hsm_ok_def)
  ultimately have run: "forIO (monitor_endpoint E) order w1 = (Ret (), w')"
    using assms(3) forIO_map_of[of ?H keys "monitor_endpoint E"]
    by (simp add: monitorPollingEndpoints_def keys_def w1_def order_def)
  have "mset order = mset (map (\<lambda>k. the (map_of ?H k)) (map fst ?H))" unfolding order_def using keys by (metis mset_map)
  also have "map (\<lambda>k. the (map_of ?H k)) (map fst ?H) = map snd ?H"
    using \<open>distinct (map fst ?H)\<close> by (auto simp: map_of_is_SomeI)
  finally have order: "mset order = mset (map snd (w_HSMEndpoints w1))" by (simp add: w1_def)
  let ?m1 = "(pass0 w)\<lparr>s_world := w1\<rparr>" and ?m2 = "(pass0 w)\<lparr>s_world := w1, s_snapshot := order, s_todo := Some order\<rparr>"
  have "interferes w w1" by (simp add: interferes_def w1_def)
  then have "pass_step E (pass0 w) ?m1" by (simp add: pass_step_def pass0_def pass_act.rest_of_program[of "pass0 w", unfolded pass0_def, simplified])
  moreover have "pass_step E ?m1 ?m2"
    using pass_act.own[OF pass_move.begin_pass[of ?m1 order E]] order by (simp add: pass_step_def pass0_def)
  moreover obtain m where m: "pass_reaches E ?m2 m" "between m" "s_todo m = Some []" "s_snapshot m = order" "s_world m = w'"
    using monitor_endpoints_steps[of ?m2 order E w'] run by (auto simp: between_def pass0_def)
  ultimately have "pass_reaches E (pass0 w) m" by (meson converse_rtranclp_into_rtranclp)
  with m order show ?thesis by (intro exI[of _ m]) (simp add: w1_def)
qed

section \<open>Properties\<close>

text \<open>
  C11: however the goroutines of a pass interleave with each other, with the loop and with the rest
  of the program, every endpoint is classified at most once. In every reachable state the xnames of the
  polled and ignored endpoints are pairwise distinct, none that was classified at the start is
  forgotten, and no two goroutines work on the same xname or on one that is already classified.
\<close>

theorem pass_classifies_once:
  assumes "monitor_ready w" "pass_reaches E (pass0 w) m"
  shows "distinct (poll_ids (s_world m)) \<and> set (poll_ids w) \<subseteq> set (poll_ids (s_world m))
     \<and> distinct (ids (s_world m) (busy m)) \<and> set (ids (s_world m) (busy m)) \<inter> set (poll_ids (s_world m)) = {}"
proof -
  from pass_reaches_ok[OF assms(2) pass0_ok[OF assms(1)]]
  have "pass_ok m" "set (poll_ids w) \<subseteq> set (poll_ids (s_world m))" by (simp_all add: pass0_def)
  then show ?thesis by (simp add: pass_ok_def)
qed

text \<open>Two endpoints, one of them already ignored, visited one after the other.\<close>

lemma two_ready: "monitor_ready two_endpoints" "hsm_ok two_endpoints"
  "mset (fst (env_range hpe_env (map fst (w_HSMEndpoints two_endpoints)) (w_ext two_endpoints)))
     = mset (map fst (w_HSMEndpoints two_endpoints))"
  by (simp_all add: monitor_ready_def hsm_ok_def poll_ok_def poll_ids_def two_endpoints_def world0_def hpe_env_def env0_def)

lemma two_run: "monitorPollingEndpoints hpe_env two_endpoints = (Ret (), snd (monitorPollingEndpoints hpe_env two_endpoints))"
  using two_endpoints_pass(1) by (simp only: prod_eq_iff fst_conv snd_conv simp_thms)

theorem pass_classifies_once_witness:
  "\<exists>m. pass_reaches hpe_env (pass0 two_endpoints) m \<and> poll_ids (s_world m) = [''x0c0s2b0'', ''x0c0s1b0'']
     \<and> distinct (poll_ids (s_world m))"
proof -
  obtain m where m: "pass_reaches hpe_env (pass0 two_endpoints) m"
    "s_world m = snd (monitorPollingEndpoints hpe_env two_endpoints)"
    using sequential_run[OF two_ready(2,3) two_run] by blast
  with pass_classifies_once[OF two_ready(1) m(1)] two_endpoints_pass(2) show ?thesis by auto
qed

text \<open>
  C12: a pass misses no endpoint. When the loop has visited all endpoints of its snapshot and every
  goroutine has finished, each endpoint of the snapshot is polled, ignored, or was given up in this
  pass because an answer did not decode.
\<close>

theorem pass_complete:
  assumes "monitor_ready w" "pass_reaches E (pass0 w) m" "s_todo m = Some []" "s_classifying m = []" "s_found m = []"
    and "p \<in> set (s_snapshot m)"
  shows "ep_ID (w_ep (s_world m) p) \<in> set (poll_ids (s_world m)) \<union> set (ids (s_world m) (s_givenUp m))"
proof -
  from pass_reaches_ok[OF assms(2) pass0_ok[OF assms(1)]] have "pass_ok m" by blast
  then have "set (ids (s_world m) (s_snapshot m)) \<subseteq>
      set (ids (s_world m) (pending m @ busy m @ s_givenUp m)) \<union> set (poll_ids (s_world m))" by (simp add: pass_ok_def)
  moreover have "pending m = []" "busy m = []" using assms(3-5) by (simp_all add: pending_def busy_def)
  ultimately show ?thesis using assms(6) by auto
qed

theorem pass_complete_witness:
  "\<exists>m. pass_reaches hpe_env (pass0 two_endpoints) m \<and> set (s_snapshot m) = {0, 1}
     \<and> ep_ID (w_ep (s_world m) 1) \<in> set (poll_ids (s_world m)) \<union> set (ids (s_world m) (s_givenUp m))"
proof -
  obtain m where m: "pass_reaches hpe_env (pass0 two_endpoints) m" "s_todo m = Some []" "between m"
    "mset (s_snapshot m) = mset (map snd (w_HSMEndpoints two_endpoints))"
    using sequential_run[OF two_ready(2,3) two_run] by blast
  from mset_eq_setD[OF m(4)] have "set (s_snapshot m) = {0, 1}" by (simp add: two_endpoints_def)
  with pass_complete[OF two_ready(1) m(1,2), of 1] m(1,3) show ?thesis by (auto simp: between_def)
qed

text \<open>
  The sequential pass of \<^verbatim>\<open>monitorPollingEndpoints\<close> is one of the runs of the goroutines. When the
  run-time system visits every key of the map once, a pass that returns leads to a state that the
  step relation reaches too, with all goroutines finished; so what holds for every interleaving
  holds for the sequential run.
\<close>

theorem sequential_pass_is_run:
  assumes "hsm_ok w" "mset (fst (env_range E (map fst (w_HSMEndpoints w)) (w_ext w))) = mset (map fst (w_HSMEndpoints w))"
    and "monitorPollingEndpoints E w = (Ret (), w')"
  shows "\<exists>m. pass_reaches E (pass0 w) m \<and> s_todo m = None \<and> busy m = [] \<and> s_panicked m = None \<and> s_world m = w'"
proof -
  obtain m where m: "pass_reaches E (pass0 w) m" "s_todo m = Some []" "between m" "s_world m = w'"
    using sequential_run[OF assms] by blast
  have "pass_step E m (m\<lparr>s_todo := None\<rparr>)"
    using m(2,3) by (simp add: pass_step_def between_def pass_acts)
  with m(1) have "pass_reaches E (pass0 w) (m\<lparr>s_todo := None\<rparr>)" by (rule rtranclp.rtrancl_into_rtrancl)
  with m(3,4) show ?thesis by (intro exI[of _ "m\<lparr>s_todo := None\<rparr>"]) (simp add: between_def busy_def)
qed

theorem sequential_pass_is_run_witness:
  "\<exists>m. pass_reaches hpe_env (pass0 two_endpoints) m \<and> s_todo m = None \<and> poll_ids (s_world m) = [''x0c0s2b0'', ''x0c0s1b0'']"
  using sequential_pass_is_run[OF two_ready(2,3) two_run] two_endpoints_pass(2) by metis

end
