(* ===== verification/Pipeline.thy ===== *)
theory Pipeline
  imports Polling Rest
begin

text \<open>
  The two ways of a reading to Kafka as wholes. A polled answer goes from \<^verbatim>\<open>collectData\<close> through the channel
  of payloads to \<^verbatim>\<open>processData\<close> and \<^verbatim>\<open>writeToKafka\<close> (\<^verbatim>\<open>cmd/hmcollector/polling.go\<close>, \<^verbatim>\<open>kafka.go\<close>); a pushed event
  goes through \<^verbatim>\<open>parseRequest\<close> (\<^verbatim>\<open>rest.go\<close>). Both are compared with the list of messages that a
  request with the same events publishes.
\<close>

section \<open>Publishing the queue\<close>

definition payload_publications :: "KafkaBroker list \<Rightarrow> jsonPayload \<Rightarrow> publication list" where
  "payload_publications brokers p =
     map (\<lambda>b. (kb_BrokerAddress b, jp_topic p, Some (jp_context p @ ''.'' @ jp_messageId p), jp_payload p))
       (filter (\<lambda>b. jp_topic p \<in> set (kb_TopicsToPublish b)) brokers)"

interpretation frame_publishing: http_frame "\<lambda>w. (w_kafkaBrokers w, w_jsonPayloads w)"
  by unfold_locales auto

context message_log
begin

lemma processData_log:
  assumes "w_jsonPayloads w = p # q" "brokers_ready (w_kafkaBrokers w)"
  obtains w' where "processData E w = (Ret (), w')" "w_jsonPayloads w' = q" "w_kafkaBrokers w' = w_kafkaBrokers w"
    "map publication_of (log (w_ext w')) = map publication_of (log (w_ext w)) @ payload_publications (w_kafkaBrokers w) p"
proof -
  let ?send = "writeToKafka E (jp_topic p) (jp_payload p) (Some (jp_context p @ ''.'' @ jp_messageId p))"
  let ?w = "w\<lparr>w_jsonPayloads := q\<rparr>"
  have run: "processData E w = ?send ?w" using assms(1) by (simp add: processData_def thenIO_def)
  have ready: "brokers_ready (w_kafkaBrokers ?w)" using assms(2) by simp
  obtain now where sent: "fst (?send ?w) = Ret ()" and log: "log (w_ext (snd (?send ?w))) = log (w_ext ?w) @
        map (\<lambda>b. (kb_BrokerAddress b, \<lparr> km_Topic = jp_topic p, km_Key = Some (jp_context p @ ''.'' @ jp_messageId p),
              km_Value = jp_payload p, km_Timestamp = now \<rparr>))
          (filter (\<lambda>b. jp_topic p \<in> set (kb_TopicsToPublish b)) (w_kafkaBrokers ?w))"
    using writeToKafka_log[OF ready] by blast
  have "keeps (\<lambda>w. (w_kafkaBrokers w, w_jsonPayloads w)) ?send" by (rule frame_publishing.keeps_writeToKafka)
  from keepsD[OF this prod.collapse[symmetric]] have "w_jsonPayloads (snd (?send ?w)) = q"
    "w_kafkaBrokers (snd (?send ?w)) = w_kafkaBrokers w" by simp_all
  with sent log show thesis
    by (intro that[of "snd (?send ?w)"])
       (simp_all add: run prod_eq_iff payload_publications_def publication_of_def comp_def)
qed

text \<open>The workers that publish take the payloads one after the other.\<close>

lemma publish_queue:
  "w_jsonPayloads w = ps @ q \<Longrightarrow> brokers_ready (w_kafkaBrokers w) \<Longrightarrow>
     \<exists>w'. forIO (\<lambda>_. processData E) ps w = (Ret (), w') \<and> w_jsonPayloads w' = q \<and> w_kafkaBrokers w' = w_kafkaBrokers w
       \<and> map publication_of (log (w_ext w')) = map publication_of (log (w_ext w)) @
           concat (map (payload_publications (w_kafkaBrokers w)) ps)"
proof (induction ps arbitrary: w)
  case (Cons p ps)
  obtain w1 where w1: "processData E w = (Ret (), w1)" "w_jsonPayloads w1 = ps @ q" "w_kafkaBrokers w1 = w_kafkaBrokers w"
    "map publication_of (log (w_ext w1)) = map publication_of (log (w_ext w)) @ payload_publications (w_kafkaBrokers w) p"
    using Cons.prems by (auto elim: processData_log)
  from Cons.IH[OF w1(2)] w1(3) Cons.prems(2) obtain w' where "forIO (\<lambda>_. processData E) ps w1 = (Ret (), w')"
    "w_jsonPayloads w' = q" "w_kafkaBrokers w' = w_kafkaBrokers w"
    "map publication_of (log (w_ext w')) = map publication_of (log (w_ext w1)) @
       concat (map (payload_publications (w_kafkaBrokers w)) ps)" by auto
  with w1 show ?case by (auto simp: thenIO_def bindIO_Ret)
qed simp

end

section \<open>Polled and pushed readings\<close>

lemma forIO_map: "forIO f (map g xs) = forIO (\<lambda>x. f (g x)) xs"
  by (induction xs) simp_all

text \<open>A reading from a BMC whose physical context is missing is marked as such only when it is pushed.\<close>

definition contexts_given :: "Event \<Rightarrow> bool" where
  "contexts_given ev \<longleftrightarrow> mark_contexts ev = ev"

lemma payload_publications_event:
  assumes "polling_topic (ev_MessageId ev) = Some t" "rest_topic (ev_MessageId ev) = Some t" "contexts_given ev"
  shows "payload_publications brokers (payload_of context ev) = event_publications brokers (events_zero\<lparr>evs_Context := context\<rparr>) ev"
  using assms by (simp add: payload_publications_def payload_of_def event_publications_def contexts_given_def event_payload_def)

lemma polling_topic_rest_topic:
  assumes "polling_topic i = Some t"
  shows "rest_topic i = Some t"
proof -
  from assms have "i \<in> set (ResourceMessageID # telemetry_ids)"
    by (auto simp: polling_topic_def telemetry_ids_def split: if_splits)
  moreover have "list_all (\<lambda>i. polling_topic i = rest_topic i) (ResourceMessageID # telemetry_ids)"
    by code_simp
  ultimately have "polling_topic i = rest_topic i" unfolding list_all_iff by blast
  with assms show ?thesis by simp
qed

lemma event_publications_events:
  fixes es :: Events
  shows "event_publications brokers (es\<lparr>evs_Events := evs\<rparr>) ev = event_publications brokers es ev"
  by (simp add: event_publications_def split: option.split)

lemma collect_url_queue:
  assumes "doHTTPAction E (ec_Endpoint k) ''GET'' u None w = (Ret (body, code, None), w1)"
    and "contacted E k w1 = (Ret (), w2)"
    and "GetEventsForPayload E (ec_RiverCollector k) body (w_ep w2 (ec_Endpoint k)) t w2 = (Ret evs, w3)"
  shows "w_jsonPayloads w3 = w_jsonPayloads w" "w_kafkaBrokers w3 = w_kafkaBrokers w"
proof -
  from keepsD[OF frame_publishing.keeps_http assms(1)]
  have w1: "w_jsonPayloads w1 = w_jsonPayloads w" "w_kafkaBrokers w1 = w_kafkaBrokers w" by simp_all
  have w2: "w_jsonPayloads w2 = w_jsonPayloads w1" "w_kafkaBrokers w2 = w_kafkaBrokers w1"
    using assms(2) by (auto simp: contacted_def)
  from assms(3) obtain e s where "w3 = w2\<lparr>w_ext := e, w_sensors := s\<rparr>"
    unfolding GetEventsForPayload_events_for using dispatch.events_for_effects by blast
  with w1 w2 show "w_jsonPayloads w3 = w_jsonPayloads w" "w_kafkaBrokers w3 = w_kafkaBrokers w" by simp_all
qed


text \<open>An Intel server asked for its temperatures, and a broker for them.\<close>

definition temperature_world :: "((string \<times> kafka_message) list \<times> unit) world" where
  "temperature_world = (world0 ([], ()))\<lparr>w_ep := (\<lambda>q. ep_zero\<lparr>ep_ID := ''x3000c0s1b0'', ep_FQDN := ''bmc''\<rparr>), w_nextEp := 1,
     w_kafkaBrokers := [\<lparr> kb_BrokerAddress = ''sma'', kb_TopicsToPublish = [''cray-telemetry-temperature''], kb_KafkaProducer = True \<rparr>]\<rparr>"

lemma temperature_answer:
  "fst (doHTTPAction (logging empty_env) 0 ''GET'' ''https://bmc/t'' None temperature_world) = Ret (''{}'', 200, None)"
  by code_simp

lemma temperature_events:
  "(let w2 = snd (contacted (logging empty_env) intel_endpoint (snd (doHTTPAction (logging empty_env) 0 ''GET'' ''https://bmc/t'' None temperature_world)))
    in ep_ID (w_ep w2 0) = ''x3000c0s1b0'' \<and> (case fst (GetEventsForPayload (logging empty_env) IntelRiverCollector ''{}'' (w_ep w2 0) TelemetryTypeThermal w2)
       of Ret evs \<Rightarrow> map ev_MessageId evs = [TemperatureMessageID] \<and> list_all (\<lambda>ev. case ev_Oem ev of None \<Rightarrow> True
            | Some oem \<Rightarrow> (case ss_Sensors oem of None \<Rightarrow> True | Some ps \<Rightarrow> list_all (\<lambda>p. pl_PhysicalContext p \<noteq> []) ps)) evs
       | _ \<Rightarrow> False))"
  by code_simp

lemma contexts_givenI:
  assumes "case ev_Oem ev of None \<Rightarrow> True
    | Some oem \<Rightarrow> (case ss_Sensors oem of None \<Rightarrow> True | Some ps \<Rightarrow> list_all (\<lambda>p. pl_PhysicalContext p \<noteq> []) ps)"
  shows "contexts_given ev"
proof -
  have "map (\<lambda>p. if pl_PhysicalContext p = [] then p\<lparr>pl_PhysicalContext := ''INVALID''\<rparr> else p) ps = ps"
    if "list_all (\<lambda>p. pl_PhysicalContext p \<noteq> []) ps" for ps :: "CrayJSONPayload list"
    using that by (induction ps) simp_all
  with assms show ?thesis
    by (cases ev) (auto simp: contexts_given_def mark_contexts_def split: option.splits)
qed


end
