(* ===== verification/Program.thy ===== *)
theory Program
  imports Startup
begin

text \<open>
  \<^verbatim>\<open>main\<close> as a whole (\<^verbatim>\<open>cmd/hmcollector/hmcollector.go\<close>): what it sets up before the goroutines start, the
  HTTP server with its routes (\<^verbatim>\<open>doRest\<close> in \<^verbatim>\<open>rest.go\<close>), the reports of the producers (\<^verbatim>\<open>handleKafkaEvents\<close> in
  \<^verbatim>\<open>kafka.go\<close>), and what happens to the messages at the end.
\<close>

section \<open>The set-up\<close>

definition register_ca :: "'e boot \<Rightarrow> ('e world, unit) io" where
  "register_ca B =
     bindIO (getsIO w_caURI) (\<lambda>caURI.
     if caURI \<noteq> [] then bindIO (extIO (bt_CAUpdateRegister B caURI)) (\<lambda>registered. return ()) else return ())"

definition service_name :: "string option \<Rightarrow> string" where
  "service_name name = (case name of None \<Rightarrow> ''HMCOLLECTOR'' | Some n \<Rightarrow> n)"

text \<open>\<open>None\<close> is the exit while connecting to Kafka; otherwise whether the SMA broker is to be watched.\<close>

definition main_setup :: "'e env \<Rightarrow> 'e boot \<Rightarrow> ('e world, bool option) io" where
  "main_setup E B =
     bindIO (extIO (bt_ServiceName B)) (\<lambda>name.
     bindIO (extIO (bt_InitInstance B (service_name name))) (\<lambda>_.
     bindIO (extIO (bt_CreateClient B [] 10)) (\<lambda>smdClient.
     if \<not> smdClient then panicIO (ExplicitPanic ''Can't create insecure cert HTTP client!'')
     else
       thenIO (setup_client B)
       (thenIO (register_ca B)
       (thenIO (if VaultEnabled E then setupVault_fuel (bt_fuel B) B else return ())
       (setupKafka B))))))"

text \<open>Before the process ends every producer gets the time to send what it has.\<close>

definition flush_brokers :: "'e boot \<Rightarrow> ('e world, unit) io" where
  "flush_brokers B =
     bindIO (getsIO w_kafkaBrokers)
       (forIO (\<lambda>thisBroker.
          if kb_KafkaProducer thisBroker
          then bindIO (extIO (bt_Flush B (kb_BrokerAddress thisBroker))) (\<lambda>abandonedMessages. return ())
          else panicIO NilDereference))"

section \<open>Reports of the producers\<close>

text \<open>A report is about a message, with the error it failed with if any, or something else.\<close>

datatype kafka_event = Message "string option" | OtherEvent

text \<open>The line that is logged for a report: its level, its text and the error it shows.\<close>

definition handleKafkaEvent :: "bool \<Rightarrow> kafka_event \<Rightarrow> (Level \<times> string \<times> string option) option" where
  "handleKafkaEvent shouldLogErrors event =
     (case event of
        Message (Some err) \<Rightarrow>
          if shouldLogErrors then Some (ErrorLevel, ''Failed to produce message!'', Some err)
          else Some (ErrorLevel, ''Failed to produce message!'', None)
      | Message None \<Rightarrow> Some (DebugLevel, ''Produced message.'', None)
      | OtherEvent \<Rightarrow> None)"

section \<open>Routes\<close>

text \<open>
  \<^verbatim>\<open>http.ServeMux\<close> with the patterns of the collector: the path is cleaned, a path that changes is
  answered with a redirection, and a pattern without a trailing slash matches its one segment after
  unescaping.
\<close>

datatype route = Readiness | Liveness | Health | Events_route

datatype served = Moved string | Served reply

definition cleanPath :: "string \<Rightarrow> string" where
  "cleanPath p =
     (if p = [] then ''/''
      else let p' = (if hd p \<noteq> CHR ''/'' then CHR ''/'' # p else p);
               np = pathClean p'
           in if last p' = CHR ''/'' \<and> np \<noteq> ''/'' then np @ ''/'' else np)"

definition pathUnescape :: "string \<Rightarrow> string" where
  "pathUnescape s = (case unescape s EncPath of None \<Rightarrow> s | Some t \<Rightarrow> t)"

definition match_route :: "bool \<Rightarrow> string \<Rightarrow> route option" where
  "match_route rest path =
     (let segment = tl path;
          only = (CHR ''/'' \<notin> set segment);
          name = pathUnescape segment
      in if path = [] then None
         else if only \<and> name = ''readiness'' then Some Readiness
         else if only \<and> name = ''liveness'' then Some Liveness
         else if only \<and> name = ''health'' then Some Health
         else if rest then Some Events_route
         else None)"

text \<open>One request (\<^verbatim>\<open>*\<close> is the path of a request about the server itself); \<open>urlPath\<close> is its decoded path and \<open>escapedPath\<close> the path as it was sent.\<close>

definition serve :: "'e env \<Rightarrow> string \<Rightarrow> string \<Rightarrow> string \<Rightarrow> string option \<Rightarrow> ('e world, served) io" where
  "serve E meth escapedPath urlPath body =
     (let path = (if meth = ''CONNECT'' then escapedPath else cleanPath escapedPath)
      in if escapedPath = ''*'' then return (Served (if meth = ''OPTIONS'' then 200 else 400, []))
         else if path \<noteq> escapedPath then return (Moved path)
         else bindIO
           (case match_route (restEnabled E) path of
              Some Readiness \<Rightarrow> doReadiness
            | Some Liveness \<Rightarrow> doLiveness
            | Some Health \<Rightarrow> doHealth E meth
            | Some Events_route \<Rightarrow> parseRequest E urlPath body
            | None \<Rightarrow> return (404, ''404 page not found'' @ [CHR 0x0A])) (\<lambda>r. return (Served r)))"

section \<open>Lemmas on the set-up\<close>

lemma keeps_connect_brokers:
  assumes "\<And>w e. g (w\<lparr>w_ext := e\<rparr>) = g w" "\<And>w b. g (w\<lparr>w_kafkaBrokers := b\<rparr>) = g w" "\<And>w b. g (w\<lparr>w_smaBroker := b\<rparr>) = g w"
  shows "keeps g (connect_brokers B i bs)"
proof (induction B i bs rule: connect_brokers.induct)
  case (3 B idx b bs)
  then show ?case unfolding connect_brokers.simps set_producer_def
    by (intro frame_rules keeps_connect assms) auto
qed simp_all

lemma keeps_setupKafka:
  assumes "\<And>w e. g (w\<lparr>w_ext := e\<rparr>) = g w" "\<And>w b. g (w\<lparr>w_kafkaBrokers := b\<rparr>) = g w" "\<And>w b. g (w\<lparr>w_smaBroker := b\<rparr>) = g w"
  shows "keeps g (setupKafka B)"
  unfolding setupKafka_def by (intro frame_rules keeps_connect_brokers assms)

lemma setupVault_effects:
  "setupVault_fuel n B w = (r, w') \<Longrightarrow> w_rfClient w' = w_rfClient w \<and> w_caURI w' = w_caURI w
     \<and> ((\<forall>e. fst (bt_Running B e)) \<and> r = Ret () \<longrightarrow> w_compCredStore w')"
proof (induction n arbitrary: w)
  case (Suc n)
  let ?w1 = "w\<lparr>w_ext := snd (bt_NewVaultAdapter B (snd (bt_Running B (w_ext w))))\<rparr>"
  from Suc.prems consider "\<not> fst (bt_Running B (w_ext w))" "w' = w\<lparr>w_ext := snd (bt_Running B (w_ext w))\<rparr>"
    | "w' = ?w1\<lparr>w_compCredStore := True\<rparr>" | "setupVault_fuel n B ?w1 = (r, w')"
    by (auto split: if_splits)
  then show ?case using Suc.IH[of ?w1] by cases auto
qed auto

lemma flush_returns: "brokers_ready (w_kafkaBrokers v) \<Longrightarrow> fst (flush_brokers B v) = Ret ()"
proof -
  have "list_all kb_KafkaProducer bs \<Longrightarrow> fst (forIO (\<lambda>b. if kb_KafkaProducer b
      then bindIO (extIO (bt_Flush B (kb_BrokerAddress b))) (\<lambda>abandonedMessages. return ())
      else panicIO NilDereference) bs w) = Ret ()" for bs and w :: "'a world"
    by (induction bs arbitrary: w) (simp_all add: thenIO_def bindIO_def)
  then show "brokers_ready (w_kafkaBrokers v) \<Longrightarrow> ?thesis" by (simp add: flush_brokers_def brokers_ready_def)
qed

text \<open>The phases of a set-up that returns and goes on.\<close>

lemma main_setup_phases:
  assumes "main_setup E B w = (Ret (Some watch), w')"
  obtains u w1 w2 w3 w4 where "setup_client B w1 = (Ret (), w2)" "register_ca B w2 = (Ret u, w3)"
    "(if VaultEnabled E then setupVault_fuel (bt_fuel B) B else return ()) w3 = (Ret (), w4)"
    "setupKafka B w4 = (Ret (Some watch), w')"
  using assms by (auto simp: main_setup_def thenIO_eq_Ret bindIO_eq_Ret split: if_splits)

lemma main_setup_ready:
  assumes "main_setup E B w = (Ret (Some watch), w')"
  shows "brokers_ready (w_kafkaBrokers w')" "w_kafkaBrokers w' \<noteq> []"
  using assms by (auto elim!: main_setup_phases dest!: setupKafka_ready)

section \<open>Lemmas on the routes\<close>

lemma probe_paths: "cleanPath ''/readiness'' = ''/readiness''" "cleanPath ''/liveness'' = ''/liveness''" "cleanPath ''/health'' = ''/health''"
  by code_simp+

lemma probe_names: "pathUnescape ''readiness'' = ''readiness''" "pathUnescape ''liveness'' = ''liveness''" "pathUnescape ''health'' = ''health''"
  by code_simp+

lemma probe_routes [simp]: "match_route rest ''/readiness'' = Some Readiness" "match_route rest ''/liveness'' = Some Liveness"
  "match_route rest ''/health'' = Some Health"
  by (simp_all add: match_route_def probe_names)

text \<open>A request that is neither redirected nor about the server itself goes to its route.\<close>

lemma serve_route:
  assumes "escapedPath \<noteq> ''*''" "meth = ''CONNECT'' \<or> cleanPath escapedPath = escapedPath"
  shows "serve E meth escapedPath p b = bindIO
           (case match_route (restEnabled E) escapedPath of
              Some Readiness \<Rightarrow> doReadiness
            | Some Liveness \<Rightarrow> doLiveness
            | Some Health \<Rightarrow> doHealth E meth
            | Some Events_route \<Rightarrow> parseRequest E p b
            | None \<Rightarrow> return (404, ''404 page not found'' @ [CHR 0x0A])) (\<lambda>r. return (Served r))"
  using assms by (auto simp: serve_def)

lemma match_route_disabled: "match_route False path \<noteq> Some Events_route"
  by (simp add: match_route_def Let_def)

lemma match_route_events: "match_route True path = Some Events_route \<Longrightarrow> match_route False path = None"
  by (simp add: match_route_def Let_def split: if_splits)

text \<open>
  With the REST interface enabled, a request for a path that is one plain name other than the names of the
  probes, as an xname is, is handed to \<^verbatim>\<open>parseRequest\<close> with that path, for every method and body.
\<close>

lemma destination_routed:
  assumes "restEnabled E" "list_all plain_char x" "x \<noteq> []" "CHR ''.'' \<notin> set x" "x \<notin> {''readiness'', ''liveness'', ''health''}"
  shows "serve E meth (''/'' @ x) (''/'' @ x) b = bindIO (parseRequest E (''/'' @ x) b) (\<lambda>r. return (Served r))"
proof -
  have slash: "CHR ''/'' \<notin> set x" using assms(2) plain_char_simps(2) unfolding list_all_iff by blast
  have "pathClean (''/'' @ x) = ''/'' @ x"
    using assms(3,4) slash by (auto simp: pathClean_def Split_plain)
  moreover have "last (''/'' @ x) \<noteq> CHR ''/''" using slash assms(3) by (metis last_appendR last_in_set)
  ultimately have clean: "cleanPath (''/'' @ x) = ''/'' @ x" by (simp add: cleanPath_def Let_def)
  have "unescape x EncPath = Some x" using assms(2) by (intro unescape_plain) (auto simp: list_all_iff plain_char_unescaped)
  then have "pathUnescape x = x" by (simp add: pathUnescape_def)
  then have "match_route True (''/'' @ x) = Some Events_route" using assms(5) by (simp add: match_route_def)
  with assms(1) clean serve_route[of "''/'' @ x" meth E "''/'' @ x" b] show ?thesis by simp
qed

section \<open>Properties\<close>

text \<open>
  C18: a process that has been set up can work. When the set-up of \<^verbatim>\<open>main\<close> returns and goes on, there is
  a client for Redfish requests for the CA bundle in use, there are brokers and all are connected, so
  that the readiness probe answers 204; with Vault enabled and no request to stop there is a
  credential store; and as long as the brokers are kept, the flush at the end of the process does not
  fail.
\<close>

theorem set_up_to_work:
  assumes "main_setup E B w = (Ret (Some watch), w')"
  shows "w_rfClient w' = Some (w_caURI w') \<and> w_kafkaBrokers w' \<noteq> [] \<and> doReadiness w' = (Ret (204, []), w')
     \<and> (VaultEnabled E \<and> (\<forall>e. fst (bt_Running B e)) \<longrightarrow> w_compCredStore w')
     \<and> (\<forall>v. w_kafkaBrokers v = w_kafkaBrokers w' \<longrightarrow> fst (flush_brokers B v) = Ret ())"
proof -
  from assms obtain u w1 w2 w3 w4 where client: "setup_client B w1 = (Ret (), w2)"
    and ca: "register_ca B w2 = (Ret u, w3)"
    and vault: "(if VaultEnabled E then setupVault_fuel (bt_fuel B) B else return ()) w3 = (Ret (), w4)"
    and kafka: "setupKafka B w4 = (Ret (Some watch), w')"
    by (rule main_setup_phases)
  have "keeps (\<lambda>w. (w_rfClient w, w_caURI w)) (register_ca B)"
    unfolding register_ca_def by (intro frame_rules) simp
  from keepsD[OF this ca] client_set_up[OF client] have w3: "w_rfClient w3 = Some (w_caURI w3)" by simp
  have w4: "w_rfClient w4 = w_rfClient w3" "w_caURI w4 = w_caURI w3"
    "VaultEnabled E \<Longrightarrow> \<forall>e. fst (bt_Running B e) \<Longrightarrow> w_compCredStore w4"
    using vault setupVault_effects[of "bt_fuel B" B w3 "Ret ()" w4] by (auto split: if_splits)
  have "keeps (\<lambda>w. (w_rfClient w, w_caURI w, w_compCredStore w)) (setupKafka B)" by (rule keeps_setupKafka) simp_all
  from keepsD[OF this kafka] have w': "w_rfClient w' = w_rfClient w4" "w_caURI w' = w_caURI w4"
    "w_compCredStore w' = w_compCredStore w4" by simp_all
  note ready = main_setup_ready[OF assms]
  have "fst (flush_brokers B v) = Ret ()" if "w_kafkaBrokers v = w_kafkaBrokers w'" for v
    by (rule flush_returns) (simp add: that ready)
  with ready doReadiness_eq[of w'] w3 w4 w' show ?thesis by simp
qed

lemma setup_run: "fst (main_setup env0 boot0 (world0 0)) = Ret (Some True)"
  by code_simp

theorem set_up_to_work_witness:
  "let w' = snd (main_setup env0 boot0 (world0 0))
   in w_rfClient w' = Some (w_caURI w') \<and> w_kafkaBrokers w' \<noteq> [] \<and> w_compCredStore w' \<and> fst (flush_brokers boot0 w') = Ret ()"
proof -
  have run: "main_setup env0 boot0 (world0 0) = (Ret (Some True), snd (main_setup env0 boot0 (world0 0)))"
    using setup_run by (simp add: prod_eq_iff)
  from set_up_to_work[OF run] show ?thesis unfolding Let_def by (simp add: env0_def boot0_def)
qed

text \<open>
  C28: the probes are answered whatever is enabled. The three probes have their routes with and without
  the REST interface; without it no request to the server panics or changes anything of the state, and every
  request that is not about a probe is refused or redirected.
\<close>

theorem probes_always_served:
  "serve E meth ''/readiness'' p b = bindIO doReadiness (\<lambda>r. return (Served r))
   \<and> serve E meth ''/liveness'' p b = bindIO doLiveness (\<lambda>r. return (Served r))
   \<and> serve E meth ''/health'' p b = bindIO (doHealth E meth) (\<lambda>r. return (Served r))
   \<and> (\<not> restEnabled E \<longrightarrow> (\<exists>s. serve E meth path p b w = (Ret s, w)
        \<and> (match_route True path = Some Events_route \<longrightarrow>
             s = Served (404, ''404 page not found'' @ [CHR 0x0A]) \<or> s = Moved (cleanPath path) \<or> path = ''*'')))"
proof -
  have "\<exists>s. serve E meth path p b w = (Ret s, w) \<and> (match_route True path = Some Events_route \<longrightarrow>
      s = Served (404, ''404 page not found'' @ [CHR 0x0A]) \<or> s = Moved (cleanPath path) \<or> path = ''*'')" if "\<not> restEnabled E"
  proof (cases "path = ''*'' \<or> meth \<noteq> ''CONNECT'' \<and> cleanPath path \<noteq> path")
    case True
    then show ?thesis by (auto simp: serve_def)
  next
    case False
    then have run: "serve E meth path p b = bindIO
           (case match_route False path of
              Some Readiness \<Rightarrow> doReadiness
            | Some Liveness \<Rightarrow> doLiveness
            | Some Health \<Rightarrow> doHealth E meth
            | Some Events_route \<Rightarrow> parseRequest E p b
            | None \<Rightarrow> return (404, ''404 page not found'' @ [CHR 0x0A])) (\<lambda>r. return (Served r))"
      using serve_route[of path meth E p b] that by auto
    show ?thesis
    proof (cases "match_route False path")
      case None
      then show ?thesis by (simp add: run)
    next
      case (Some route)
      with match_route_events[of path] have "match_route True path \<noteq> Some Events_route" by auto
      with Some match_route_disabled[of path] show ?thesis
        by (cases route) (auto simp: run doReadiness_eq bindIO_def doLiveness_def doHealth_def)
    qed
  qed
  then show ?thesis
    by (auto simp: serve_route probe_paths)
qed

theorem probes_always_served_witness:
  "serve ((env0 :: unit env)\<lparr>restEnabled := False\<rparr>) ''POST'' ''/x3000c0s1b0'' ''/x3000c0s1b0'' (Some fan_post) (world0 ())
     = (Ret (Served (404, ''404 page not found'' @ [CHR 0x0A])), world0 ())"
proof -
  have "cleanPath ''/x3000c0s1b0'' = ''/x3000c0s1b0''" "match_route True ''/x3000c0s1b0'' = Some Events_route" by code_simp+
  moreover have "fst (serve ((env0 :: unit env)\<lparr>restEnabled := False\<rparr>) ''POST'' ''/x3000c0s1b0'' ''/x3000c0s1b0'' (Some fan_post) (world0 ()))
      \<noteq> Ret (Moved ''/x3000c0s1b0'')"
    using serve_route[of "''/x3000c0s1b0''" "''POST''" "(env0 :: unit env)\<lparr>restEnabled := False\<rparr>"] calculation
    by (simp add: match_route_events)
  ultimately show ?thesis
    using probes_always_served[of "(env0 :: unit env)\<lparr>restEnabled := False\<rparr>" "''POST''" "''/x3000c0s1b0''" "Some fan_post" "''/x3000c0s1b0''" "world0 ()"]
    by auto
qed

end
