(* ===== verification/System.thy ===== *)
theory System
  imports PassMachine PollMachine SubscribeMachine Program Lifecycle
begin

text \<open>
  The running process as a whole: the passes that classify endpoints, the worker pool, the subscription
  monitor and the life of the process (\<^verbatim>\<open>main\<close> of \<^verbatim>\<open>cmd/hmcollector/hmcollector.go\<close> and the goroutines it
  starts) on one shared state, together with the refreshes of the endpoints, the requests to the REST
  server, the watch of the SMA broker and the renewal of the client. Each part was verified against whatever the
  others may do; here the others are those of the program, and each keeps to what the rest rely on. What ends the process has no
  step after it; \<^verbatim>\<open>logger.Fatal\<close> of \<^verbatim>\<open>monitorSMA\<close> and the goroutine of \<^verbatim>\<open>handleKafkaEvents\<close>, which only logs, are left out.
\<close>

section \<open>State and steps\<close>

record 'e system =
  y_pass :: "'e pass"
  y_pool :: "'e pool"
  y_monitor :: "'e monitor"
  y_life :: life

definition settings_of :: "'e env \<Rightarrow> settings" where
  "settings_of E = \<lparr> c_pollingEnabled = pollingEnabled E, c_rfSubscribeEnabled = rfSubscribeEnabled E,
     c_smURL = smURL E, c_restURL = restURL E \<rparr>"

text \<open>The parts share one state, which every part of the model has a copy of.\<close>

abbreviation shared :: "'e system \<Rightarrow> 'e world" where
  "shared s \<equiv> s_world (y_pass s)"

definition share :: "'e world \<Rightarrow> 'e system \<Rightarrow> 'e system" where
  "share w s = s\<lparr>y_pass := (y_pass s)\<lparr>s_world := w\<rparr>, y_pool := (y_pool s)\<lparr>q_world := w\<rparr>,
     y_monitor := (y_monitor s)\<lparr>m_world := w\<rparr>\<rparr>"

text \<open>After the set-up, with \<open>w\<close> the state it leads to and \<open>l\<close> what happened to the process meanwhile.\<close>

definition system0 :: "life \<Rightarrow> 'e world \<Rightarrow> 'e system" where
  "system0 l w = (let w' = w\<lparr>w_jsonPayloads := []\<rparr>
     in \<lparr> y_pass = pass0 w', y_pool = pool0 w, y_monitor = monitor0 w', y_life = l \<rparr>)"

text \<open>Nothing happens after \<^verbatim>\<open>main\<close> has returned or a goroutine has panicked.\<close>

definition going :: "'e system \<Rightarrow> bool" where
  "going s \<longleftrightarrow> alive (y_life s) \<and> s_panicked (y_pass s) = None \<and> q_panicked (y_pool s) = None"

text \<open>
  A new pass, round or scan is begun only by its loop, in the working part of it; the channels of the pool are closed
  when \<^verbatim>\<open>doPolling\<close> has left its loop. A panic in the handler of a request ends that request only.
\<close>

inductive system_act :: "'e env \<Rightarrow> 'e boot \<Rightarrow> 'e system \<Rightarrow> 'e system \<Rightarrow> bool" for E B where
  classify_endpoints:
    "pass_move E (y_pass s) m \<Longrightarrow> (s_todo (y_pass s) = None \<and> s_todo m \<noteq> None \<longrightarrow> l_monitor (y_life s) = Working) \<Longrightarrow>
     system_act E B s (share (s_world m) (s\<lparr>y_pass := m\<rparr>))"
| poll:
    "pool_move E (y_pool s) m \<Longrightarrow> (q_round (y_pool s) = [] \<and> q_round m \<noteq> [] \<longrightarrow> l_polling (y_life s) = Working) \<Longrightarrow>
     (q_closed m \<and> \<not> q_closed (y_pool s) \<longrightarrow> l_polling (y_life s) = Stopped) \<Longrightarrow>
     system_act E B s (share (q_world m) (s\<lparr>y_pool := m\<rparr>))"
| subscribe:
    "sub_move E (y_monitor s) m \<Longrightarrow> (m_subCheckCnt m \<noteq> m_subCheckCnt (y_monitor s) \<longrightarrow> l_subscribe (y_life s) = Working) \<Longrightarrow>
     system_act E B s (share (m_world m) (s\<lparr>y_monitor := m\<rparr>))"
| proceed:
    "life_step (settings_of E) (y_life s) l \<Longrightarrow> system_act E B s (s\<lparr>y_life := l\<rparr>)"
| refresh:
    "l_refresh (y_life s) = Working \<Longrightarrow> doUpdateHSMEndpoints E (shared s) = (Ret (), w) \<Longrightarrow> system_act E B s (share w s)"
| request:
    "l_RestSRV (y_life s) = Serving \<Longrightarrow> serve E meth escapedPath urlPath body (shared s) = (r, w) \<Longrightarrow>
     system_act E B s (share w s)"
| watch_sma:
    "w_smaBroker (shared s) \<noteq> [] \<Longrightarrow> sma_host (w_smaBroker (shared s)) = Some host \<Longrightarrow>
     sma_check B host first (shared s) = (Ret change, w) \<Longrightarrow> system_act E B s (share w s)"
| renew_client:
    "w_caURI (shared s) \<noteq> [] \<Longrightarrow> caChangeCB B (shared s) = (Ret (), w) \<Longrightarrow> system_act E B s (share w s)"

definition system_step :: "'e env \<Rightarrow> 'e boot \<Rightarrow> 'e system \<Rightarrow> 'e system \<Rightarrow> bool" where
  "system_step E B s s' \<longleftrightarrow> going s \<and> system_act E B s s'"

abbreviation system_reaches :: "'e env \<Rightarrow> 'e boot \<Rightarrow> 'e system \<Rightarrow> 'e system \<Rightarrow> bool" where
  "system_reaches E B \<equiv> (system_step E B)\<^sup>*\<^sup>*"

section \<open>The interface of a part\<close>

text \<open>
  A part has its own moves, and allows every change of the shared state that its \<open>rely\<close> allows. As
  long as it has not halted, both prolong a run of it.
\<close>

locale part =
  fixes move step :: "'s \<Rightarrow> 's \<Rightarrow> bool" and put :: "'w \<Rightarrow> 's \<Rightarrow> 's" and world :: "'s \<Rightarrow> 'w"
    and rely :: "'w \<Rightarrow> 'w \<Rightarrow> bool" and halted :: "'s \<Rightarrow> bool"
  assumes own: "\<not> halted s \<Longrightarrow> move s s' \<Longrightarrow> step s s'"
    and others: "\<not> halted s \<Longrightarrow> rely (world s) w \<Longrightarrow> step s (put w s)"
begin

lemma own_move: "step\<^sup>*\<^sup>* a s \<Longrightarrow> \<not> halted s \<Longrightarrow> move s m \<Longrightarrow> step\<^sup>*\<^sup>* a m"
  by (erule rtranclp.rtrancl_into_rtrancl) (rule own)

lemma left_alone: "step\<^sup>*\<^sup>* a s \<Longrightarrow> \<not> halted s \<Longrightarrow> rely (world s) w \<Longrightarrow> step\<^sup>*\<^sup>* a (put w s)"
  by (erule rtranclp.rtrancl_into_rtrancl) (rule others)

end

definition same_queue :: "'e world \<Rightarrow> 'e world \<Rightarrow> bool" where
  "same_queue w w' \<longleftrightarrow> w_jsonPayloads w' = w_jsonPayloads w"

definition same_subs :: "'e world \<Rightarrow> 'e world \<Rightarrow> bool" where
  "same_subs w w' \<longleftrightarrow> w_status w' = w_status w \<and> w_prefixGroups w' = w_prefixGroups w \<and> w_nextSub w' = w_nextSub w"

interpretation passes: part "pass_move E" "pass_step E" "\<lambda>w m. m\<lparr>s_world := w\<rparr>" s_world interferes "\<lambda>m. s_panicked m \<noteq> None"
  by unfold_locales (simp_all add: pass_step_def pass_act.own pass_act.rest_of_program)

interpretation pool: part "pool_move E" "pool_step E" "\<lambda>w m. m\<lparr>q_world := w\<rparr>" q_world same_queue "\<lambda>m. q_panicked m \<noteq> None"
  by unfold_locales (simp_all add: pool_step_def pool_act.own pool_act.others same_queue_def)

interpretation subs: part "sub_move E" "sub_step E" "\<lambda>w m. m\<lparr>m_world := w\<rparr>" m_world same_subs "\<lambda>m. False"
  by unfold_locales (simp_all add: sub_step.own sub_step.others same_subs_def)

section \<open>What the other goroutines leave alone\<close>

text \<open>Neither the server, nor the watch of the SMA broker, nor the renewal of the client touches what the parts work on.\<close>

locale service_guarantee = http_frame g for g :: "'e world \<Rightarrow> 'b" +
  assumes g_smaOK: "g (w\<lparr>w_smaOK := ok\<rparr>) = g w"
    and g_smaOKPrev: "g (w\<lparr>w_smaOKPrev := ok\<rparr>) = g w"
    and g_rfClient: "g (w\<lparr>w_rfClient := c\<rparr>) = g w"
begin

lemma keeps_serve: "keeps g (serve E meth escapedPath urlPath body)"
proof -
  have "keeps g (restamp E ps)" for ps by (induction ps) (auto intro!: frame_rules keeps_nowString g_ext)
  then have "keeps g (route_event E evs ev)" for evs ev
    unfolding route_event_def override_timestamps_def Let_def by (intro frame_rules keeps_writeToKafka)
  then have "keeps g (parseRequest E urlPath body)"
    unfolding parseRequest_def Let_def by (intro frame_rules)
  moreover have "keeps g doReadiness" "keeps g doLiveness" "keeps g (doHealth E meth)"
    unfolding doReadiness_def doLiveness_def doHealth_def by (intro frame_rules)+
  ultimately have "keeps g (case route of Readiness \<Rightarrow> doReadiness | Liveness \<Rightarrow> doLiveness | Health \<Rightarrow> doHealth E meth
      | Events_route \<Rightarrow> parseRequest E urlPath body)" for route by (cases route) simp_all
  then show ?thesis unfolding serve_def Let_def by (intro frame_rules)
qed

lemma keeps_sma_check: "keeps g (sma_check B host first)"
  unfolding sma_check_def by (intro frame_rules keeps_ext) (simp_all add: g_smaOK g_smaOKPrev)

lemma keeps_caChangeCB: "keeps g (caChangeCB B)"
  unfolding caChangeCB_def createRFClient_def override_param_def Let_def
  by (intro frame_rules keeps_ext) (simp add: g_rfClient)

end

text \<open>What every part but the one at work may see of a step.\<close>

definition quiet :: "'e world \<Rightarrow> 'e world \<Rightarrow> bool" where
  "quiet w w' \<longleftrightarrow> interferes w w' \<and> same_queue w w' \<and> same_subs w w' \<and> w_kafkaBrokers w' = w_kafkaBrokers w"

definition kept_by_services :: "'e world \<Rightarrow> (EndpointWithCollector list \<times> nat list \<times> (string \<times> nat) list \<times> nat \<times> (nat \<Rightarrow> RedfishEPDescription))
    \<times> jsonPayload list \<times> ((nat \<Rightarrow> RFSubStatus) \<times> (nat \<Rightarrow> string list option list) \<times> nat) \<times> KafkaBroker list" where
  "kept_by_services w = ((w_endpoints w, w_nonPolledEndpoints w, w_HSMEndpoints w, w_nextEp w, \<lambda>q. identity (w_ep w q)),
     w_jsonPayloads w, (w_status w, w_prefixGroups w, w_nextSub w), w_kafkaBrokers w)"

interpretation services: service_guarantee kept_by_services
  by unfold_locales (auto simp: kept_by_services_def identity_def)

lemma kept_quiet: "kept_by_services w' = kept_by_services w \<Longrightarrow> quiet w w'"
  unfolding quiet_def same_queue_def same_subs_def kept_by_services_def
  by (simp only: prod.inject simp_thms) (rule same_interferes, simp)

lemma refresh_quiet:
  assumes "doUpdateHSMEndpoints E w = (r, w')"
  shows "quiet w w'"
proof -
  have "keeps (\<lambda>w. (w_jsonPayloads w, w_status w, w_prefixGroups w, w_nextSub w, w_kafkaBrokers w)) (doUpdateHSMEndpoints E)"
    unfolding doUpdateHSMEndpoints_def GetEndpointList_def update_endpoint_def allocEp_def Let_def writeEp_def
    by (intro frame_rules pass_leaves.keeps_ext pass_leaves.keeps_update) simp_all
  from keepsD[OF this assms] doUpdate_interferes[OF assms] show ?thesis
    by (simp add: quiet_def same_queue_def same_subs_def)
qed

lemmas service_quiet = kept_quiet[OF keepsD[OF services.keeps_serve]] kept_quiet[OF keepsD[OF services.keeps_sma_check]]
  kept_quiet[OF keepsD[OF services.keeps_caChangeCB]]

text \<open>The three parts: each leaves alone what the other two rely on.\<close>

lemma pass_guarantees:
  assumes "pass_move E m m'"
  shows "same_queue (s_world m) (s_world m')" "same_subs (s_world m) (s_world m')"
    "w_kafkaBrokers (s_world m') = w_kafkaBrokers (s_world m)"
  using pass_leaves.move_keeps[OF assms] by (simp_all add: same_queue_def same_subs_def)

lemma pool_guarantees:
  assumes "pool_move E m m'"
  shows "interferes (q_world m) (q_world m')" "same_subs (q_world m) (q_world m')"
    "w_kafkaBrokers (q_world m') = w_kafkaBrokers (q_world m)"
  using pool_leaves.move_keeps[OF assms] same_interferes[of "q_world m'" "q_world m"] by (simp_all add: same_subs_def)

lemma sub_guarantees:
  assumes "sub_move E m m'"
  shows "interferes (m_world m) (m_world m')" "same_queue (m_world m) (m_world m')"
    "w_kafkaBrokers (m_world m') = w_kafkaBrokers (m_world m)"
  using monitor_leaves.move_keeps[OF assms] same_interferes[of "m_world m'" "m_world m"] by (simp_all add: same_queue_def)

section \<open>Every run of the process is a run of each part\<close>

lemma share_simps [simp]:
  "y_pass (share w s) = (y_pass s)\<lparr>s_world := w\<rparr>" "y_pool (share w s) = (y_pool s)\<lparr>q_world := w\<rparr>"
  "y_monitor (share w s) = (y_monitor s)\<lparr>m_world := w\<rparr>" "y_life (share w s) = y_life s"
  by (simp_all add: share_def)

definition agree :: "'e system \<Rightarrow> bool" where
  "agree s \<longleftrightarrow> q_world (y_pool s) = shared s \<and> m_world (y_monitor s) = shared s"

definition composed :: "'e env \<Rightarrow> 'e system \<Rightarrow> 'e system \<Rightarrow> bool" where
  "composed E s s' \<longleftrightarrow> pass_reaches E (y_pass s) (y_pass s') \<and> pool_reaches E (y_pool s) (y_pool s')
     \<and> reaches E (y_monitor s) (y_monitor s') \<and> life_reaches (settings_of E) (y_life s) (y_life s')
     \<and> agree s' \<and> w_kafkaBrokers (shared s') = w_kafkaBrokers (shared s)"

lemma composed_refl: "agree s \<Longrightarrow> composed E s s"
  by (simp add: composed_def)

lemma composed_share:
  assumes "composed E a s" "going s" "quiet (shared s) w"
  shows "composed E a (share w s)"
  using assms by (simp add: composed_def going_def quiet_def agree_def passes.left_alone pool.left_alone subs.left_alone)

lemma composed_step:
  assumes "system_act E B s s'" "composed E a s" "going s"
  shows "composed E a s'"
  using assms
proof (induction rule: system_act.induct)
  case (classify_endpoints s m)
  with pass_guarantees[OF classify_endpoints(1)] show ?case
    by (auto simp: composed_def going_def agree_def pool.left_alone subs.left_alone intro: passes.own_move)
next
  case (poll s m)
  with pool_guarantees[OF poll(1)] show ?case
    by (auto simp: composed_def going_def agree_def passes.left_alone subs.left_alone intro: pool.own_move)
next
  case (subscribe s m)
  with sub_guarantees[OF subscribe(1)] show ?case
    by (auto simp: composed_def going_def agree_def passes.left_alone pool.left_alone intro: subs.own_move)
next
  case (proceed s l)
  then show ?case by (auto simp: composed_def agree_def)
next
  case (refresh s w)
  then show ?case by (intro composed_share refresh_quiet)
next
  case (request s meth escapedPath urlPath body r w)
  then show ?case by (intro composed_share service_quiet(1))
next
  case (watch_sma s host first change w)
  then show ?case by (intro composed_share service_quiet(2))
next
  case (renew_client s w)
  then show ?case by (intro composed_share service_quiet(3))
qed

lemma composed_run: "system_reaches E B a s \<Longrightarrow> agree a \<Longrightarrow> composed E a s"
  by (induction rule: rtranclp_induct) (auto simp: composed_refl system_step_def intro: composed_step)

lemma system0_simps [simp]:
  "y_pass (system0 l w) = pass0 (w\<lparr>w_jsonPayloads := []\<rparr>)" "y_pool (system0 l w) = pool0 w"
  "y_monitor (system0 l w) = monitor0 (w\<lparr>w_jsonPayloads := []\<rparr>)" "y_life (system0 l w) = l"
  by (simp_all add: system0_def Let_def)

lemma system0_agree: "agree (system0 l w)" "shared (system0 l w) = w\<lparr>w_jsonPayloads := []\<rparr>"
  by (simp_all add: agree_def pass0_def pool0_def monitor0_def)

lemmas system_run = composed_run[OF _ system0_agree(1)]

section \<open>Stopping\<close>

text \<open>A process whose life began with \<open>l\<close>; the channels of the pool are closed only when it is to stop.\<close>

definition stops_last :: "'e env \<Rightarrow> 'e system \<Rightarrow> bool" where
  "stops_last E s \<longleftrightarrow> life_ok (settings_of E) (y_life s) \<and> (q_closed (y_pool s) \<longrightarrow> \<not> l_Running (y_life s))"

lemma running_ends: "life_act c m m' \<Longrightarrow> l_Running m' \<Longrightarrow> l_Running m"
  by (induction rule: life_act.induct) (auto split: if_splits)

lemma stops_last_act:
  assumes "system_act E B s s'" "stops_last E s"
  shows "stops_last E s'"
  using assms
proof (induction rule: system_act.induct)
  case (poll s m)
  then show ?case by (auto simp: stops_last_def life_ok_def told_ok_def)
next
  case (proceed s l)
  then have "life_ok (settings_of E) l" "l_Running l \<longrightarrow> l_Running (y_life s)"
    by (auto simp: stops_last_def life_step_def intro: life_step_ok running_ends)
  with proceed show ?case by (auto simp: stops_last_def)
next
  case (classify_endpoints s m)
  then show ?case by (simp add: stops_last_def)
qed (simp_all add: stops_last_def)

lemma stops_last_run:
  assumes "life_reaches (settings_of E) life0 l" "system_reaches E B (system0 l w) s"
  shows "stops_last E s"
  using assms(2)
proof (induction rule: rtranclp_induct)
  case base
  from life_ok_reached[OF assms(1)] show ?case by (simp add: stops_last_def pool0_def)
next
  case (step s s')
  then show ?case by (auto simp: system_step_def intro: stops_last_act)
qed

section \<open>Draining\<close>

lemma going_poll:
  assumes "going s" "pool_move E (y_pool s) m" "q_round m = q_round (y_pool s)" "q_closed m = q_closed (y_pool s)"
  shows "system_step E B s (share (q_world m) (s\<lparr>y_pool := m\<rparr>))"
  using assms system_act.poll[of E s m B] by (simp add: system_step_def)

lemma system_drain:
  "going s \<Longrightarrow> PollMachine.running (y_pool s) \<Longrightarrow>
     \<exists>s'. system_reaches E B s s' \<and> backlog (y_pool s') = 0 \<and> q_made (y_pool s') = q_made (y_pool s) \<and> going s'"
proof (induction "backlog (y_pool s)" arbitrary: s rule: less_induct)
  case less
  show ?case
  proof (cases "backlog (y_pool s) = 0")
    case False
    from pool_progress[OF less(3) False] obtain m where m: "pool_move E (y_pool s) m" "backlog m < backlog (y_pool s)"
      "q_made m = q_made (y_pool s)" "q_round m = q_round (y_pool s)" "PollMachine.running m" by blast
    let ?s = "share (q_world m) (s\<lparr>y_pool := m\<rparr>)"
    have "system_step E B s ?s"
      using m(1,4,5) less(2,3) by (intro going_poll) (simp_all add: PollMachine.running_def)
    moreover have "going ?s" using less(2) m(5) by (simp add: going_def PollMachine.running_def)
    ultimately show ?thesis using less(1)[of ?s] m(2,3,5) by (auto intro: converse_rtranclp_into_rtranclp)
  qed (use less(2) in blast)
qed

section \<open>Only endpoints of the State Manager\<close>

definition known :: "'e world \<Rightarrow> nat set" where
  "known w = snd ` set (w_HSMEndpoints w)"

definition from_hsm :: "'e system \<Rightarrow> bool" where
  "from_hsm s \<longleftrightarrow> hsm_ok (shared s) \<and> addresses (y_pass s) \<subseteq> known (shared s)
     \<and> set (m_scan (y_monitor s)) \<subseteq> known (shared s)
     \<and> dom (m_endpoints (y_monitor s)) \<subseteq> fst ` set (w_HSMEndpoints (shared s))
     \<and> set (q_round (y_pool s)) \<union> set (q_pending (y_pool s)) \<subseteq> set (w_endpoints (shared s))"

lemma known_ID: "hsm_ok w \<Longrightarrow> p \<in> known w \<Longrightarrow> ep_ID (w_ep w p) \<in> fst ` set (w_HSMEndpoints w)"
  by (force simp: hsm_ok_def known_def list_all_iff)

text \<open>A change of the state in which at most the map of endpoints changes, by endpoints that are added.\<close>

definition grows :: "'e world \<Rightarrow> 'e world \<Rightarrow> bool" where
  "grows w w' \<longleftrightarrow> (hsm_ok w \<longrightarrow> hsm_ok w') \<and> set (w_HSMEndpoints w) \<subseteq> set (w_HSMEndpoints w')
     \<and> w_endpoints w' = w_endpoints w \<and> w_nonPolledEndpoints w' = w_nonPolledEndpoints w"

lemma records_update:
  "records (m\<lparr>m_world := w\<rparr>) = records m" "records (m\<lparr>m_subCheckCnt := n\<rparr>) = records m" "records (m\<lparr>m_scan := ps\<rparr>) = records m"
  by (simp_all add: records_def)

lemma from_hsm_share:
  assumes "from_hsm s" "grows (shared s) w"
  shows "from_hsm (share w s)"
proof -
  have "addresses ((y_pass s)\<lparr>s_world := w\<rparr>) = addresses (y_pass s)"
    using assms(2) by (simp add: addresses_def grows_def pending_def busy_def)
  moreover have "known (shared s) \<subseteq> known w" "fst ` set (w_HSMEndpoints (shared s)) \<subseteq> fst ` set (w_HSMEndpoints w)"
    using assms(2) by (auto simp: known_def grows_def)
  ultimately show ?thesis using assms unfolding from_hsm_def grows_def share_simps by (simp, blast)
qed

lemma same_grows: "interferes w w' \<Longrightarrow> w_HSMEndpoints w' = w_HSMEndpoints w \<Longrightarrow> grows w w'"
  by (simp add: grows_def interferes_def)

lemma refresh_grows:
  assumes "doUpdateHSMEndpoints E w = (r, w')" "hsm_ok w"
  shows "grows w w'"
proof -
  have "refreshed w w'"
    using assms(1)
  proof (cases rule: doUpdate_cases)
    case (update ns e)
    with update_endpoints_ok[OF _ update] assms(2) show ?thesis by simp
  qed simp
  with doUpdate_interferes[OF assms(1)] show ?thesis by (auto simp: grows_def interferes_def refreshed_def)
qed

lemma kept_grows: "kept_by_services w' = kept_by_services w \<Longrightarrow> grows w w'"
  by (rule same_grows[OF kept_quiet[unfolded quiet_def, THEN conjunct1]]) (simp_all add: kept_by_services_def)

lemmas service_grows = kept_grows[OF keepsD[OF services.keeps_serve]] kept_grows[OF keepsD[OF services.keeps_sma_check]]
  kept_grows[OF keepsD[OF services.keeps_caChangeCB]]

lemma add_endpoint_addresses:
  assumes "add_endpoint E p c w = (r, w')"
  shows "set (map ec_Endpoint (w_endpoints w') @ w_nonPolledEndpoints w')
       \<subseteq> insert p (set (map ec_Endpoint (w_endpoints w) @ w_nonPolledEndpoints w))"
    "set (w_endpoints w) \<subseteq> set (w_endpoints w')"
proof -
  obtain w2 where "add_endpoint E p c w = (Ret (), w2)"
    "set (map ec_Endpoint (w_endpoints w2) @ w_nonPolledEndpoints w2)
       \<subseteq> insert p (set (map ec_Endpoint (w_endpoints w) @ w_nonPolledEndpoints w))"
    by (rule add_endpoint_run)
  with assms show "set (map ec_Endpoint (w_endpoints w') @ w_nonPolledEndpoints w')
       \<subseteq> insert p (set (map ec_Endpoint (w_endpoints w) @ w_nonPolledEndpoints w))" by simp
  show "set (w_endpoints w) \<subseteq> set (w_endpoints w')"
  proof (cases c)
    case (Polled collector model)
    obtain t w1 where "allocTime E w = (Ret t, w1)" "w_endpoints w1 = w_endpoints w" by (rule allocTime_run)
    with assms Polled show ?thesis by (auto simp: add_endpoint_def bindIO_Ret)
  qed (use assms in \<open>auto simp: add_endpoint_def\<close>)
qed

lemma classify_endpoints_kept:
  assumes "classify E p w = (r, w')"
  shows "w_endpoints w' = w_endpoints w" "w_nonPolledEndpoints w' = w_nonPolledEndpoints w"
  using keepsD[OF pass_frame.keeps_classify assms] by simp_all

lemma pass_move_addresses: "pass_move E m m' \<Longrightarrow> addresses m' \<subseteq> addresses m \<union> known (s_world m)"
proof (induction rule: pass_move.induct)
  case (begin_pass m order)
  from mset_eq_setD[OF begin_pass(2)] show ?case by (auto simp: addresses_def pending_def busy_def known_def)
next
  case (classified m as p bs c w')
  with classify_endpoints_kept[OF classified(2)] show ?case by (auto simp: addresses_def pending_def busy_def)
next
  case (classify_panics m as p bs x w')
  with classify_endpoints_kept[OF classify_panics(2)] show ?case by (auto simp: addresses_def pending_def busy_def)
next
  case (added m as p c bs w')
  with add_endpoint_addresses(1)[OF added(2)] show ?case by (auto simp: addresses_def pending_def busy_def)
qed (auto simp: addresses_def pending_def busy_def)

lemma pass_move_endpoints: "pass_move E m m' \<Longrightarrow> set (w_endpoints (s_world m)) \<subseteq> set (w_endpoints (s_world m'))"
  by (induction rule: pass_move.induct) (simp_all add: classify_endpoints_kept add_endpoint_addresses(2))

lemma pass_move_map:
  assumes "pass_move E m m'"
  shows "w_HSMEndpoints (s_world m') = w_HSMEndpoints (s_world m)" "hsm_ok (s_world m) \<Longrightarrow> hsm_ok (s_world m')"
proof -
  from pass_leaves_map.move_keeps[OF assms] have k: "w_HSMEndpoints (s_world m') = w_HSMEndpoints (s_world m)"
    "w_nextEp (s_world m') = w_nextEp (s_world m)" "\<And>q. identity (w_ep (s_world m') q) = identity (w_ep (s_world m) q)"
    by (auto simp: fun_eq_iff)
  show "w_HSMEndpoints (s_world m') = w_HSMEndpoints (s_world m)" by (rule k(1))
  from identity_eqD(1)[OF k(3)] k(1,2) show "hsm_ok (s_world m) \<Longrightarrow> hsm_ok (s_world m')" by (simp add: hsm_ok_def)
qed

lemma pool_move_rounds:
  assumes "pool_move E m m'"
  shows "set (q_round m') \<union> set (q_pending m') \<subseteq> set (q_round m) \<union> set (q_pending m) \<union> set (w_endpoints (q_world m))"
  using assms by (induction rule: pool_move.induct) (auto simp: collected_def split: prod.splits res.splits)

lemma pool_move_grows: "pool_move E m m' \<Longrightarrow> grows (q_world m) (q_world m')"
  using pool_leaves.move_keeps by (intro same_grows pool_guarantees(1)) auto

lemma sub_move_grows: "sub_move E m m' \<Longrightarrow> grows (m_world m) (m_world m')"
  using monitor_leaves.move_keeps by (intro same_grows sub_guarantees(1)) auto

lemma sub_move_scan:
  assumes "sub_move E m m'" "hsm_ok (m_world m)" "set (m_scan m) \<subseteq> known (m_world m)"
    "dom (m_endpoints m) \<subseteq> fst ` set (w_HSMEndpoints (m_world m))"
  shows "set (m_scan m') \<subseteq> known (m_world m) \<and> dom (m_endpoints m') \<subseteq> fst ` set (w_HSMEndpoints (m_world m))"
  using assms
proof (induction rule: sub_move.induct)
  case (begin_scan m ps)
  from mset_eq_setD[OF begin_scan(2)] begin_scan show ?case by (simp add: known_def)
next
  case (scan_next m p ps m')
  then have "ep_ID (w_ep (m_world m) p) \<in> fst ` set (w_HSMEndpoints (m_world m))" by (intro known_ID) auto
  with scan_next scan_endpoint_dom(2)[of p m] have "dom (m_endpoints m') \<subseteq> fst ` set (w_HSMEndpoints (m_world m))" by blast
  with scan_next(1,6) show ?case by simp
qed simp_all

lemma sub_move_records:
  assumes "sub_move E m m'" "set (m_scan m) \<subseteq> K" "sub_Endpoint ` records m \<subseteq> K"
  shows "sub_Endpoint ` records m' \<subseteq> K"
  using assms
proof (induction rule: sub_move.induct)
  case (scan_next m p ps m')
  have "sub_Endpoint ` records m' \<subseteq> insert p (sub_Endpoint ` records m)"
    using records_scan_endpoint[of p m] scan_next(2) by (auto simp: new_sub_def)
  also have "\<dots> \<subseteq> K" using scan_next(1,5,6) by simp
  finally show ?case by (simp only: records_update)
qed (auto simp: records_def)

lemma from_hsm_step:
  assumes "system_act E B s s'" "from_hsm s" "agree s"
  shows "from_hsm s'"
  using assms
proof (induction rule: system_act.induct)
  case (classify_endpoints s m)
  note move = pass_move_addresses pass_move_endpoints pass_move_map
  have "known (s_world m) = known (shared s)" using move(3)[OF classify_endpoints(1)] by (simp add: known_def)
  with move(1-4)[OF classify_endpoints(1)] classify_endpoints(3) show ?case by (simp add: from_hsm_def, blast)
next
  case (poll s m)
  from poll(5) have w: "q_world (y_pool s) = shared s" by (simp add: agree_def)
  from poll(4) pool_move_rounds[OF poll(1)] w have "from_hsm (s\<lparr>y_pool := m\<rparr>)" by (auto simp: from_hsm_def)
  from from_hsm_share[OF this] pool_move_grows[OF poll(1)] w show ?case by simp
next
  case (subscribe s m)
  from subscribe(4) have w: "m_world (y_monitor s) = shared s" by (simp add: agree_def)
  from subscribe(3) sub_move_scan[OF subscribe(1)] w have "from_hsm (s\<lparr>y_monitor := m\<rparr>)" by (simp add: from_hsm_def)
  from from_hsm_share[OF this] sub_move_grows[OF subscribe(1)] w show ?case by simp
next
  case (proceed s l)
  then show ?case by (simp add: from_hsm_def)
next
  case (refresh s w)
  then show ?case by (intro from_hsm_share refresh_grows) (simp_all add: from_hsm_def)
next
  case (request s meth escapedPath urlPath body r w)
  then show ?case by (intro from_hsm_share service_grows(1))
next
  case (watch_sma s host first change w)
  then show ?case by (intro from_hsm_share service_grows(2))
next
  case (renew_client s w)
  then show ?case by (intro from_hsm_share service_grows(3))
qed

lemma from_hsm_run:
  assumes "system_reaches E B s s'" "from_hsm s" "agree s"
  shows "from_hsm s'"
  using assms
proof (induction rule: rtranclp_induct)
  case (step y z)
  then have "agree y" using composed_run[OF step(1)] by (simp add: composed_def)
  with step show ?case by (auto simp: system_step_def intro: from_hsm_step)
qed

text \<open>The map of endpoints only grows.\<close>

lemma map_grows_step:
  assumes "system_act E B s s'" "from_hsm s" "agree s"
  shows "set (w_HSMEndpoints (shared s)) \<subseteq> set (w_HSMEndpoints (shared s'))"
  using assms
proof (induction rule: system_act.induct)
  case (classify_endpoints s m)
  from pass_move_map(1)[OF classify_endpoints(1)] show ?case by simp
next
  case (poll s m)
  from pool_move_grows[OF poll(1)] poll(5) show ?case by (simp add: grows_def agree_def)
next
  case (subscribe s m)
  from sub_move_grows[OF subscribe(1)] subscribe(4) show ?case by (simp add: grows_def agree_def)
next
  case (refresh s w)
  from refresh_grows[OF refresh(2)] refresh(3) show ?case by (simp add: grows_def from_hsm_def)
next
  case (request s meth escapedPath urlPath body r w)
  from service_grows(1)[OF request(2)] show ?case by (simp add: grows_def)
next
  case (watch_sma s host first change w)
  from service_grows(2)[OF watch_sma(3)] show ?case by (simp add: grows_def)
next
  case (renew_client s w)
  from service_grows(3)[OF renew_client(2)] show ?case by (simp add: grows_def)
qed simp

text \<open>Every record of the subscription monitor is for an endpoint of the map.\<close>

definition works_on_known :: "'e system \<Rightarrow> bool" where
  "works_on_known s \<longleftrightarrow> sub_Endpoint ` records (y_monitor s) \<subseteq> known (shared s)"

lemma records_step:
  assumes "system_act E B s s'" "set (m_scan (y_monitor s)) \<subseteq> K" "sub_Endpoint ` records (y_monitor s) \<subseteq> K"
  shows "sub_Endpoint ` records (y_monitor s') \<subseteq> K"
  using assms
  by (induction rule: system_act.induct) (simp_all add: records_update sub_move_records)

lemma works_on_known_step:
  assumes "system_act E B s s'" "from_hsm s" "agree s" "works_on_known s"
  shows "works_on_known s'"
proof -
  have "sub_Endpoint ` records (y_monitor s') \<subseteq> known (shared s)"
    using assms(2,4) by (intro records_step[OF assms(1)]) (simp_all add: from_hsm_def works_on_known_def)
  also have "\<dots> \<subseteq> known (shared s')" using map_grows_step[OF assms(1-3)] by (auto simp: known_def)
  finally show ?thesis by (simp add: works_on_known_def)
qed

lemma agree_run: "system_reaches E B s s' \<Longrightarrow> agree s \<Longrightarrow> agree s'"
  using composed_run by (auto simp: composed_def)

lemma map_grows_run:
  assumes "system_reaches E B s s'" "from_hsm s" "agree s"
  shows "set (w_HSMEndpoints (shared s)) \<subseteq> set (w_HSMEndpoints (shared s'))"
  using assms
proof (induction rule: rtranclp_induct)
  case (step y z)
  with map_grows_step[of E B y z] from_hsm_run[OF step(1)] agree_run[OF step(1)] show ?case
    by (auto simp: system_step_def)
qed simp

lemma works_on_known_run:
  assumes "system_reaches E B s s'" "from_hsm s" "agree s" "works_on_known s"
  shows "works_on_known s'"
  using assms
proof (induction rule: rtranclp_induct)
  case (step y z)
  with works_on_known_step[of E B y z] from_hsm_run[OF step(1)] agree_run[OF step(1)] show ?case
    by (auto simp: system_step_def)
qed simp

lemma system0_from_hsm:
  assumes "hsm_ok w" "set (map ec_Endpoint (w_endpoints w) @ w_nonPolledEndpoints w) \<subseteq> known w"
  shows "from_hsm (system0 l w)" "works_on_known (system0 l w)"
  using assms
  by (simp_all add: from_hsm_def works_on_known_def pass0_def pool0_def monitor0_def addresses_def pending_def busy_def hsm_ok_def
      known_def records_def)

section \<open>A run\<close>

text \<open>One Intel server that is polled; Kafka, Vault and the client answer at once.\<close>

definition busy_world :: "unit world" where
  "busy_world = pool_world\<lparr>w_nonPolledEndpoints := []\<rparr>"

definition unit_boot :: "unit boot" where
  "unit_boot = \<lparr> bt_Open = (\<lambda>e. (Inr one_broker_file, e)), bt_NewProducer = (\<lambda>a e. (True, e)),
     bt_NewVaultAdapter = (\<lambda>e. (True, e)), bt_Running = (\<lambda>e. (True, e)), bt_Exec = (\<lambda>c e. ((''pingtrue'', True), e)),
     bt_CreateClient = (\<lambda>ca t e. (True, e)), bt_SetConfigParam = (\<lambda>p v e. ((), e)), bt_InitInstance = (\<lambda>n e. ((), e)),
     bt_CAUpdateRegister = (\<lambda>ca e. (True, e)), bt_ServiceName = (\<lambda>e. (None, e)), bt_Flush = (\<lambda>a e. (0, e)),
     bt_Getenv = (\<lambda>n. []), bt_httpTimeout = 10, bt_fuel = 1 \<rparr>"

lemma busy_setup:
  "case main_setup empty_env unit_boot busy_world of (r, w) \<Rightarrow>
     r = Ret (Some True) \<and> w_endpoints w = [intel_endpoint] \<and> w_nonPolledEndpoints w = []
     \<and> w_HSMEndpoints w = [(''x0c0s1b0'', 0), (''x0c0s2b0'', 1)] \<and> w_nextEp w = 2
     \<and> ep_ID (w_ep w 0) = ''x0c0s1b0'' \<and> ep_ID (w_ep w 1) = ''x0c0s2b0''
     \<and> (case collectData empty_env intel_endpoint (w\<lparr>w_jsonPayloads := []\<rparr>) of (r', w') \<Rightarrow>
          r' = Ret () \<and> length (w_jsonPayloads w') = 3)"
  by code_simp

definition set_up_life :: life where
  "set_up_life = life0\<lparr>l_main := StartRefresh\<rparr>"

definition polling_life :: life where
  "polling_life = set_up_life\<lparr>l_refresh := AtTest, l_WaitGroup := 2, l_polling := Working, l_monitor := AtTest, l_main := StartSubscribe\<rparr>"

lemma set_up_reached: "life_reaches (settings_of empty_env) life0 set_up_life"
  using life_act.setup_done[of life0 "settings_of empty_env"]
  by (intro r_into_rtranclp) (simp add: life_step_def alive_def life0_def set_up_life_def)

lemma polling_reached: "life_reaches (settings_of empty_env) set_up_life polling_life"
proof -
  let ?c = "settings_of empty_env"
  let ?a = "set_up_life\<lparr>l_refresh := AtTest, l_main := StartPolling\<rparr>"
  let ?b = "?a\<lparr>l_WaitGroup := 2, l_polling := Starting, l_main := StartSubscribe\<rparr>"
  let ?d = "?b\<lparr>l_polling := AtTest, l_monitor := AtTest\<rparr>"
  have "life_step ?c set_up_life ?a" "life_step ?c ?a ?b" "life_step ?c ?b ?d" "life_step ?c ?d polling_life"
    using life_act.start_refresh[of set_up_life ?c] life_act.start_polling[of ?a ?c] life_act.start_monitor[of ?b ?c]
      life_act.polling[of ?d Working ?c] polling_step.poll_again
    by (simp_all add: life_step_def alive_def set_up_life_def polling_life_def life0_def settings_of_def empty_env_def env0_def finished_def)
  then show ?thesis by (meson converse_rtranclp_into_rtranclp rtranclp.rtrancl_refl)
qed

text \<open>The life of the process alone can go on while the parts wait.\<close>

lemma lives_on:
  assumes "life_reaches (settings_of E) (y_life s) l" "s_panicked (y_pass s) = None" "q_panicked (y_pool s) = None"
  shows "system_reaches E B s (s\<lparr>y_life := l\<rparr>)"
  using assms(1)
proof (induction rule: rtranclp_induct)
  case (step l l')
  from step(2) have "system_step E B (s\<lparr>y_life := l\<rparr>) (s\<lparr>y_life := l'\<rparr>)"
    using system_act.proceed[of E "s\<lparr>y_life := l\<rparr>" l' B] assms(2,3) by (simp add: system_step_def going_def life_step_def)
  with step(3) show ?case by (rule rtranclp.rtrancl_into_rtrancl)
qed simp

text \<open>After the set-up the Intel server is read once; its readings are still to be sent.\<close>

lemma system_busy:
  obtains w s where "main_setup empty_env unit_boot busy_world = (Ret (Some True), w)" "hsm_ok w"
    "set (map ec_Endpoint (w_endpoints w) @ w_nonPolledEndpoints w) \<subseteq> known w"
    "system_reaches empty_env unit_boot (system0 set_up_life w) s" "length (q_made (y_pool s)) = 3" "going s"
    "l_Running (y_life s)" "poll_ids (shared s) = [''x0c0s1b0'']" "w_HSMEndpoints w = [(''x0c0s1b0'', 0), (''x0c0s2b0'', 1)]"
proof -
  obtain w w' where w: "main_setup empty_env unit_boot busy_world = (Ret (Some True), w)"
    "w_endpoints w = [intel_endpoint]" "w_nonPolledEndpoints w = []" "w_HSMEndpoints w = [(''x0c0s1b0'', 0), (''x0c0s2b0'', 1)]"
    "w_nextEp w = 2" "ep_ID (w_ep w 0) = ''x0c0s1b0''" "ep_ID (w_ep w 1) = ''x0c0s2b0''"
    and run: "collectData empty_env intel_endpoint (w\<lparr>w_jsonPayloads := []\<rparr>) = (Ret (), w')" "length (w_jsonPayloads w') = 3"
    using busy_setup by (auto split: prod.splits)
  let ?s0 = "system0 set_up_life w"
  let ?s1 = "?s0\<lparr>y_life := polling_life\<rparr>"
  let ?m2 = "(pool0 w)\<lparr>q_round := [intel_endpoint]\<rparr>"
  let ?s2 = "share (q_world ?m2) (?s1\<lparr>y_pool := ?m2\<rparr>)"
  let ?m3 = "?m2\<lparr>q_round := [], q_world := w'\<lparr>w_jsonPayloads := []\<rparr>, q_collecting := [w_jsonPayloads w'], q_made := w_jsonPayloads w'\<rparr>"
  let ?s3 = "share (q_world ?m3) (?s2\<lparr>y_pool := ?m3\<rparr>)"
  have none: "s_panicked (pass0 (w\<lparr>w_jsonPayloads := []\<rparr>)) = None" "q_panicked (pool0 w) = None" "going ?s1"
    by (simp_all add: pass0_def pool0_def going_def alive_def polling_life_def)
  have "system_reaches empty_env unit_boot ?s0 ?s1" using polling_reached none(1,2) by (intro lives_on) simp_all
  moreover have "pool_move empty_env (pool0 w) ?m2"
    using pool_move.begin_round[of "pool0 w" empty_env] w(2) by (simp add: pool0_def)
  then have "system_act empty_env unit_boot ?s1 ?s2"
    by (intro system_act.poll) (simp_all add: polling_life_def pool0_def)
  then have "system_step empty_env unit_boot ?s1 ?s2" using none(3) by (simp add: system_step_def)
  moreover have "collected empty_env intel_endpoint (?m2\<lparr>q_round := []\<rparr>) ?m3"
    using run(1) by (simp add: collected_def pool0_def)
  then have "pool_move empty_env ?m2 ?m3"
    by (intro pool_move.hand_over[of _ intel_endpoint "[]"]) (simp_all add: pool0_def NumWorkers_def)
  then have "system_act empty_env unit_boot ?s2 ?s3"
    by (intro system_act.poll) (simp_all add: pool0_def)
  then have "system_step empty_env unit_boot ?s2 ?s3"
    using none(3) by (simp add: system_step_def going_def pass0_def pool0_def)
  ultimately have reached: "system_reaches empty_env unit_boot ?s0 ?s3" by (meson rtranclp.rtrancl_into_rtrancl)
  from keepsD[OF pool_leaves.keeps_collectData run(1)] have kept: "w_endpoints w' = [intel_endpoint]"
    "w_nonPolledEndpoints w' = []" "identity (w_ep w' 0) = identity (w_ep w 0)"
    using w(2,3) by (auto simp: fun_eq_iff)
  from identity_eqD(1)[OF kept(3)] kept(1,2) w(6) have "poll_ids (shared ?s3) = [''x0c0s1b0'']"
    by (simp add: poll_ids_def intel_endpoint_def)
  moreover have "hsm_ok w" "set (map ec_Endpoint (w_endpoints w) @ w_nonPolledEndpoints w) \<subseteq> known w"
    using w by (simp_all add: hsm_ok_def known_def intel_endpoint_def)
  ultimately show thesis
    using reached w(1,4) run(2) none(3)
    by (intro that[of w ?s3]) (simp_all add: going_def pass0_def pool0_def polling_life_def set_up_life_def life0_def)
qed

section \<open>Properties\<close>

text \<open>
  C13: the parts compose. However the passes, the worker pool, the subscription monitor, the refreshes, the
  requests to the server, the watch of the SMA broker and the life of the process interleave on the
  state they share, what each part does is a run of that part alone: what the others do to the shared state is
  no more than it was verified against. So every property of the parts holds in the whole process,
  and all parts see the same state.
\<close>

theorem components_compose:
  assumes "system_reaches E B (system0 l w) s"
  shows "pass_reaches E (pass0 (w\<lparr>w_jsonPayloads := []\<rparr>)) (y_pass s) \<and> pool_reaches E (pool0 w) (y_pool s)
     \<and> reaches E (monitor0 (w\<lparr>w_jsonPayloads := []\<rparr>)) (y_monitor s) \<and> life_reaches (settings_of E) l (y_life s)
     \<and> q_world (y_pool s) = s_world (y_pass s) \<and> m_world (y_monitor s) = s_world (y_pass s)"
  using system_run[OF assms] by (simp add: composed_def agree_def)

theorem components_compose_witness:
  "\<exists>w (s::unit system). length (q_made (y_pool s)) = 3 \<and> pool_reaches empty_env (pool0 w) (y_pool s) \<and> q_world (y_pool s) = s_world (y_pass s)"
proof -
  obtain w s where "system_reaches empty_env unit_boot (system0 set_up_life w) s" "length (q_made (y_pool s)) = 3"
    by (rule system_busy)
  with components_compose[OF this(1)] show ?thesis by blast
qed

text \<open>
  C16: the collector works only on endpoints of the State Manager, and loses none. In every reachable state of the process, every
  endpoint that is polled or ignored, every endpoint registered for subscriptions and every endpoint a goroutine of the subscription monitor
  is to work on is one of the map of endpoints, and the workers read only endpoints that have been classified. And
  whatever the process does from a reachable state on: every endpoint that was in the map is still there, under its xname and with the
  same description, and the map is well formed.
\<close>

theorem only_known_endpoints:
  assumes "hsm_ok w" "set (map ec_Endpoint (w_endpoints w) @ w_nonPolledEndpoints w) \<subseteq> known w"
    and "system_reaches E B (system0 l w) s" "system_reaches E B s s'"
  shows "set (w_HSMEndpoints (shared s)) \<subseteq> set (w_HSMEndpoints (shared s')) \<and> hsm_ok (shared s')
     \<and> set (poll_ids (shared s')) \<union> dom (m_endpoints (y_monitor s')) \<subseteq> fst ` set (w_HSMEndpoints (shared s'))
     \<and> sub_Endpoint ` records (y_monitor s') \<subseteq> known (shared s')
     \<and> set (q_round (y_pool s')) \<union> set (q_pending (y_pool s')) \<subseteq> set (w_endpoints (shared s'))"
proof -
  note start = system0_from_hsm(1)[OF assms(1,2)] system0_agree(1)
  from works_on_known_run[OF rtranclp_trans[OF assms(3,4)] start system0_from_hsm(2)[OF assms(1,2)]]
  have work: "sub_Endpoint ` records (y_monitor s') \<subseteq> known (shared s')" by (simp add: works_on_known_def)
  from from_hsm_run[OF rtranclp_trans[OF assms(3,4)] start] have ok: "from_hsm s'" .
  then have "set (map ec_Endpoint (w_endpoints (shared s')) @ w_nonPolledEndpoints (shared s')) \<subseteq> known (shared s')"
    unfolding from_hsm_def addresses_def by blast
  then have "set (poll_ids (shared s')) \<subseteq> fst ` set (w_HSMEndpoints (shared s'))"
    using ok known_ID[of "shared s'"] by (auto simp: poll_ids_def from_hsm_def)
  moreover have "set (w_HSMEndpoints (shared s)) \<subseteq> set (w_HSMEndpoints (shared s'))"
    using map_grows_run[OF assms(4)] from_hsm_run[OF assms(3) start] agree_run[OF assms(3) start(2)] by blast
  ultimately show ?thesis using ok work by (simp add: from_hsm_def)
qed

theorem only_known_endpoints_witness:
  "\<exists>w (s::unit system). system_reaches empty_env unit_boot (system0 set_up_life w) s \<and> w_HSMEndpoints w = [(''x0c0s1b0'', 0), (''x0c0s2b0'', 1)]
     \<and> {(''x0c0s1b0'', 0), (''x0c0s2b0'', 1)} \<subseteq> set (w_HSMEndpoints (shared s)) \<and> poll_ids (shared s) = [''x0c0s1b0'']
     \<and> length (q_made (y_pool s)) = 3"
proof -
  obtain w s where s: "hsm_ok w" "set (map ec_Endpoint (w_endpoints w) @ w_nonPolledEndpoints w) \<subseteq> known w"
    "system_reaches empty_env unit_boot (system0 set_up_life w) s" "poll_ids (shared s) = [''x0c0s1b0'']" "length (q_made (y_pool s)) = 3"
    "w_HSMEndpoints w = [(''x0c0s1b0'', 0), (''x0c0s2b0'', 1)]"
    by (rule system_busy)
  have "shared (system0 set_up_life w) = w\<lparr>w_jsonPayloads := []\<rparr>" by (rule system0_agree(2))
  with only_known_endpoints[OF s(1,2) rtranclp.rtrancl_refl s(3)] s(3-6) show ?thesis
    by (intro exI[of _ w] exI[of _ s]) (simp add: subset_iff)
qed

text \<open>
  C14: a process that has been set up stays able to work. In every state it can reach, the readiness probe
  answers 204, no message fails for a missing producer, the flush at the end of the process cannot fail,
  and as long as the process is not told to stop, no collector can send to a closed channel.
\<close>

theorem stays_ready:
  assumes "main_setup E B w0 = (Ret (Some watch), w)" "life_reaches (settings_of E) life0 l"
    and "system_reaches E B (system0 l w) s"
  shows "doReadiness (shared s) = (Ret (204, []), shared s) \<and> fst (writeToKafka E topic payload key (shared s)) = Ret ()
     \<and> fst (flush_brokers B (shared s)) = Ret () \<and> (l_Running (y_life s) \<longrightarrow> \<not> q_closed (y_pool s))"
proof -
  from system_run[OF assms(3)] have "w_kafkaBrokers (shared s) = w_kafkaBrokers w"
    by (simp add: composed_def pass0_def)
  with main_setup_ready[OF assms(1)] have ready: "brokers_ready (w_kafkaBrokers (shared s))" "w_kafkaBrokers (shared s) \<noteq> []" by simp_all
  have "fst (writeToKafka E topic payload key (shared s)) = Ret ()"
    using produce_returns[OF ready(1), of E "\<lparr> km_Topic = topic, km_Key = key, km_Value = payload,
        km_Timestamp = fst (env_Now E (w_ext (shared s))) \<rparr>" "(shared s)\<lparr>w_ext := snd (env_Now E (w_ext (shared s)))\<rparr>"]
    by (auto simp: writeToKafka_def)
  moreover from stops_last_run[OF assms(2,3)] have "l_Running (y_life s) \<longrightarrow> \<not> q_closed (y_pool s)"
    by (auto simp: stops_last_def)
  ultimately show ?thesis using ready flush_returns[of "shared s" B] doReadiness_eq[of "shared s"] by simp
qed

theorem stays_ready_witness:
  "\<exists>s::unit system. length (q_made (y_pool s)) = 3 \<and> doReadiness (shared s) = (Ret (204, []), shared s) \<and> \<not> q_closed (y_pool s)"
proof -
  obtain w s where s: "main_setup empty_env unit_boot busy_world = (Ret (Some True), w)"
    "system_reaches empty_env unit_boot (system0 set_up_life w) s" "length (q_made (y_pool s)) = 3" "l_Running (y_life s)"
    by (rule system_busy)
  from stays_ready[OF s(1) set_up_reached s(2)] s(3,4) show ?thesis by blast
qed

text \<open>
  C15: while the process runs, every reading can be published. From every state that a process that was set up can
  reach before it is told to stop, unless a goroutine has panicked, the workers can go on, without any help of
  the other parts, to a state in which every payload made has been published, each once.
\<close>

theorem readings_get_through:
  assumes "main_setup E B w0 = (Ret (Some watch), w)" "life_reaches (settings_of E) life0 l"
    and "system_reaches E B (system0 l w) s" "going s" "l_Running (y_life s)"
  shows "\<exists>s'. system_reaches E B s s' \<and> going s' \<and> q_made (y_pool s') = q_made (y_pool s)
     \<and> mset (q_published (y_pool s')) = mset (q_made (y_pool s'))"
proof -
  from system_run[OF assms(3)] have "w_kafkaBrokers (q_world (y_pool s)) = w_kafkaBrokers w"
    by (simp add: composed_def agree_def pass0_def)
  with main_setup_ready[OF assms(1)] stops_last_run[OF assms(2,3)] assms(4,5) have "PollMachine.running (y_pool s)"
    by (auto simp: PollMachine.running_def stops_last_def going_def)
  from system_drain[OF assms(4) this] obtain s' where s': "system_reaches E B s s'" "backlog (y_pool s') = 0"
    "q_made (y_pool s') = q_made (y_pool s)" "going s'" by blast
  from system_run[OF rtranclp_trans[OF assms(3) s'(1)]] have "pool_reaches E (pool0 w) (y_pool s')" by (simp add: composed_def)
  from pool_reaches_ok[OF this] s'(2,4) have "mset (q_published (y_pool s')) = mset (q_made (y_pool s'))"
    by (auto simp: pool_ok_def pool0_def backlog_def going_def)
  with s' show ?thesis by blast
qed

theorem readings_get_through_witness:
  "\<exists>s::unit system. length (q_made (y_pool s)) = 3 \<and> mset (q_published (y_pool s)) = mset (q_made (y_pool s))"
proof -
  obtain w s where s: "main_setup empty_env unit_boot busy_world = (Ret (Some True), w)"
    "system_reaches empty_env unit_boot (system0 set_up_life w) s" "length (q_made (y_pool s)) = 3" "going s" "l_Running (y_life s)"
    by (rule system_busy)
  from readings_get_through[OF s(1) set_up_reached s(2,4,5)] s(3) show ?thesis by metis
qed

end
