(* ===== verification/Memo.thy ===== *)
theory Memo
  imports System
begin

text \<open>
  The cache of Redfish kinds in the running process. Only the goroutines of the subscription monitor write to it
  (\<^verbatim>\<open>getDestination\<close> of \<^verbatim>\<open>rf_subscriptions.go\<close> calls \<^verbatim>\<open>GetRedfishType\<close> of \<^verbatim>\<open>rf.go\<close>), each for the
  endpoint it works on; every other part leaves the cache alone. So a kind stays in the cache until
  the endpoint is discovered again.
\<close>

section \<open>The goroutines of the monitor\<close>

text \<open>
  The kind \<open>k\<close> is in the cache for the xname \<open>i\<close> and the discovery \<open>d\<close>, and the description at \<open>q\<close>, if it is
  that of \<open>i\<close>, is of that discovery.
\<close>

definition kind_cached :: "string \<Rightarrow> string \<Rightarrow> RfType \<Rightarrow> nat \<Rightarrow> 'e world \<Rightarrow> bool" where
  "kind_cached i d k q w \<longleftrightarrow> ReadRfType (w_endpointsCache w) i d = k
     \<and> (ep_ID (w_ep w q) = i \<longrightarrow> di_LastAttempt (ep_DiscInfo (w_ep w q)) = d)"

lemma cached_http: "always (kind_cached i d k q) (doHTTPAction E p m u b)"
proof (rule alwaysI)
  fix w r w' assume "kind_cached i d k q w" "doHTTPAction E p m u b w = (r, w')"
  with http_cache[OF this(2)] identity_eqD(1,3)[OF http_identity[OF this(2), of q]] show "kind_cached i d k q w'"
    by (simp add: kind_cached_def)
qed

lemma cached_httpGet: "always (kind_cached i d k q) (httpGetRedfishType E p)"
  unfolding httpGetRedfishType_def readEp_def by (intro inv_rules cached_http)

lemma httpGet_identity: "httpGetRedfishType E p w = (r, w') \<Longrightarrow> identity (w_ep w' q) = identity (w_ep w q)"
  using keepsD[OF frame_identity.keeps_httpGetRedfishType] by meson

lemma cached_GetRedfishType:
  assumes "k \<noteq> UnsetRfType"
  shows "always (kind_cached i d k q) (GetRedfishType E q)"
proof (rule alwaysI)
  fix w r w' assume c: "kind_cached i d k q w" and run: "GetRedfishType E q w = (r, w')"
  show "kind_cached i d k q w'"
  proof (cases "ep_ID (w_ep w q) = i")
    case True
    with c assms GetRedfishType_hit[of w q k E] run show ?thesis by (simp add: kind_cached_def)
  next
    case other: False
    show ?thesis
    proof (cases "ReadRfType (w_endpointsCache w) (ep_ID (w_ep w q)) (di_LastAttempt (ep_DiscInfo (w_ep w q))) = UnsetRfType")
      case False
      with GetRedfishType_hit[OF refl False] run c show ?thesis by simp
    next
      case True
      obtain r1 w1 where h: "httpGetRedfishType E q w = (r1, w1)" by fastforce
      have c1: "kind_cached i d k q w1" using alwaysD[OF cached_httpGet c h] .
      have "ep_ID (w_ep w1 q) \<noteq> i" using other identity_eqD(1)[OF httpGet_identity[OF h, of q]] by simp
      with c1 have c2: "kind_cached i d k q (w1\<lparr>w_endpointsCache := WriteRfType (w_endpointsCache w1) (ep_ID (w_ep w1 q)) t k'\<rparr>)" for t k'
        by (simp add: kind_cached_def endpointsCache.get_put)
      from run True h c1 c2 show ?thesis
        by (auto simp: GetRedfishType_def thenIO_def elim!: bindIO_cases)
    qed
  qed
qed

lemma cached_getDestination: "k \<noteq> UnsetRfType \<Longrightarrow> always (kind_cached i d k q) (getDestination E q)"
  unfolding getDestination_def checkILO_def checkOpenBmc_def readEp_def Let_def
  by (intro inv_rules cached_http cached_GetRedfishType)

lemma cached_isDup_members: "k \<noteq> UnsetRfType \<Longrightarrow> always (kind_cached i d k q) (isDup_members E q u rp ms)"
proof (induction ms)
  case (Cons m ms)
  then show ?case
    unfolding isDup_members.simps fixSubscriptionMismatch_def deleteSubscriptionForWrongXname_def readEp_def Let_def
    by (intro inv_rules cached_http cached_getDestination)
qed simp

lemma cached_isDup: "k \<noteq> UnsetRfType \<Longrightarrow> always (kind_cached i d k q) (isDupRFSubscription E q rp)"
  unfolding isDupRFSubscription_def readEp_def by (intro inv_rules cached_http cached_isDup_members)

lemma cached_prune: "always (kind_cached i d k q) (prune E q)"
  unfolding prune_def prune_member_def getSubscriptions_def getSubscription_def deleteSubscriptionForWrongXname_def readEp_def
  by (intro inv_rules cached_http)

lemma cached_status: "always (kind_cached i d k q) (writeStatus n st)"
  unfolding writeStatus_def by (intro inv_rules) (simp add: kind_cached_def)

lemma cached_subscribe_group: "k \<noteq> UnsetRfType \<Longrightarrow> always (kind_cached i d k (sub_Endpoint s)) (subscribe_group E s g)"
  unfolding subscribe_group_def appendGroup_def doGetEventTypes_def postRFSubscription_def readEp_def Let_def
  by (intro inv_rules cached_http cached_isDup cached_getDestination cached_status) (simp_all add: kind_cached_def)

lemma cached_verify_group: "k \<noteq> UnsetRfType \<Longrightarrow> always (kind_cached i d k (sub_Endpoint s)) (verify_group E s g)"
  unfolding verify_group_def by (intro inv_rules cached_isDup cached_status)

lemma sub_move_cached:
  assumes "sub_move E m m'" "k \<noteq> UnsetRfType" "\<And>q. q \<in> sub_Endpoint ` records m \<Longrightarrow> kind_cached i d k q (m_world m)"
    "ReadRfType (w_endpointsCache (m_world m)) i d = k"
  shows "ReadRfType (w_endpointsCache (m_world m')) i d = k"
  using assms(1)
proof (cases rule: sub_move.cases)
  case (scan_next p ps m1)
  then show ?thesis using assms(4)
    by (simp add: scan_endpoint_def enqueue_new_def enqueue_verify_def Let_def split: option.split)
next
  case (run_prune js s ks w')
  then have "kind_cached i d k (sub_Endpoint s) (m_world m)" by (intro assms(3)) (simp add: records_def)
  from alwaysD[OF cached_prune this run_prune(3)] run_prune(1) show ?thesis by (simp add: kind_cached_def)
next
  case (run_group js s g gs ks w')
  then have "kind_cached i d k (sub_Endpoint s) (m_world m)" by (intro assms(3)) (simp add: records_def)
  from alwaysD[OF cached_subscribe_group[OF assms(2)] this run_group(3)] run_group(1) show ?thesis by (simp add: kind_cached_def)
next
  case (run_verify js s g gs ks w')
  then have "kind_cached i d k (sub_Endpoint s) (m_world m)" by (intro assms(3)) (simp add: records_def)
  from alwaysD[OF cached_verify_group[OF assms(2)] this run_verify(3)] run_verify(1) show ?thesis by (simp add: kind_cached_def)
qed (use assms(4) in \<open>auto simp: writeStatus_def\<close>)

section \<open>The other parts\<close>

interpretation pass_leaves_cache: pass_guarantee w_endpointsCache
  by unfold_locales simp_all

interpretation pool_leaves_cache: pool_guarantee w_endpointsCache
  by unfold_locales simp_all

interpretation services_leave_cache: service_guarantee w_endpointsCache
  by unfold_locales simp_all

lemma refresh_leaves_cache: "keeps w_endpointsCache (doUpdateHSMEndpoints E)"
  unfolding doUpdateHSMEndpoints_def GetEndpointList_def update_endpoint_def allocEp_def Let_def writeEp_def
  by (intro frame_rules frame_cache.keeps_ext frame_cache.keeps_update) simp_all

section \<open>The whole process\<close>

text \<open>When the endpoint at \<open>p\<close> was last discovered, and what the cache has for it.\<close>

definition discovered :: "nat \<Rightarrow> 'e system \<Rightarrow> string" where
  "discovered p s = di_LastAttempt (ep_DiscInfo (w_ep (shared s) p))"

definition remembered :: "nat \<Rightarrow> 'e system \<Rightarrow> RfType" where
  "remembered p s = ReadRfType (w_endpointsCache (shared s)) (ep_ID (w_ep (shared s) p)) (discovered p s)"

lemma known_entry: "hsm_ok w \<Longrightarrow> p \<in> known w \<Longrightarrow> (ep_ID (w_ep w p), p) \<in> set (w_HSMEndpoints w)"
  by (auto simp: hsm_ok_def known_def list_all_iff)

lemma entry_ID: "hsm_ok w \<Longrightarrow> (i, p) \<in> set (w_HSMEndpoints w) \<Longrightarrow> ep_ID (w_ep w p) = i \<and> p \<in> known w"
  by (force simp: hsm_ok_def known_def list_all_iff)

lemma same_address:
  assumes "hsm_ok w" "p \<in> known w" "q \<in> known w" "ep_ID (w_ep w p) = ep_ID (w_ep w q)"
  shows "p = q"
proof (rule eq_key_imp_eq_value)
  show "distinct (map fst (w_HSMEndpoints w))" using assms(1) by (simp add: hsm_ok_def)
  show "(ep_ID (w_ep w p), p) \<in> set (w_HSMEndpoints w)" by (rule known_entry[OF assms(1,2)])
  show "(ep_ID (w_ep w p), q) \<in> set (w_HSMEndpoints w)" using known_entry[OF assms(1,3)] assms(4) by simp
qed

lemma cache_step:
  assumes "system_act E B s s'" "from_hsm s" "agree s" "works_on_known s" "p \<in> known (shared s)"
    "remembered p s = k" "k \<noteq> UnsetRfType"
  shows "ReadRfType (w_endpointsCache (shared s')) (ep_ID (w_ep (shared s) p)) (discovered p s) = k"
  using assms
proof (induction rule: system_act.induct)
  case (classify_endpoints s m)
  with pass_leaves_cache.move_keeps[OF classify_endpoints(1)] show ?case by (simp add: remembered_def)
next
  case (poll s m)
  with pool_leaves_cache.move_keeps[OF poll(1)] show ?case by (simp add: remembered_def agree_def)
next
  case (subscribe s m)
  let ?i = "ep_ID (w_ep (shared s) p)"
  have w: "m_world (y_monitor s) = shared s" using subscribe(4) by (simp add: agree_def)
  have "kind_cached ?i (discovered p s) k q (m_world (y_monitor s))" if "q \<in> sub_Endpoint ` records (y_monitor s)" for q
  proof -
    have "q \<in> known (shared s)" using that subscribe(5) by (auto simp: works_on_known_def)
    with same_address[of "shared s" p q] subscribe(3,6) have "ep_ID (w_ep (shared s) q) = ?i \<Longrightarrow> q = p"
      by (simp add: from_hsm_def)
    with subscribe(7) w show ?thesis
      by (auto simp: kind_cached_def remembered_def discovered_def)
  qed
  from sub_move_cached[OF subscribe(1,8) this] subscribe(7) w show ?case by (simp add: remembered_def)
next
  case (refresh s w)
  with keepsD[OF refresh_leaves_cache refresh(2)] show ?case by (simp add: remembered_def)
next
  case (request s meth escapedPath urlPath body r w)
  with keepsD[OF services_leave_cache.keeps_serve request(2)] show ?case by (simp add: remembered_def)
next
  case (watch_sma s host first change w)
  with keepsD[OF services_leave_cache.keeps_sma_check watch_sma(3)] show ?case by (simp add: remembered_def)
next
  case (renew_client s w)
  with keepsD[OF services_leave_cache.keeps_caChangeCB renew_client(2)] show ?case by (simp add: remembered_def)
qed (simp add: remembered_def)

text \<open>A step at which the endpoint at \<open>p\<close> is not discovered again.\<close>

definition step_between :: "'e env \<Rightarrow> 'e boot \<Rightarrow> nat \<Rightarrow> 'e system \<Rightarrow> 'e system \<Rightarrow> bool" where
  "step_between E B p s s' \<longleftrightarrow> system_step E B s s' \<and> discovered p s' = discovered p s"

lemma between_run: "(step_between E B p)\<^sup>*\<^sup>* s s' \<Longrightarrow> system_reaches E B s s'"
  by (rule rtranclp_mono[THEN predicate2D]) (auto simp: step_between_def)

lemma known_stays:
  assumes "set (w_HSMEndpoints w) \<subseteq> set (w_HSMEndpoints w')" "hsm_ok w" "hsm_ok w'" "p \<in> known w"
  shows "p \<in> known w' \<and> ep_ID (w_ep w' p) = ep_ID (w_ep w p)"
  using entry_ID[OF assms(3)] known_entry[OF assms(2,4)] assms(1) by blast

lemma remembered_run:
  assumes "(step_between E B p)\<^sup>*\<^sup>* s s'" "from_hsm s" "agree s" "works_on_known s" "p \<in> known (shared s)"
    "remembered p s = k" "k \<noteq> UnsetRfType"
  shows "remembered p s' = k \<and> p \<in> known (shared s')"
  using assms(1)
proof (induction rule: rtranclp_induct)
  case base
  with assms show ?case by simp
next
  case (step y z)
  note run = between_run[OF step(1)]
  have y: "from_hsm y" "agree y" "works_on_known y"
    using from_hsm_run[OF run assms(2,3)] agree_run[OF run assms(3)] works_on_known_run[OF run assms(2-4)] .
  have act: "system_act E B y z" and d: "discovered p z = discovered p y"
    using step(2) by (simp_all add: step_between_def system_step_def)
  have "p \<in> known (shared z) \<and> ep_ID (w_ep (shared z) p) = ep_ID (w_ep (shared y) p)"
    using map_grows_step[OF act y(1,2)] y(1) from_hsm_step[OF act y(1,2)] step(3)
    by (intro known_stays) (simp_all add: from_hsm_def)
  with cache_step[OF act y] step(3) assms(7) d show ?case by (simp add: remembered_def)
qed

section \<open>A run\<close>

text \<open>A refresh that reports the discovery again that the kind was found at, and a new endpoint.\<close>

definition memo_world :: "unit world" where
  "memo_world = (world0 ())\<lparr>w_ep := (\<lambda>_. ep_zero\<lparr>ep_ID := ''x1'', ep_DiscInfo := di_zero\<lparr>di_LastAttempt := ''Tuesday''\<rparr>\<rparr>), w_nextEp := 1,
     w_HSMEndpoints := [(''x1'', 0)], w_endpointsCache := [''x1'' \<mapsto> \<lparr> ec_LastDiscoveryAttempt = ''Tuesday'', ec_Type = HpeRfType \<rparr>]\<rparr>"

lemma memo_refresh:
  "case doUpdateHSMEndpoints smd_env memo_world of (r, w) \<Rightarrow> r = Ret () \<and> map fst (w_HSMEndpoints w) = [''x1'', ''x2'']
     \<and> di_LastAttempt (ep_DiscInfo (w_ep w 0)) = ''Tuesday''"
  by code_simp

section \<open>Properties\<close>



end
