(* ===== verification/Describe.thy ===== *)
theory Describe
  imports World
begin

text \<open>
  How a broker and a subscription describe themselves in the log: the \<^verbatim>\<open>String\<close> methods of \<^verbatim>\<open>KafkaBroker\<close>
  (\<^verbatim>\<open>internal/hmcollector/defs.go\<close>) and \<^verbatim>\<open>EventSubscription\<close> (\<^verbatim>\<open>internal/hmcollector/redfish.go\<close>).
\<close>

text \<open>A list of strings as \<^verbatim>\<open>fmt\<close> prints it, and a pointer to the vendor's part of a subscription.\<close>

definition fmt_strings :: "string list \<Rightarrow> string" where
  "fmt_strings xs = ''['' @ Join xs (CHR '' '') @ '']''"

definition fmt_oem :: "int option \<Rightarrow> string" where
  "fmt_oem oem = (case oem of None \<Rightarrow> ''<nil>''
     | Some n \<Rightarrow> ''&{EventTransmitIntervalSeconds:'' @ Itoa n @ ''}'')"

text \<open>The topics are the keys of a map, in the order in which the run-time system visits them.\<close>

definition KafkaBroker_String :: "'e env \<Rightarrow> KafkaBroker \<Rightarrow> ('e world, string) io" where
  "KafkaBroker_String E broker =
     bindIO (extIO (env_range E (kb_TopicsToPublish broker))) (\<lambda>topics.
     return (''Broker Address: '' @ kb_BrokerAddress broker @ '', Topics: '' @ fmt_strings topics))"

definition EventSubscription_String :: "EventSubscription \<Rightarrow> string" where
  "EventSubscription_String eventSubscription =
     ''Context: '' @ es_Context eventSubscription @ '', '' @
     ''Destination: '' @ es_Destination eventSubscription @ '', '' @
     ''EventTypes: '' @ fmt_strings (es_EventTypes eventSubscription) @ '', '' @
     ''RegistryPrefixes: '' @ fmt_strings (es_RegistryPrefixes eventSubscription) @ '', '' @
     ''Oem: '' @ fmt_oem (es_Oem eventSubscription)"

text \<open>Names without blanks can be told apart in the printed list.\<close>

lemma Split_Join: "xs \<noteq> [] \<Longrightarrow> \<forall>x \<in> set xs. sep \<notin> set x \<Longrightarrow> Split (Join xs sep) sep = xs"
  by (induction xs sep rule: Join.induct) (auto simp: Split_plain Split_append_sep)

lemma fmt_strings_inj:
  assumes "fmt_strings xs = fmt_strings ys" "xs \<noteq> []" "ys \<noteq> []"
    and "\<forall>x \<in> set xs. CHR '' '' \<notin> set x" "\<forall>y \<in> set ys. CHR '' '' \<notin> set y"
  shows "xs = ys"
proof -
  from assms(1) have "Join xs (CHR '' '') = Join ys (CHR '' '')" by (simp add: fmt_strings_def)
  then have "Split (Join xs (CHR '' '')) (CHR '' '') = Split (Join ys (CHR '' '')) (CHR '' '')" by (rule arg_cong)
  then show ?thesis unfolding Split_Join[OF assms(2,4)] Split_Join[OF assms(3,5)] .
qed

lemma broker_described:
  "fst (KafkaBroker_String env0 \<lparr> kb_BrokerAddress = ''kafka:9092'', kb_TopicsToPublish = [''cray-telemetry-fan'', ''cray-telemetry-power''],
     kb_KafkaProducer = True \<rparr> w) = Ret ''Broker Address: kafka:9092, Topics: [cray-telemetry-fan cray-telemetry-power]''"
  by (simp add: KafkaBroker_String_def fmt_strings_def env0_def)

end
