(* ===== verification/JsonIndent.thy ===== *)
theory JsonIndent
  imports JsonRoundtrip
begin

text \<open>
  \<^verbatim>\<open>json.Indent\<close> of Go's \<^verbatim>\<open>encoding/json\<close>, which the echo server prints requests with. The indentation
  works byte by byte and knows only whether it is inside a string, whether a line break is due
  and how deep it is. It keeps the value of the text: what the parser reads as a value it reads as the
  same value afterwards. For that the theory shows where the tokens of the parser end, and that
  the parser needs no more fuel than it consumes input.
\<close>

section \<open>Tokens\<close>

definition token_end :: "string \<Rightarrow> bool" where
  "token_end t \<longleftrightarrow> (case t of [] \<Rightarrow> True | c # _ \<Rightarrow> \<not> isDigit c \<and> c \<notin> {CHR ''.'', CHR ''e'', CHR ''E''})"

lemma token_end_simps [simp]: "token_end []" "token_end (c # t) \<longleftrightarrow> \<not> isDigit c \<and> c \<notin> {CHR ''.'', CHR ''e'', CHR ''E''}"
  by (simp_all add: token_end_def)

definition number_char :: "char \<Rightarrow> bool" where
  "number_char c \<longleftrightarrow> isDigit c \<or> c \<in> {CHR ''-'', CHR ''+'', CHR ''.'', CHR ''e'', CHR ''E''}"

lemma digits_number: "list_all isDigit ds \<Longrightarrow> list_all number_char ds"
  by (auto simp: number_char_def list_all_iff)

lemma take_digits_Some:
  "take_digits s = Some (d, r) \<longleftrightarrow> s = d @ r \<and> d \<noteq> [] \<and> list_all isDigit d \<and> (r = [] \<or> \<not> isDigit (hd r))"
proof
  assume "take_digits s = Some (d, r)"
  then have "d \<noteq> []" "d = takeWhile isDigit s" "r = dropWhile isDigit s"
    by (auto simp: take_digits_def Let_def split: if_splits)
  then show "s = d @ r \<and> d \<noteq> [] \<and> list_all isDigit d \<and> (r = [] \<or> \<not> isDigit (hd r))"
    using hd_dropWhile[of isDigit s]
    by (auto simp: list_all_iff simp del: dropWhile_eq_Nil_conv dest: set_takeWhileD)
next
  assume "s = d @ r \<and> d \<noteq> [] \<and> list_all isDigit d \<and> (r = [] \<or> \<not> isDigit (hd r))"
  moreover from this have "takeWhile isDigit r = []" "dropWhile isDigit r = r" by (cases r; simp)+
  ultimately show "take_digits s = Some (d, r)" by (simp add: take_digits_def Let_def list_all_iff)
qed

definition lex_fraction :: "string \<Rightarrow> (string \<times> string) option" where
  "lex_fraction s =
     (case s of
        c # t \<Rightarrow> if c = CHR ''.'' then map_option (\<lambda>(f, r). (c # f, r)) (take_digits t) else Some ([], s)
      | [] \<Rightarrow> Some ([], s))"

definition lex_exponent :: "string \<Rightarrow> (string \<times> string) option" where
  "lex_exponent s =
     (case s of
        c # t \<Rightarrow>
          if c = CHR ''e'' \<or> c = CHR ''E'' then
            (case t of
               x # u \<Rightarrow>
                 if x = CHR ''+'' \<or> x = CHR ''-''
                 then map_option (\<lambda>(f, r). (c # x # f, r)) (take_digits u)
                 else map_option (\<lambda>(f, r). (c # f, r)) (take_digits t)
             | [] \<Rightarrow> None)
          else Some ([], s)
      | [] \<Rightarrow> Some ([], s))"

lemma lex_number_parts:
  "lex_number s =
     (let (sg, s1) = (case s of c # t \<Rightarrow> if c = CHR ''-'' then ([c], t) else ([], s) | [] \<Rightarrow> ([], s))
      in case take_digits s1 of
           None \<Rightarrow> None
         | Some (d0, r0) \<Rightarrow>
             let (ip, s2) = (if hd d0 = CHR ''0'' then ([hd d0], tl d0 @ r0) else (d0, r0))
             in (case lex_fraction s2 of
                   None \<Rightarrow> None
                 | Some (fp, s3) \<Rightarrow>
                     (case lex_exponent s3 of
                        None \<Rightarrow> None
                      | Some (ex, s4) \<Rightarrow> Some (sg @ ip @ fp @ ex, s4))))"
  by (simp only: lex_number_def lex_fraction_def lex_exponent_def)

lemma lex_exponentD:
  assumes "lex_exponent s = Some (x, r)"
  shows "s = x @ r" "list_all number_char x" "x = [] \<or> hd x = CHR ''e'' \<or> hd x = CHR ''E''"
    "token_end t \<Longrightarrow> lex_exponent (x @ t) = Some (x, t)"
proof -
  consider "x = []" "r = s" | c d where "c = CHR ''e'' \<or> c = CHR ''E''" "x = c # d" "take_digits (d @ r) = Some (d, r)" "s = x @ r"
    | c y d where "c = CHR ''e'' \<or> c = CHR ''E''" "y = CHR ''+'' \<or> y = CHR ''-''" "x = c # y # d"
        "take_digits (d @ r) = Some (d, r)" "s = x @ r"
    using assms by (auto simp: lex_exponent_def take_digits_Some split: list.splits if_splits)
  note cases = this
  show "s = x @ r" by (cases rule: cases) auto
  show "list_all number_char x" 
    by (cases rule: cases) (auto simp: take_digits_Some number_char_def dest: digits_number)
  show "x = [] \<or> hd x = CHR ''e'' \<or> hd x = CHR ''E''" by (cases rule: cases) auto
  assume t: "token_end t"
  then have e: "t = [] \<or> \<not> isDigit (hd t)" by (cases t) auto
  show "lex_exponent (x @ t) = Some (x, t)"
  proof (cases rule: cases)
    case 1
    with t show ?thesis by (cases t) (auto simp: lex_exponent_def)
  next
    case (2 c d)
    then obtain y d' where d: "d = y # d'" "isDigit y" "list_all isDigit d'" by (cases d) (auto simp: take_digits_Some)
    then have "take_digits (d @ t) = Some (d, t)" using e by (simp add: take_digits_Some)
    moreover have "y \<noteq> CHR ''+''" "y \<noteq> CHR ''-''" using d by (auto simp: isDigit_def)
    ultimately show ?thesis using 2 d(1) by (auto simp: lex_exponent_def)
  next
    case (3 c y d)
    then have "take_digits (d @ t) = Some (d, t)" using e by (simp add: take_digits_Some)
    with 3 show ?thesis by (auto simp: lex_exponent_def)
  qed
qed

lemma lex_fractionD:
  assumes "lex_fraction s = Some (x, r)"
  shows "s = x @ r" "list_all number_char x" "x = [] \<or> hd x = CHR ''.''"
    "t = [] \<or> \<not> isDigit (hd t) \<and> hd t \<noteq> CHR ''.'' \<Longrightarrow> lex_fraction (x @ t) = Some (x, t)"
proof -
  consider "x = []" "r = s" | d where "x = CHR ''.'' # d" "take_digits (d @ r) = Some (d, r)" "s = x @ r"
    using assms by (auto simp: lex_fraction_def take_digits_Some split: list.splits if_splits)
  note cases = this
  show "s = x @ r" by (cases rule: cases) auto
  show "list_all number_char x" 
    by (cases rule: cases) (auto simp: take_digits_Some number_char_def dest: digits_number)
  show "x = [] \<or> hd x = CHR ''.''" by (cases rule: cases) auto
  assume t: "t = [] \<or> \<not> isDigit (hd t) \<and> hd t \<noteq> CHR ''.''"
  show "lex_fraction (x @ t) = Some (x, t)"
  proof (cases rule: cases)
    case 1
    with t show ?thesis by (cases t) (auto simp: lex_fraction_def)
  next
    case (2 d)
    then have "take_digits (d @ t) = Some (d, t)" using t by (auto simp: take_digits_Some)
    with 2 show ?thesis by (auto simp: lex_fraction_def)
  qed
qed

lemma lex_numberD:
  assumes "lex_number s = Some (l, r)"
  shows "s = l @ r \<and> l \<noteq> [] \<and> list_all number_char l \<and> (\<forall>t. token_end t \<longrightarrow> lex_number (l @ t) = Some (l, t))"
proof -
  obtain sg s1 where sg: "(case s of c # t \<Rightarrow> if c = CHR ''-'' then ([c], t) else ([], s) | [] \<Rightarrow> ([], s)) = (sg, s1)"
    by fastforce
  then have s: "s = sg @ s1" "sg = [] \<or> sg = ''-''" by (auto split: list.splits if_splits)
  from assms sg obtain d0 r0 where d0: "take_digits s1 = Some (d0, r0)"
    by (auto simp: lex_number_parts split: option.splits)
  obtain ip s2 where ip: "(if hd d0 = CHR ''0'' then ([hd d0], tl d0 @ r0) else (d0, r0)) = (ip, s2)" by fastforce
  from assms sg d0 ip obtain fp s3 where fp: "lex_fraction s2 = Some (fp, s3)"
    by (auto simp: lex_number_parts split: option.splits)
  from assms sg d0 ip fp obtain ex where ex: "lex_exponent s3 = Some (ex, r)" "l = sg @ ip @ fp @ ex"
    by (auto simp: lex_number_parts split: option.splits)
  have d0': "s1 = d0 @ r0" "d0 \<noteq> []" "list_all isDigit d0" using d0 by (simp_all add: take_digits_Some)
  obtain c ds where c: "d0 = c # ds" using d0'(2) by (cases d0) auto
  have ip': "s1 = ip @ s2" "ip \<noteq> []" "list_all isDigit ip" "hd ip = c" "hd ip = CHR ''0'' \<Longrightarrow> ip = [hd ip]"
    using ip d0' c by (auto split: if_splits)
  obtain ds' where ipc: "ip = c # ds'" using ip'(2,4) by (cases ip) auto
  have minus: "c \<noteq> CHR ''-''" using ip'(3) ipc by (auto simp: isDigit_def)
  have whole: "s = l @ r" using s ip' ex(2) lex_exponentD(1)[OF ex(1)] lex_fractionD(1)[OF fp] by simp
  have "list_all number_char l" using s(2) lex_exponentD(2)[OF ex(1)] lex_fractionD(2)[OF fp] digits_number[OF ip'(3)]
    by (auto simp: ex(2) number_char_def)
  moreover have "lex_number (l @ t) = Some (l, t)" if t: "token_end t" for t
  proof -
    have xt: "lex_exponent (ex @ t) = Some (ex, t)" using lex_exponentD(4)[OF ex(1) t] .
    have eh: "ex @ t = [] \<or> \<not> isDigit (hd (ex @ t)) \<and> hd (ex @ t) \<noteq> CHR ''.''"
      using lex_exponentD(3)[OF ex(1)] t by (cases ex; cases t) (auto simp: isDigit_def)
    have ft: "lex_fraction (fp @ ex @ t) = Some (fp, ex @ t)" using lex_fractionD(4)[OF fp eh] .
    have fh: "fp @ ex @ t = [] \<or> \<not> isDigit (hd (fp @ ex @ t))"
      using lex_fractionD(3)[OF fp] eh by (cases fp) (auto simp: isDigit_def)
    have it: "take_digits (ip @ fp @ ex @ t) = Some (ip, fp @ ex @ t)" using ip'(2,3) fh by (simp add: take_digits_Some)
    have sgt: "(case l @ t of c # t' \<Rightarrow> if c = CHR ''-'' then ([c], t') else ([], l @ t) | [] \<Rightarrow> ([], l @ t)) = (sg, ip @ fp @ ex @ t)"
      using s(2) minus by (auto simp: ex(2) ipc)
    have ipt: "(if hd ip = CHR ''0'' then ([hd ip], tl ip @ fp @ ex @ t) else (ip, fp @ ex @ t)) = (ip, fp @ ex @ t)"
      using ip'(5) by (metis append_Nil list.sel(3))
    show ?thesis unfolding lex_number_parts sgt by (simp add: it ipt ft xt ex(2))
  qed
  ultimately show ?thesis using whole ip'(2) ex(2) by auto
qed

text \<open>A token other than a string, with what the parser makes of it.\<close>

definition token_char :: "char \<Rightarrow> bool" where
  "token_char c \<longleftrightarrow> number_char c \<or> c \<in> set ''nulltruefalse''"

lemma lex_literalD:
  assumes "lex_literal s = Some (v, r)"
  shows "\<exists>a. s = a @ r \<and> a \<noteq> [] \<and> list_all token_char a \<and> (\<forall>t. token_end t \<longrightarrow> lex_literal (a @ t) = Some (v, t))"
proof -
  consider (const) a where "s = a @ r" "a \<in> {''null'', ''true'', ''false''}" "\<And>t. lex_literal (a @ t) = Some (v, t)"
    | (num) l where "v = JNum l" "lex_number s = Some (l, r)"
    using assms by (auto simp: lex_literal_def HasPrefix_iff split: if_splits)
  then show ?thesis
  proof cases
    case const
    then have "list_all token_char a" by (auto simp: token_char_def)
    with const show ?thesis by (intro exI[of _ a]) auto
  next
    case (num l)
    from lex_numberD[OF this(2)] have l: "s = l @ r" "l \<noteq> []" "list_all number_char l"
      "\<And>t. token_end t \<Longrightarrow> lex_number (l @ t) = Some (l, t)" by auto
    have "\<not> HasPrefix (l @ t) p" if "p \<in> {''null'', ''true'', ''false''}" for p t
      using l(2,3) that by (cases l) (auto simp: HasPrefix_iff number_char_def isDigit_def)
    with l num(1) have "lex_literal (l @ t) = Some (v, t)" if "token_end t" for t
      using that by (simp add: lex_literal_def)
    moreover have "list_all token_char l" using l(3) by (auto simp: token_char_def list_all_iff)
    ultimately show ?thesis using l by auto
  qed
qed

section \<open>Strings\<close>

lemma hexval_quote [simp]: "hexval (CHR 0x22) = None" "hexval (CHR 0x5C) = None"
  by (simp_all add: hexval_def)

text \<open>No escape and no character reaches past a quote.\<close>

lemma hex4_quote: "CHR 0x22 \<in> set x \<Longrightarrow> hex4 (x @ t) = hex4 (x @ u)"
  by (auto simp: hex4_def split: list.split option.split)

lemma ascii_no_continuation:
  "of_char q < (128 :: nat) \<Longrightarrow> \<not> cont_byte q" "of_char q < (128 :: nat) \<Longrightarrow> 128 \<le> lo \<Longrightarrow> \<not> in_range q lo hi"
  by (simp_all add: cont_byte_def in_range_def)

lemma utf8_len_short:
  assumes "of_char q < (128 :: nat)"
  shows "utf8_len (q # t) = 1"
    "utf8_len (a # q # t) = (if of_char a < (128 :: nat) then 1 else 0)"
    "utf8_len (a # b # q # t) = (if of_char a < (128 :: nat) then 1
       else if 194 \<le> (of_char a :: nat) \<and> of_char a \<le> (223 :: nat) \<and> cont_byte b then 2 else 0)"
    "utf8_len (a # b # c # q # t) \<le> 3"
  using assms by (simp_all add: utf8_len.simps(2) Let_def ascii_no_continuation split: list.split)

lemma utf8_len_four: "utf8_len (a # b # c # d # t) = utf8_len [a, b, c, d]"
  by (simp only: utf8_len.simps(2) list.case Let_def)

lemma utf8_len_quote: "CHR 0x22 \<in> set x \<Longrightarrow> utf8_len (x @ t) = utf8_len (x @ u)"
proof -
  assume q: "CHR 0x22 \<in> set x"
  consider a where "x = [a]" | a b where "x = [a, b]" | a b c where "x = [a, b, c]" | a b c d y where "x = a # b # c # d # y"
    using q by (metis list.exhaust list.set_intros(1) empty_iff empty_set)
  then show ?thesis
  proof cases
    case 4
    then show ?thesis by (metis utf8_len_four append_Cons)
  qed (use q in \<open>auto simp: utf8_len_short(1-3)[of "CHR 0x22"]\<close>)
qed

lemma hex4_Some: "hex4 s = Some r \<Longrightarrow> \<exists>a b c d y. s = a # b # c # d # y \<and> list_all (\<lambda>c. c \<noteq> CHR 0x22 \<and> c \<noteq> CHR 0x5C) [a, b, c, d]"
  by (auto simp: hex4_def split: list.splits option.splits)

lemma unicode_escape_quote:
  assumes "CHR 0x22 \<in> set x"
  shows "unicode_escape (x @ t) = unicode_escape (x @ u)"
proof (cases "hex4 (x @ t)")
  case None
  then show ?thesis using hex4_quote[OF assms, of t u] by (simp add: unicode_escape_def)
next
  case (Some r)
  then obtain a b c d y where "x = a # b # c # d # y" "CHR 0x22 \<in> set y"
    using hex4_Some[OF Some] assms by (auto simp: Cons_eq_append_conv append_eq_Cons_conv)
  moreover have same: "(case y @ t of a # b # s \<Rightarrow> if a = CHR 0x5C \<and> b = CHR ''u'' then f (hex4 s) else e | _ \<Rightarrow> e)
      = (case y @ u of a # b # s \<Rightarrow> if a = CHR 0x5C \<and> b = CHR ''u'' then f (hex4 s) else e | _ \<Rightarrow> e)" for f :: "nat option \<Rightarrow> (string \<times> nat) option" and e
  proof (cases y)
    case (Cons p z)
    show ?thesis
    proof (cases z)
      case Nil
      with Cons \<open>CHR 0x22 \<in> set y\<close> show ?thesis by (auto split: list.split)
    next
      case (Cons q z')
      with \<open>y = p # z\<close> \<open>CHR 0x22 \<in> set y\<close> hex4_quote[of z' t u] show ?thesis by auto
    qed
  qed (use \<open>CHR 0x22 \<in> set y\<close> in simp)
  ultimately show ?thesis
    using hex4_quote[OF assms, of t u] same Some
    by (simp add: unicode_escape_def)
qed

section \<open>Indentation\<close>

datatype indent_mode = Outside | In_string | Escaped

text \<open>The line break before an item, with one tab for every level.\<close>

definition newline :: "nat \<Rightarrow> string" where
  "newline depth = CHR 0x0A # replicate depth (CHR 0x09)"

text \<open>
  The loop of \<^verbatim>\<open>json.Indent\<close> on a valid text with an empty prefix and a tab as indentation. White space is
  skipped outside strings, except after the value at the top, which \<open>started\<close> with depth 0 tells.
\<close>

fun indent_loop :: "indent_mode \<Rightarrow> bool \<Rightarrow> bool \<Rightarrow> nat \<Rightarrow> string \<Rightarrow> string" where
  "indent_loop m started needIndent depth [] = []"
| "indent_loop Escaped started needIndent depth (c # s) = c # indent_loop In_string started needIndent depth s"
| "indent_loop In_string started needIndent depth (c # s) =
     c # indent_loop (if c = CHR 0x22 then Outside else if c = CHR 0x5C then Escaped else In_string) started needIndent depth s"
| "indent_loop Outside started needIndent depth (c # s) =
     (if isWS c \<and> (\<not> started \<or> needIndent \<or> 0 < depth) then indent_loop Outside started needIndent depth s
      else if needIndent \<and> (c = CHR ''}'' \<or> c = CHR '']'') then c # indent_loop Outside True False depth s
      else
        (let depth' = (if needIndent then Suc depth else depth);
             start = (if needIndent then newline depth' else [])
         in start @
           (if c = CHR ''{'' \<or> c = CHR ''['' then c # indent_loop Outside True True depth' s
            else if c = CHR '','' then c # newline depth' @ indent_loop Outside True False depth' s
            else if c = CHR '':'' then c # CHR '' '' # indent_loop Outside True False depth' s
            else if c = CHR ''}'' \<or> c = CHR '']'' then newline (depth' - 1) @ c # indent_loop Outside True False (depth' - 1) s
            else c # indent_loop (if c = CHR 0x22 then In_string else Outside) True False depth' s)))"

definition Indent :: "string \<Rightarrow> string option" where
  "Indent src = (case json_parse src of None \<Rightarrow> None | Some v \<Rightarrow> Some (indent_loop Outside False False 0 src))"

lemma indent_copy:
  "list_all (\<lambda>c. c \<noteq> CHR 0x22 \<and> c \<noteq> CHR 0x5C) a \<Longrightarrow>
     indent_loop In_string st ni d (a @ t) = a @ indent_loop In_string st ni d t"
  by (induction a) simp_all

lemma length_four: "length [a, b, c, d] = 4"
  by simp

lemma unicode_escape_copied:
  assumes "unicode_escape t = Some (bs, k)"
  shows "indent_loop In_string st ni d (take k t @ u) = take k t @ indent_loop In_string st ni d u"
proof -
  from assms obtain r where "hex4 t = Some r" by (auto simp: unicode_escape_def split: option.splits)
  from hex4_Some[OF this] obtain h y where t: "t = h @ y" "length h = 4" "list_all (\<lambda>c. c \<noteq> CHR 0x22 \<and> c \<noteq> CHR 0x5C) h"
    by (metis append_Cons append_Nil length_four)
  consider "k = 4" | z r2 where "k = 10" "y = CHR 0x5C # CHR ''u'' # z" "hex4 z = Some r2"
    using assms t(1,2) by (auto simp: unicode_escape_def split: option.splits list.splits if_splits)
  then show ?thesis
  proof cases
    case 1
    with t show ?thesis by (simp add: indent_copy)
  next
    case (2 z r2)
    from hex4_Some[OF 2(3)] obtain h2 y2 where "z = h2 @ y2" "length h2 = 4" "list_all (\<lambda>c. c \<noteq> CHR 0x22 \<and> c \<noteq> CHR 0x5C) h2"
      by (metis append_Cons append_Nil length_four)
    with 2(1,2) t show ?thesis by (simp add: indent_copy)
  qed
qed

lemma utf8_multi:
  assumes "128 \<le> (of_char c :: nat)"
  shows "list_all (\<lambda>c. c \<noteq> CHR 0x22 \<and> c \<noteq> CHR 0x5C) (take (utf8_len (c # s)) (c # s))"
proof -
  have big: "x \<noteq> CHR 0x22 \<and> x \<noteq> CHR 0x5C" if "\<not> of_char x < (128 :: nat)" for x using that by auto
  have few: "utf8_len (c # s) \<le> 4" by (simp add: utf8_len.simps(2) Let_def split: list.split)
  consider "s = []" | x where "s = [x]" | x y where "s = [x, y]" | x y z u where "s = x # y # z # u"
    by (metis list.exhaust)
  then show ?thesis
  proof cases
    case (4 x y z u)
    from assms utf8_len_short(2)[of x c] utf8_len_short(3)[of y c x] utf8_len_short(4)[of z c x y u] few
    show ?thesis using big[of c] big[of x] big[of y] big[of z]
      unfolding 4 by (cases "utf8_len (c # x # y # z # u)" rule: nat.exhaust) (auto simp: take_Cons' split: if_splits)
  qed (use assms utf8_len_short(2)[of _ c] utf8_len_short(3)[of _ c] big in \<open>auto simp: take_Cons' split: if_splits\<close>)
qed

text \<open>The text \<open>a\<close> between two quotes reads as the value \<open>v\<close>, whatever follows, and is not touched by the indentation.\<close>

definition string_text :: "string \<Rightarrow> string \<Rightarrow> bool" where
  "string_text a v \<longleftrightarrow> (\<forall>t. str_body (a @ CHR 0x22 # t) = Some (v, t))
     \<and> (\<forall>st ni d t. indent_loop In_string st ni d (a @ CHR 0x22 # t) = a @ CHR 0x22 # indent_loop Outside st ni d t)"

lemma str_bodyD: "str_body s = Some (v, r) \<Longrightarrow> \<exists>a. s = a @ CHR 0x22 # r \<and> string_text a v"
proof (induction s arbitrary: v rule: str_body.induct)
  case (2 c s)
  consider "c = CHR 0x22" | (uni) t bs k v' where "c = CHR 0x5C" "s = CHR ''u'' # t" "unicode_escape t = Some (bs, k)"
      "str_body (drop k t) = Some (v', r)" "v = bs @ v'"
    | (esc) e t bs v' where "c = CHR 0x5C" "s = e # t" "e \<noteq> CHR ''u''" "simple_escape e = Some bs" "str_body t = Some (v', r)" "v = bs @ v'"
    | (ascii) v' where "c \<noteq> CHR 0x22" "c \<noteq> CHR 0x5C" "32 \<le> (of_char c :: nat)" "of_char c < (128 :: nat)" "str_body s = Some (v', r)" "v = c # v'"
    | (bad) v' where "128 \<le> (of_char c :: nat)" "utf8_len (c # s) = 0" "str_body s = Some (v', r)" "v = rune_error @ v'"
    | (multi) k v' where "128 \<le> (of_char c :: nat)" "utf8_len (c # s) = Suc k" "str_body (drop k s) = Some (v', r)" "v = c # take k s @ v'"
    using 2(6) by (auto simp: Let_def linorder_not_less gr0_conv_Suc split: if_splits list.splits option.splits)
  then show ?case
  proof cases
    case 1
    with 2(6) show ?thesis by (intro exI[of _ "[]"]) (simp add: string_text_def)
  next
    case uni
    have "\<exists>a. drop k t = a @ CHR 0x22 # r \<and> string_text a v'"
      using uni 2(1)[of "CHR ''u''" t "(bs, k)" bs k v'] by auto
    then obtain a where a: "drop k t = a @ CHR 0x22 # r" "string_text a v'" by blast
    have t: "t = take k t @ a @ CHR 0x22 # r" by (metis a(1) append_take_drop_id)
    have k: "length (take k t) = k" using a(1) by (cases "k \<le> length t") auto
    have "unicode_escape ((take k t @ a @ [CHR 0x22]) @ u) = Some (bs, k)" for u
      using unicode_escape_quote[of "take k t @ a @ [CHR 0x22]" u r] uni(3) t by simp
    then have "string_text (c # CHR ''u'' # take k t @ a) v"
      using uni(1,5) a(2) k unicode_escape_copied[OF uni(3)] by (simp add: string_text_def)
    then show ?thesis using uni(1,2) t by (intro exI[of _ "c # CHR ''u'' # take k t @ a"]) simp
  next
    case esc
    then obtain a where "t = a @ CHR 0x22 # r" "string_text a v'" using 2(2)[of e t bs v'] by auto
    with esc show ?thesis by (intro exI[of _ "c # e # a"]) (simp add: string_text_def)
  next
    case ascii
    then obtain a where "s = a @ CHR 0x22 # r" "string_text a v'" using 2(3)[of v'] by auto
    with ascii show ?thesis by (intro exI[of _ "c # a"]) (simp add: string_text_def)
  next
    case bad
    then obtain a where a: "s = a @ CHR 0x22 # r" "string_text a v'" using 2(4)[of 0 v'] by fastforce
    have "utf8_len ((c # a @ [CHR 0x22]) @ t) = 0" for t
      using utf8_len_quote[of "c # a @ [CHR 0x22]" t r] a(1) bad(2) by simp
    moreover have "c \<noteq> CHR 0x22" "c \<noteq> CHR 0x5C" using bad(1) by auto
    ultimately show ?thesis using bad a by (intro exI[of _ "c # a"]) (simp add: string_text_def)
  next
    case multi
    then obtain a where a: "drop k s = a @ CHR 0x22 # r" "string_text a v'" using 2(5)[of "Suc k" v'] by fastforce
    have s: "s = take k s @ a @ CHR 0x22 # r" by (metis a(1) append_take_drop_id)
    have k: "length (take k s) = k" using a(1) by (cases "k \<le> length s") auto
    have "utf8_len ((c # take k s @ a @ [CHR 0x22]) @ t) = Suc k" for t
      using utf8_len_quote[of "c # take k s @ a @ [CHR 0x22]" t r] s multi(2) by simp
    moreover have "c \<noteq> CHR 0x22" "c \<noteq> CHR 0x5C" using multi(1) by auto
    moreover have "list_all (\<lambda>c. c \<noteq> CHR 0x22 \<and> c \<noteq> CHR 0x5C) (take k s)" using utf8_multi[OF multi(1), of s] multi(2) by simp
    ultimately have "string_text (c # take k s @ a) v" using multi(1,4) a(2) k by (simp add: string_text_def indent_copy)
    then show ?thesis using s by (intro exI[of _ "c # take k s @ a"]) simp
  qed
qed simp

section \<open>The parser needs no more fuel than input\<close>

lemma skipws_length: "length (skipws s) \<le> length s"
  by (simp add: skipws_def length_dropWhile_le)

lemma skipws_cases: obtains w where "s = w @ skipws s" "list_all isWS w"
  using takeWhile_dropWhile_id[of isWS s] set_takeWhileD[of _ isWS s]
  by (metis list_all_iff skipws_def)

lemma str_body_length: "str_body s = Some (v, r) \<Longrightarrow> length r < length s"
  using str_bodyD by fastforce

lemma lex_literal_length: "lex_literal s = Some (v, r) \<Longrightarrow> length r < length s"
  using lex_literalD by fastforce

definition enough :: "(nat \<Rightarrow> string \<Rightarrow> ('a \<times> string) option) \<Rightarrow> string \<Rightarrow> 'a \<Rightarrow> string \<Rightarrow> bool" where
  "enough p s v r \<longleftrightarrow> length r < length s \<and> (\<forall>m. length s \<le> m + length r \<longrightarrow> p m s = Some (v, r))"

lemma enoughI: "length r < length s \<Longrightarrow> (\<And>m. length s \<le> Suc m + length r \<Longrightarrow> p (Suc m) s = Some (v, r)) \<Longrightarrow> enough p s v r"
  unfolding enough_def by (metis Suc_leI add_0 not_less_eq_eq old.nat.exhaust less_Suc_eq_le not_less)

lemma enoughD: "enough p s v r \<Longrightarrow> length r < length s" "enough p s v r \<Longrightarrow> length s \<le> m + length r \<Longrightarrow> p m s = Some (v, r)"
  by (simp_all add: enough_def)

lemma fuel_enough:
  "pvalue n s = Some (v, r) \<Longrightarrow> enough pvalue s v r"
  "pelems n s = Some (vs, r) \<Longrightarrow> enough pelems s vs r"
  "pmembers n s = Some (ms, r) \<Longrightarrow> enough pmembers s ms r"
proof (induction n s and n s and n s arbitrary: v r and vs r and ms r rule: pvalue_pelems_pmembers.induct)
  case (2 n s)
  obtain c t where t: "skipws s = c # t" using 2(3) by (cases "skipws s") (auto simp: pvalue.simps(2))
  have len: "length t < length s" "length (skipws t) \<le> length t"
    using skipws_length[of s] skipws_length[of t] t by simp_all
  consider (obj) ms where "c = CHR ''{''" "\<not> (case skipws t of d # _ \<Rightarrow> d = CHR ''}'' | [] \<Rightarrow> False)" "pmembers n t = Some (ms, r)" "v = JObj ms"
    | (arr) vs where "c = CHR ''[''" "\<not> (case skipws t of d # _ \<Rightarrow> d = CHR '']'' | [] \<Rightarrow> False)" "pelems n t = Some (vs, r)" "v = JArr vs"
    | (flat) "length r < length s" "\<And>m. pvalue (Suc m) s = Some (v, r)"
    using 2(3) t len by (auto simp: pvalue.simps(2) dest: str_body_length lex_literal_length split: if_splits list.splits)
  then show ?case
  proof cases
    case obj
    from 2(1)[OF t obj(1-3)] have "enough pmembers t ms r" .
    from enoughD[OF this] obj(1,2,4) t len show ?thesis by (intro enoughI) (auto simp: pvalue.simps(2))
  next
    case arr
    from 2(2)[OF t _ arr(1-3)] arr(1) have "enough pelems t vs r" by simp
    from enoughD[OF this] arr(1,2,4) t len show ?thesis by (intro enoughI) (auto simp: pvalue.simps(2))
  qed (auto intro: enoughI)
next
  case (4 n s)
  from 4(3) obtain v r1 c u where v: "pvalue n s = Some (v, r1)" "skipws r1 = c # u"
    and c: "c = CHR '']'' \<and> vs = [v] \<and> r = u \<or> (c = CHR '','' \<and> (\<exists>vs'. pelems n u = Some (vs', r) \<and> vs = v # vs'))"
    by (auto simp: pelems.simps(2) split: option.splits list.splits if_splits)
  note one = enoughD[OF 4(1)[OF v(1)]]
  have len: "length u < length r1" using skipws_length[of r1] v(2) by simp
  from c show ?case
  proof (elim disjE conjE exE)
    fix vs' assume next': "c = CHR '',''" "pelems n u = Some (vs', r)" "vs = v # vs'"
    from 4(2)[OF v(1) refl v(2) _ next'(1,2)] next'(1) have "enough pelems u vs' r" by simp
    from enoughD[OF this] one len v(2) next' show ?case by (intro enoughI) (auto simp: pelems.simps(2))
  qed (use one len v(2) in \<open>auto intro!: enoughI simp: pelems.simps(2)\<close>)
next
  case (6 n s)
  from 6(3) obtain t k r1 u v r2 d u2 where s: "skipws s = CHR 0x22 # t" "str_body t = Some (k, r1)" "skipws r1 = CHR '':'' # u"
    and v: "pvalue n u = Some (v, r2)" "skipws r2 = d # u2"
    and d: "d = CHR ''}'' \<and> ms = [(k, v)] \<and> r = u2 \<or> (d = CHR '','' \<and> (\<exists>ms'. pmembers n u2 = Some (ms', r) \<and> ms = (k, v) # ms'))"
    by (auto simp: pmembers.simps(2) split: option.splits list.splits if_splits)
  have "enough pvalue u v r2" using s v(1) by (intro 6(1)) auto
  note one = enoughD[OF this]
  have len: "length t < length s" "length r1 < length t" "length u < length r1" "length u2 < length r2"
    using skipws_length[of s] skipws_length[of r1] skipws_length[of r2] s v(2) str_body_length[OF s(2)] by simp_all
  from d show ?case
  proof (elim disjE conjE exE)
    fix ms' assume next': "d = CHR '',''" "pmembers n u2 = Some (ms', r)" "ms = (k, v) # ms'"
    have "enough pmembers u2 ms' r" using s v next' by (intro 6(2)) auto
    from enoughD[OF this] one len s v(2) next' show ?case by (intro enoughI) (auto simp: pmembers.simps(2))
  qed (use one len s v(2) in \<open>auto intro!: enoughI simp: pmembers.simps(2)\<close>)
qed simp_all

section \<open>Indentation keeps the value\<close>

text \<open>The depth after a value and the line break before it.\<close>

abbreviation inner :: "bool \<Rightarrow> nat \<Rightarrow> nat" where
  "inner ni d \<equiv> (if ni then Suc d else d)"

abbreviation before :: "bool \<Rightarrow> nat \<Rightarrow> string" where
  "before ni d \<equiv> (if ni then newline (Suc d) else [])"

lemma newline_ws [simp]: "skipws (newline d @ t) = skipws t" "token_end (newline d @ t)"
proof -
  have "list_all isWS (newline d)" by (auto simp: newline_def isWS_def list_all_iff)
  then show "skipws (newline d @ t) = skipws t" by (simp add: skipws_def dropWhile_append2 list_all_iff)
  show "token_end (newline d @ t)" by (simp add: newline_def isDigit_def)
qed

lemma before_ws [simp]: "skipws (before ni d @ t) = skipws t"
  by simp

lemma parser_ws [simp]:
  "pvalue n (newline d @ t) = pvalue n t" "pelems n (newline d @ t) = pelems n t" "pmembers n (newline d @ t) = pmembers n t"
  "pvalue n (CHR '' '' # t) = pvalue n t"
proof -
  show v: "pvalue n (newline d @ t) = pvalue n t" for n by (cases n) (simp_all add: pvalue.simps(2))
  show "pelems n (newline d @ t) = pelems n t" by (cases n) (simp_all add: pelems.simps(2) v)
  show "pmembers n (newline d @ t) = pmembers n t" by (cases n) (simp_all add: pmembers.simps(2))
  have "skipws (CHR '' '' # t) = skipws t" by (simp add: skipws_def isWS_def)
  then show "pvalue n (CHR '' '' # t) = pvalue n t" by (cases n) (simp_all add: pvalue.simps(2))
qed

lemma indent_ws_char: "isWS c \<Longrightarrow> \<not> st \<or> ni \<or> 0 < d \<Longrightarrow> indent_loop Outside st ni d (c # s) = indent_loop Outside st ni d s"
  by (subst indent_loop.simps(4)) (rule if_P, blast)

lemma indent_plain:
  assumes "\<not> isWS c" "c \<notin> {CHR ''{'', CHR ''}'', CHR ''['', CHR '']'', CHR '','', CHR '':'', CHR 0x22}"
  shows "indent_loop Outside st ni d (c # s) = before ni d @ c # indent_loop Outside True False (inner ni d) s"
  using assms by simp

text \<open>One rule for every kind of punctuation.\<close>

lemma indent_steps:
  "indent_loop Outside st ni d (CHR ''{'' # s) = before ni d @ CHR ''{'' # indent_loop Outside True True (inner ni d) s"
  "indent_loop Outside st ni d (CHR ''['' # s) = before ni d @ CHR ''['' # indent_loop Outside True True (inner ni d) s"
  "indent_loop Outside st ni d (CHR 0x22 # s) = before ni d @ CHR 0x22 # indent_loop In_string True False (inner ni d) s"
  "indent_loop Outside st False d (CHR '','' # s) = CHR '','' # newline d @ indent_loop Outside True False d s"
  "indent_loop Outside st False d (CHR '':'' # s) = CHR '':'' # CHR '' '' # indent_loop Outside True False d s"
  "indent_loop Outside st True d (CHR ''}'' # s) = CHR ''}'' # indent_loop Outside True False d s"
  "indent_loop Outside st True d (CHR '']'' # s) = CHR '']'' # indent_loop Outside True False d s"
  "indent_loop Outside st False d (CHR ''}'' # s) = newline (d - 1) @ CHR ''}'' # indent_loop Outside True False (d - 1) s"
  "indent_loop Outside st False d (CHR '']'' # s) = newline (d - 1) @ CHR '']'' # indent_loop Outside True False (d - 1) s"
  by simp_all

declare indent_loop.simps(4) [simp del]

lemma indent_ws:
  "list_all isWS w \<Longrightarrow> \<not> st \<or> ni \<or> 0 < d \<Longrightarrow> indent_loop Outside st ni d (w @ t) = indent_loop Outside st ni d t"
  by (induction w) (simp_all add: indent_ws_char)

lemma token_char_simps: "token_char c \<Longrightarrow> \<not> isWS c \<and> c \<notin> {CHR ''{'', CHR ''}'', CHR ''['', CHR '']'', CHR '','', CHR '':'', CHR 0x22}"
proof (cases "isDigit c")
  case True
  then show ?thesis by (auto simp: isDigit_def)
next
  case False
  assume "token_char c"
  with False have "c \<in> set ''nulltruefalse-+.E''" by (auto simp: token_char_def number_char_def)
  moreover have "list_all (\<lambda>c. \<not> isWS c \<and> c \<notin> {CHR ''{'', CHR ''}'', CHR ''['', CHR '']'', CHR '','', CHR '':'', CHR 0x22}) ''nulltruefalse-+.E''"
    by code_simp
  ultimately show ?thesis unfolding list_all_iff by blast
qed

lemma indent_token_rest:
  "list_all token_char a \<Longrightarrow> indent_loop Outside True False d (a @ t) = a @ indent_loop Outside True False d t"
proof (induction a)
  case (Cons c a)
  with token_char_simps[of c] show ?case by (simp add: indent_plain)
qed simp

lemma indent_token:
  assumes "list_all token_char a" "a \<noteq> []"
  shows "indent_loop Outside st ni d (a @ t) = before ni d @ a @ indent_loop Outside True False (inner ni d) t"
proof -
  obtain c a' where "a = c # a'" "token_char c" "list_all token_char a'" using assms by (cases a) auto
  with token_char_simps[of c] show ?thesis by (simp add: indent_token_rest indent_plain)
qed

text \<open>
  What the parser reads as a value, elements or members in the text \<open>a\<close> is indented to a text that it
  reads as the same, whatever follows.
\<close>

definition value_kept :: "nat \<Rightarrow> json \<Rightarrow> string \<Rightarrow> bool" where
  "value_kept n v a \<longleftrightarrow> (\<forall>st ni d. \<not> st \<or> ni \<or> 0 < d \<longrightarrow>
     (\<exists>b. (\<forall>t. indent_loop Outside st ni d (a @ t) = b @ indent_loop Outside True False (inner ni d) t)
        \<and> (\<forall>t. token_end t \<longrightarrow> pvalue n (b @ t) = Some (v, t))))"

definition elems_kept :: "nat \<Rightarrow> json list \<Rightarrow> string \<Rightarrow> bool" where
  "elems_kept n vs a \<longleftrightarrow> (\<forall>ni d. ni \<or> 0 < d \<longrightarrow>
     (\<exists>b. (\<forall>t. indent_loop Outside True ni d (a @ t) = b @ indent_loop Outside True False (inner ni d - 1) t)
        \<and> (\<forall>t. pelems n (b @ t) = Some (vs, t))))"

definition members_kept :: "nat \<Rightarrow> (string \<times> json) list \<Rightarrow> string \<Rightarrow> bool" where
  "members_kept n ms a \<longleftrightarrow> (\<forall>ni d. ni \<or> 0 < d \<longrightarrow>
     (\<exists>b. (\<forall>t. indent_loop Outside True ni d (a @ t) = b @ indent_loop Outside True False (inner ni d - 1) t)
        \<and> (\<forall>t. pmembers n (b @ t) = Some (ms, t))))"

lemma value_keptE:
  assumes "value_kept n v a" "\<not> st \<or> ni \<or> 0 < d"
  obtains b where "\<And>t. indent_loop Outside st ni d (a @ t) = b @ indent_loop Outside True False (inner ni d) t"
    "\<And>t. token_end t \<Longrightarrow> pvalue n (b @ t) = Some (v, t)"
  using assms unfolding value_kept_def by metis

lemma elems_keptE:
  assumes "elems_kept n vs a" "ni \<or> 0 < d"
  obtains b where "\<And>t. indent_loop Outside True ni d (a @ t) = b @ indent_loop Outside True False (inner ni d - 1) t"
    "\<And>t. pelems n (b @ t) = Some (vs, t)"
  using assms unfolding elems_kept_def by metis

lemma members_keptE:
  assumes "members_kept n ms a" "ni \<or> 0 < d"
  obtains b where "\<And>t. indent_loop Outside True ni d (a @ t) = b @ indent_loop Outside True False (inner ni d - 1) t"
    "\<And>t. pmembers n (b @ t) = Some (ms, t)"
  using assms unfolding members_kept_def by metis

lemma value_kept_ws:
  assumes "value_kept n v a" "list_all isWS w"
  shows "value_kept n v (w @ a)"
  using assms by (auto simp: value_kept_def indent_ws)

lemma value_kept_flat:
  assumes "\<And>st ni d t. indent_loop Outside st ni d (a @ t) = before ni d @ a @ indent_loop Outside True False (inner ni d) t"
    and "\<And>t. token_end t \<Longrightarrow> pvalue n (a @ t) = Some (v, t)"
  shows "value_kept n v a"
  unfolding value_kept_def
proof (intro allI impI)
  fix st ni d
  show "\<exists>b. (\<forall>t. indent_loop Outside st ni d (a @ t) = b @ indent_loop Outside True False (inner ni d) t)
        \<and> (\<forall>t. token_end t \<longrightarrow> pvalue n (b @ t) = Some (v, t))"
    using assms by (intro exI[of _ "before ni d @ a"]) simp
qed

lemma not_closing:
  "pvalue n s = Some x \<Longrightarrow> \<not> (case skipws s of d # _ \<Rightarrow> d = CHR '']'' | [] \<Rightarrow> False)"
  "pelems n s = Some y \<Longrightarrow> \<not> (case skipws s of d # _ \<Rightarrow> d = CHR '']'' | [] \<Rightarrow> False)"
  "pmembers n s = Some z \<Longrightarrow> \<not> (case skipws s of d # _ \<Rightarrow> d = CHR ''}'' | [] \<Rightarrow> False)"
proof -
  have "lex_literal (CHR '']'' # t) = None" for t
    by (simp add: lex_literal_def HasPrefix_def lex_number_parts take_digits_def isDigit_def)
  then show v: "pvalue n s = Some x \<Longrightarrow> \<not> (case skipws s of d # _ \<Rightarrow> d = CHR '']'' | [] \<Rightarrow> False)" for n s and x :: "json \<times> string"
    by (cases n) (auto simp: pvalue.simps(2) split: list.splits)
  show "pelems n s = Some y \<Longrightarrow> \<not> (case skipws s of d # _ \<Rightarrow> d = CHR '']'' | [] \<Rightarrow> False)"
    by (cases n) (auto simp: pelems.simps(2) dest!: v split: option.splits)
  show "pmembers n s = Some z \<Longrightarrow> \<not> (case skipws s of d # _ \<Rightarrow> d = CHR ''}'' | [] \<Rightarrow> False)"
    by (cases n) (auto simp: pmembers.simps(2) split: list.splits)
qed

lemma value_kept_array:
  assumes "elems_kept n vs a"
  shows "value_kept (Suc n) (JArr vs) (CHR ''['' # a)"
  unfolding value_kept_def
proof (intro allI impI)
  fix st ni and d :: nat
  obtain b where b: "\<And>t. indent_loop Outside True True (inner ni d) (a @ t) = b @ indent_loop Outside True False (inner ni d) t"
    "\<And>t. pelems n (b @ t) = Some (vs, t)" using elems_keptE[OF assms, of True "inner ni d"] by auto
  have "pvalue (Suc n) (CHR ''['' # b @ t) = Some (JArr vs, t)" for t
    using b(2)[of t] not_closing(2)[OF b(2)] by (simp add: pvalue.simps(2))
  with b(1) show "\<exists>b. (\<forall>t. indent_loop Outside st ni d ((CHR ''['' # a) @ t) = b @ indent_loop Outside True False (inner ni d) t)
        \<and> (\<forall>t. token_end t \<longrightarrow> pvalue (Suc n) (b @ t) = Some (JArr vs, t))"
    by (intro exI[of _ "before ni d @ CHR ''['' # b"]) (simp add: indent_steps)
qed

lemma value_kept_object:
  assumes "members_kept n ms a"
  shows "value_kept (Suc n) (JObj ms) (CHR ''{'' # a)"
  unfolding value_kept_def
proof (intro allI impI)
  fix st ni and d :: nat
  obtain b where b: "\<And>t. indent_loop Outside True True (inner ni d) (a @ t) = b @ indent_loop Outside True False (inner ni d) t"
    "\<And>t. pmembers n (b @ t) = Some (ms, t)" using members_keptE[OF assms, of True "inner ni d"] by auto
  have "pvalue (Suc n) (CHR ''{'' # b @ t) = Some (JObj ms, t)" for t
    using b(2)[of t] not_closing(3)[OF b(2)] by (simp add: pvalue.simps(2))
  with b(1) show "\<exists>b. (\<forall>t. indent_loop Outside st ni d ((CHR ''{'' # a) @ t) = b @ indent_loop Outside True False (inner ni d) t)
        \<and> (\<forall>t. token_end t \<longrightarrow> pvalue (Suc n) (b @ t) = Some (JObj ms, t))"
    by (intro exI[of _ "before ni d @ CHR ''{'' # b"]) (simp add: indent_steps)
qed

text \<open>Arrays and objects without anything in them stay on one line.\<close>

lemma value_kept_empty:
  assumes "list_all isWS w"
  shows "value_kept (Suc n) (JArr []) (CHR ''['' # w @ '']'')" "value_kept (Suc n) (JObj []) (CHR ''{'' # w @ ''}'')"
proof -
  have kept: "value_kept (Suc n) v (c # w @ [e])"
    if "\<And>st ni d t. indent_loop Outside st ni d (c # w @ e # t) = before ni d @ c # e # indent_loop Outside True False (inner ni d) t"
      "\<And>t. pvalue (Suc n) (c # e # t) = Some (v, t)" "\<not> isWS c" for c e v
    unfolding value_kept_def
  proof (intro allI impI)
    fix st ni and d :: nat
    show "\<exists>b. (\<forall>t. indent_loop Outside st ni d ((c # w @ [e]) @ t) = b @ indent_loop Outside True False (inner ni d) t)
        \<and> (\<forall>t. token_end t \<longrightarrow> pvalue (Suc n) (b @ t) = Some (v, t))"
      using that by (intro exI[of _ "before ni d @ [c, e]"]) simp
  qed
  show "value_kept (Suc n) (JArr []) (CHR ''['' # w @ '']'')" "value_kept (Suc n) (JObj []) (CHR ''{'' # w @ ''}'')"
    by (rule kept; simp add: indent_steps indent_ws[OF assms] pvalue.simps(2))+
qed

lemma elems_kept_last:
  assumes "value_kept n v a" "list_all isWS w"
  shows "elems_kept (Suc n) [v] (a @ w @ '']'')"
  unfolding elems_kept_def
proof (intro allI impI)
  fix ni and d :: nat assume pos: "ni \<or> 0 < d"
  then obtain b where b: "\<And>t. indent_loop Outside True ni d (a @ t) = b @ indent_loop Outside True False (inner ni d) t"
    "\<And>t. token_end t \<Longrightarrow> pvalue n (b @ t) = Some (v, t)" by (metis value_keptE[OF assms(1)])
  have "0 < inner ni d" using pos by auto
  with b show "\<exists>b. (\<forall>t. indent_loop Outside True ni d ((a @ w @ '']'') @ t) = b @ indent_loop Outside True False (inner ni d - 1) t)
        \<and> (\<forall>t. pelems (Suc n) (b @ t) = Some ([v], t))"
    by (intro exI[of _ "b @ newline (inner ni d - 1) @ '']''"]) (simp add: indent_ws[OF assms(2)] indent_steps pelems.simps(2))
qed

lemma elems_kept_more:
  assumes "value_kept n v a" "list_all isWS w" "elems_kept n vs a2"
  shows "elems_kept (Suc n) (v # vs) (a @ w @ CHR '','' # a2)"
  unfolding elems_kept_def
proof (intro allI impI)
  fix ni and d :: nat assume pos: "ni \<or> 0 < d"
  then obtain b where b: "\<And>t. indent_loop Outside True ni d (a @ t) = b @ indent_loop Outside True False (inner ni d) t"
    "\<And>t. token_end t \<Longrightarrow> pvalue n (b @ t) = Some (v, t)" by (metis value_keptE[OF assms(1)])
  have D: "0 < inner ni d" using pos by auto
  then obtain b2 where b2: "\<And>t. indent_loop Outside True False (inner ni d) (a2 @ t) = b2 @ indent_loop Outside True False (inner ni d - 1) t"
    "\<And>t. pelems n (b2 @ t) = Some (vs, t)" using elems_keptE[OF assms(3), of False "inner ni d"] by auto
  with b D show "\<exists>b. (\<forall>t. indent_loop Outside True ni d ((a @ w @ CHR '','' # a2) @ t) = b @ indent_loop Outside True False (inner ni d - 1) t)
        \<and> (\<forall>t. pelems (Suc n) (b @ t) = Some (v # vs, t))"
    by (intro exI[of _ "b @ CHR '','' # newline (inner ni d) @ b2"])
      (simp add: indent_ws[OF assms(2)] indent_steps pelems.simps(2) isDigit_def)
qed

text \<open>A member is a key, which is a string, a colon and a value.\<close>

lemma member_kept:
  assumes "list_all isWS w1" "string_text k key" "list_all isWS w2" "value_kept n v a" "ni \<or> 0 < d"
  obtains b where
    "\<And>t. indent_loop Outside True ni d ((w1 @ CHR 0x22 # k @ CHR 0x22 # w2 @ CHR '':'' # a) @ t)
       = (before ni d @ CHR 0x22 # k @ CHR 0x22 # CHR '':'' # CHR '' '' # b) @ indent_loop Outside True False (inner ni d) t"
    "\<And>t. token_end t \<Longrightarrow> pvalue n (b @ t) = Some (v, t)"
    "\<And>t. str_body (k @ CHR 0x22 # t) = Some (key, t)"
proof -
  have D: "\<not> True \<or> False \<or> 0 < inner ni d" using assms(5) by auto
  obtain b where b: "\<And>t. indent_loop Outside True False (inner ni d) (a @ t) = b @ indent_loop Outside True False (inner ni d) t"
    "\<And>t. token_end t \<Longrightarrow> pvalue n (b @ t) = Some (v, t)" using value_keptE[OF assms(4) D] by auto
  from assms(2) have k: "\<And>t. str_body (k @ CHR 0x22 # t) = Some (key, t)"
    "\<And>st ni d t. indent_loop In_string st ni d (k @ CHR 0x22 # t) = k @ CHR 0x22 # indent_loop Outside st ni d t"
    by (simp_all add: string_text_def)
  have "indent_loop Outside True ni d ((w1 @ CHR 0x22 # k @ CHR 0x22 # w2 @ CHR '':'' # a) @ t)
       = (before ni d @ CHR 0x22 # k @ CHR 0x22 # CHR '':'' # CHR '' '' # b) @ indent_loop Outside True False (inner ni d) t" for t
    using assms(5) D indent_ws[OF assms(1), of True ni d] indent_ws[OF assms(3), of True False "inner ni d"] b(1) k(2)
    by (simp add: indent_steps)
  from that[OF this b(2) k(1)] show thesis .
qed

lemma members_kept_last:
  assumes "list_all isWS w1" "string_text k key" "list_all isWS w2" "value_kept n v a" "list_all isWS w3"
  shows "members_kept (Suc n) [(key, v)] ((w1 @ CHR 0x22 # k @ CHR 0x22 # w2 @ CHR '':'' # a) @ w3 @ ''}'')"
  unfolding members_kept_def
proof (intro allI impI)
  fix ni and d :: nat assume pos: "ni \<or> 0 < d"
  have D: "0 < inner ni d" using pos by auto
  from member_kept[OF assms(1-4) pos] obtain b where b:
    "\<And>t. indent_loop Outside True ni d ((w1 @ CHR 0x22 # k @ CHR 0x22 # w2 @ CHR '':'' # a) @ t)
       = (before ni d @ CHR 0x22 # k @ CHR 0x22 # CHR '':'' # CHR '' '' # b) @ indent_loop Outside True False (inner ni d) t"
    "\<And>t. token_end t \<Longrightarrow> pvalue n (b @ t) = Some (v, t)" "\<And>t. str_body (k @ CHR 0x22 # t) = Some (key, t)" by blast
  have "indent_loop Outside True ni d (((w1 @ CHR 0x22 # k @ CHR 0x22 # w2 @ CHR '':'' # a) @ w3 @ ''}'') @ t)
      = (before ni d @ CHR 0x22 # k @ CHR 0x22 # CHR '':'' # CHR '' '' # b @ newline (inner ni d - 1) @ ''}'')
        @ indent_loop Outside True False (inner ni d - 1) t" for t
    using b(1)[of "w3 @ ''}'' @ t"] D by (simp add: indent_ws[OF assms(5)] indent_steps)
  moreover have "pmembers (Suc n) ((before ni d @ CHR 0x22 # k @ CHR 0x22 # CHR '':'' # CHR '' '' # b @ newline (inner ni d - 1) @ ''}'') @ t)
      = Some ([(key, v)], t)" for t
    using b(2,3) by (simp add: pmembers.simps(2))
  ultimately show "\<exists>b. (\<forall>t. indent_loop Outside True ni d (((w1 @ CHR 0x22 # k @ CHR 0x22 # w2 @ CHR '':'' # a) @ w3 @ ''}'') @ t)
      = b @ indent_loop Outside True False (inner ni d - 1) t) \<and> (\<forall>t. pmembers (Suc n) (b @ t) = Some ([(key, v)], t))" by blast
qed

lemma members_kept_more:
  assumes "list_all isWS w1" "string_text k key" "list_all isWS w2" "value_kept n v a" "list_all isWS w3" "members_kept n ms a2"
  shows "members_kept (Suc n) ((key, v) # ms) ((w1 @ CHR 0x22 # k @ CHR 0x22 # w2 @ CHR '':'' # a) @ w3 @ CHR '','' # a2)"
  unfolding members_kept_def
proof (intro allI impI)
  fix ni and d :: nat assume pos: "ni \<or> 0 < d"
  have D: "0 < inner ni d" using pos by auto
  from member_kept[OF assms(1-4) pos] obtain b where b:
    "\<And>t. indent_loop Outside True ni d ((w1 @ CHR 0x22 # k @ CHR 0x22 # w2 @ CHR '':'' # a) @ t)
       = (before ni d @ CHR 0x22 # k @ CHR 0x22 # CHR '':'' # CHR '' '' # b) @ indent_loop Outside True False (inner ni d) t"
    "\<And>t. token_end t \<Longrightarrow> pvalue n (b @ t) = Some (v, t)" "\<And>t. str_body (k @ CHR 0x22 # t) = Some (key, t)" by blast
  obtain b2 where b2: "\<And>t. indent_loop Outside True False (inner ni d) (a2 @ t) = b2 @ indent_loop Outside True False (inner ni d - 1) t"
    "\<And>t. pmembers n (b2 @ t) = Some (ms, t)" using members_keptE[OF assms(6), of False "inner ni d"] D by auto
  let ?b = "before ni d @ CHR 0x22 # k @ CHR 0x22 # CHR '':'' # CHR '' '' # b @ CHR '','' # newline (inner ni d) @ b2"
  have "indent_loop Outside True ni d (((w1 @ CHR 0x22 # k @ CHR 0x22 # w2 @ CHR '':'' # a) @ w3 @ CHR '','' # a2) @ t)
      = ?b @ indent_loop Outside True False (inner ni d - 1) t" for t
    using b(1)[of "w3 @ CHR '','' # a2 @ t"] b2(1)[of t] D by (simp add: indent_ws[OF assms(5)] indent_steps)
  moreover have "pmembers (Suc n) (?b @ t) = Some ((key, v) # ms, t)" for t
    using b(2,3) b2(2) by (simp add: pmembers.simps(2) isDigit_def)
  ultimately show "\<exists>b. (\<forall>t. indent_loop Outside True ni d (((w1 @ CHR 0x22 # k @ CHR 0x22 # w2 @ CHR '':'' # a) @ w3 @ CHR '','' # a2) @ t)
      = b @ indent_loop Outside True False (inner ni d - 1) t) \<and> (\<forall>t. pmembers (Suc n) (b @ t) = Some ((key, v) # ms, t))" by blast
qed

lemma value_kept_string:
  assumes "string_text a v"
  shows "value_kept (Suc n) (JStr v) (CHR 0x22 # a @ [CHR 0x22])"
  using assms by (intro value_kept_flat) (simp_all add: string_text_def indent_steps pvalue.simps(2))

lemma value_kept_token:
  assumes "list_all token_char a" "a \<noteq> []" "\<And>t. token_end t \<Longrightarrow> lex_literal (a @ t) = Some (v, t)"
  shows "value_kept (Suc n) v a"
proof (rule value_kept_flat)
  obtain c a' where a: "a = c # a'" "token_char c" using assms(1,2) by (cases a) auto
  show "pvalue (Suc n) (a @ t) = Some (v, t)" if "token_end t" for t
    using assms(3)[OF that] token_char_simps[OF a(2)] by (simp add: a(1) pvalue.simps(2))
qed (rule indent_token[OF assms(1,2)])

lemma parsed_kept:
  "pvalue n s = Some (v, r) \<Longrightarrow> \<exists>a. s = a @ r \<and> value_kept n v a"
  "pelems n s = Some (vs, r) \<Longrightarrow> \<exists>a. s = a @ r \<and> elems_kept n vs a"
  "pmembers n s = Some (ms, r) \<Longrightarrow> \<exists>a. s = a @ r \<and> members_kept n ms a"
proof (induction n s and n s and n s arbitrary: v r and vs r and ms r rule: pvalue_pelems_pmembers.induct)
  case (2 n s)
  obtain w where w: "s = w @ skipws s" "list_all isWS w" by (rule skipws_cases)
  have "\<exists>a. skipws s = a @ r \<and> value_kept (Suc n) v a"
  proof -
    obtain c t where t: "skipws s = c # t" using 2(3) by (cases "skipws s") (auto simp: pvalue.simps(2))
    obtain w2 where w2: "t = w2 @ skipws t" "list_all isWS w2" by (rule skipws_cases)
    consider "c = CHR ''{''" "skipws t = CHR ''}'' # r" "v = JObj []" | "c = CHR ''[''" "skipws t = CHR '']'' # r" "v = JArr []"
      | (obj) ms where "c = CHR ''{''" "\<not> (case skipws t of d # _ \<Rightarrow> d = CHR ''}'' | [] \<Rightarrow> False)" "pmembers n t = Some (ms, r)" "v = JObj ms"
      | (arr) vs where "c = CHR ''[''" "\<not> (case skipws t of d # _ \<Rightarrow> d = CHR '']'' | [] \<Rightarrow> False)" "pelems n t = Some (vs, r)" "v = JArr vs"
      | (str) k where "c = CHR 0x22" "str_body t = Some (k, r)" "v = JStr k"
      | (lit) "lex_literal (skipws s) = Some (v, r)"
      using 2(3) t by (auto simp: pvalue.simps(2) split: if_splits list.splits)
    then show ?thesis
    proof cases
      case 1
      with w2 t value_kept_empty(2)[OF w2(2), of n] show ?thesis by (intro exI[of _ "CHR ''{'' # w2 @ ''}''"]) simp
    next
      case 2
      with w2 t value_kept_empty(1)[OF w2(2), of n] show ?thesis by (intro exI[of _ "CHR ''['' # w2 @ '']''"]) simp
    next
      case obj
      from 2(1)[OF t obj(1-3)] obtain a where "t = a @ r" "members_kept n ms a" by blast
      with value_kept_object[of n ms a] t obj show ?thesis by (intro exI[of _ "CHR ''{'' # a"]) simp
    next
      case arr
      from 2(2)[OF t _ arr(1-3)] arr(1) obtain a where "t = a @ r" "elems_kept n vs a" by auto
      with value_kept_array[of n vs a] t arr show ?thesis by (intro exI[of _ "CHR ''['' # a"]) simp
    next
      case str
      from str_bodyD[OF str(2)] obtain a where "t = a @ CHR 0x22 # r" "string_text a k" by blast
      with value_kept_string[of a k n] t str show ?thesis by (intro exI[of _ "CHR 0x22 # a @ [CHR 0x22]"]) simp
    next
      case lit
      from lex_literalD[OF this] obtain a where "skipws s = a @ r" "a \<noteq> []" "list_all token_char a"
        "\<And>t. token_end t \<Longrightarrow> lex_literal (a @ t) = Some (v, t)" by blast
      with value_kept_token[of a v n] show ?thesis by (intro exI[of _ a]) simp
    qed
  qed
  then obtain a where "skipws s = a @ r" "value_kept (Suc n) v a" by blast
  with w value_kept_ws[OF _ w(2), of "Suc n" v a] show ?case by (intro exI[of _ "w @ a"]) simp
next
  case (4 n s)
  from 4(3) obtain v r1 c u where v: "pvalue n s = Some (v, r1)" "skipws r1 = c # u"
    and c: "c = CHR '']'' \<and> vs = [v] \<and> r = u \<or> (c = CHR '','' \<and> (\<exists>vs'. pelems n u = Some (vs', r) \<and> vs = v # vs'))"
    by (auto simp: pelems.simps(2) split: option.splits list.splits if_splits)
  from 4(1)[OF v(1)] obtain a where a: "s = a @ r1" "value_kept n v a" by blast
  obtain w where w: "r1 = w @ c # u" "list_all isWS w" using skipws_cases[of r1] v(2) by metis
  from c show ?case
  proof (elim disjE conjE exE)
    assume "c = CHR '']''" "vs = [v]" "r = u"
    with elems_kept_last[OF a(2) w(2)] a(1) w(1) show ?case by (intro exI[of _ "a @ w @ '']''"]) simp
  next
    fix vs' assume next': "c = CHR '',''" "pelems n u = Some (vs', r)" "vs = v # vs'"
    from 4(2)[OF v(1) refl v(2) _ next'(1,2)] next'(1) obtain a2 where "u = a2 @ r" "elems_kept n vs' a2" by auto
    with elems_kept_more[OF a(2) w(2)] a(1) w(1) next' show ?case by (intro exI[of _ "a @ w @ CHR '','' # a2"]) simp
  qed
next
  case (6 n s)
  from 6(3) obtain t key r1 u v r2 d u2 where s: "skipws s = CHR 0x22 # t" "str_body t = Some (key, r1)" "skipws r1 = CHR '':'' # u"
    and v: "pvalue n u = Some (v, r2)" "skipws r2 = d # u2"
    and d: "d = CHR ''}'' \<and> ms = [(key, v)] \<and> r = u2 \<or> (d = CHR '','' \<and> (\<exists>ms'. pmembers n u2 = Some (ms', r) \<and> ms = (key, v) # ms'))"
    by (auto simp: pmembers.simps(2) split: option.splits list.splits if_splits)
  have "\<exists>a. u = a @ r2 \<and> value_kept n v a" using s v(1) by (intro 6(1)) auto
  then obtain a where a: "u = a @ r2" "value_kept n v a" by blast
  from str_bodyD[OF s(2)] obtain k where k: "t = k @ CHR 0x22 # r1" "string_text k key" by blast
  obtain w1 where w1: "s = w1 @ CHR 0x22 # t" "list_all isWS w1" using skipws_cases[of s] s(1) by metis
  obtain w2 where w2: "r1 = w2 @ CHR '':'' # u" "list_all isWS w2" using skipws_cases[of r1] s(3) by metis
  obtain w3 where w3: "r2 = w3 @ d # u2" "list_all isWS w3" using skipws_cases[of r2] v(2) by metis
  let ?m = "w1 @ CHR 0x22 # k @ CHR 0x22 # w2 @ CHR '':'' # a"
  from d show ?case
  proof (elim disjE conjE exE)
    assume "d = CHR ''}''" "ms = [(key, v)]" "r = u2"
    with members_kept_last[OF w1(2) k(2) w2(2) a(2) w3(2)] w1(1) k(1) w2(1) a(1) w3(1)
    show ?case by (intro exI[of _ "?m @ w3 @ ''}''"]) simp
  next
    fix ms' assume next': "d = CHR '',''" "pmembers n u2 = Some (ms', r)" "ms = (key, v) # ms'"
    have "\<exists>a2. u2 = a2 @ r \<and> members_kept n ms' a2" using s v next' by (intro 6(2)) auto
    then obtain a2 where "u2 = a2 @ r" "members_kept n ms' a2" by blast
    with members_kept_more[OF w1(2) k(2) w2(2) a(2) w3(2)] w1(1) k(1) w2(1) a(1) w3(1) next'
    show ?case by (intro exI[of _ "?m @ w3 @ CHR '','' # a2"]) simp
  qed
qed simp_all

text \<open>What follows a value at the top is copied.\<close>

lemma indent_trailing: "list_all isWS w \<Longrightarrow> indent_loop Outside True False 0 w = w"
proof (induction w)
  case (Cons c w)
  then have "c \<notin> {CHR ''{'', CHR ''}'', CHR ''['', CHR '']'', CHR '','', CHR '':'', CHR 0x22}" by (auto simp: isWS_def)
  with Cons show ?case by (simp add: indent_loop.simps(4))
qed simp

lemma Indent_parse:
  assumes "json_parse src = Some v"
  shows "\<exists>dst. Indent src = Some dst \<and> json_parse dst = Some v"
proof -
  from assms obtain r where r: "pvalue (2 * length src + 2) src = Some (v, r)" "skipws r = []" "json_depth v \<le> 10000"
    by (auto simp: json_parse_def split: option.splits prod.splits if_splits)
  from parsed_kept(1)[OF r(1)] obtain a where a: "src = a @ r" "value_kept (2 * length src + 2) v a" by blast
  obtain b where b: "\<And>t. indent_loop Outside False False 0 (a @ t) = b @ indent_loop Outside True False 0 t"
    "\<And>t. token_end t \<Longrightarrow> pvalue (2 * length src + 2) (b @ t) = Some (v, t)"
    using value_keptE[OF a(2), of False False 0] by auto
  have ws: "list_all isWS r" using r(2) by (simp add: skipws_def list_all_iff)
  then have "token_end r" by (cases r) (auto simp: isWS_def isDigit_def)
  from fuel_enough(1)[OF b(2)[OF this]] have "pvalue (2 * length (b @ r) + 2) (b @ r) = Some (v, r)"
    by (rule enoughD(2)) simp
  then have "json_parse (b @ r) = Some v" using r(2,3) by (simp add: json_parse_def)
  moreover have "Indent src = Some (b @ r)" using assms b(1)[of r] a(1) indent_trailing[OF ws] by (simp add: Indent_def)
  ultimately show ?thesis by blast
qed

end
