(* ===== verification/EchoServer.thy ===== *)
theory EchoServer
  imports JsonIndent
begin

text \<open>
  The tool \<^verbatim>\<open>cmd/echo_server\<close>, which prints the requests that BMCs or the collector send to it: its handler
  and what its \<^verbatim>\<open>main\<close> listens on. The printed lines are its result, so they are modelled, as the
  texts handed to the log, each with its line break.
\<close>

section \<open>The server\<close>

type_synonym echo = "string list \<times> nat \<times> string"

text \<open>
  \<open>readOk\<close> and \<open>writeOk\<close> tell whether the body could be read to its end and whether the answer could be
  sent; the body is what was read.
\<close>

definition echo_parseRequest :: "bool \<Rightarrow> bool \<Rightarrow> string \<Rightarrow> echo" where
  "echo_parseRequest readOk writeOk bodyString =
     (let readErr = (if readOk then [] else [''ERROR: Could not read body!'' @ [CHR 0x0A]])
      in case Indent bodyString of
           None \<Rightarrow>
             (readErr @ [''ERROR: Could not parse JSON payload! Full payload:'' @ [CHR 0x0A]] @
              (if bodyString = [] then [CHR 0x09 # ''<null>'' @ [CHR 0x0A]]
               else map (\<lambda>line. CHR 0x09 # line @ [CHR 0x0A]) (Split bodyString (CHR 0x0A))) @
              (if writeOk then [] else [''ERROR: Could not write that JSON was malformed!'' @ [CHR 0x0A]]),
              400, ''JSON payload malformed!'')
         | Some prettyJSON \<Rightarrow> (readErr @ [prettyJSON @ [CHR 0x0A, CHR 0x0A]], 200, []))"

text \<open>The lines at the start, and the address with the certificate and key when TLS is on.\<close>

definition echo_main :: "bool \<Rightarrow> string \<Rightarrow> string \<Rightarrow> string list \<times> string \<times> (string \<times> string) option" where
  "echo_main tlsEnabled tlsCert tlsKey =
     (if tlsEnabled
      then ([''TLS Certificate: '' @ tlsCert, ''TLS Key:         '' @ tlsKey, ''Listening with TLS on port 443''],
            '':443'', Some (tlsCert, tlsKey))
      else ([''Listening without TLS on port 80''], '':80'', None))"

section \<open>Property\<close>

text \<open>
  C21: the echo server shows what it was sent. A body that is JSON is answered 200 and printed as a text
  that reads as the same JSON value; any other body is answered 400 and printed line by line, so that
  the lines, without the tab and the line break of each, joined again are the body (\<^verbatim>\<open><null>\<close> for the empty one).
\<close>

theorem echo_shows_body:
  "case json_parse body of
     Some v \<Rightarrow> \<exists>text. echo_parseRequest True writeOk body = ([text @ [CHR 0x0A, CHR 0x0A]], 200, []) \<and> json_parse text = Some v
   | None \<Rightarrow> \<exists>lines. echo_parseRequest True True body =
        ((''ERROR: Could not parse JSON payload! Full payload:'' @ [CHR 0x0A]) # map (\<lambda>line. CHR 0x09 # line @ [CHR 0x0A]) lines,
         400, ''JSON payload malformed!'')
        \<and> Join lines (CHR 0x0A) = (if body = [] then ''<null>'' else body)"
proof (cases "json_parse body")
  case None
  have "Indent body = None" using None by (simp add: Indent_def)
  then have "echo_parseRequest True True body =
        ((''ERROR: Could not parse JSON payload! Full payload:'' @ [CHR 0x0A]) # map (\<lambda>line. CHR 0x09 # line @ [CHR 0x0A])
           (if body = [] then [''<null>''] else Split body (CHR 0x0A)), 400, ''JSON payload malformed!'')"
    by (simp add: echo_parseRequest_def)
  moreover have "Join (if body = [] then [''<null>''] else Split body (CHR 0x0A)) (CHR 0x0A) = (if body = [] then ''<null>'' else body)"
    by simp
  ultimately show ?thesis unfolding None option.case by blast
next
  case (Some v)
  from Indent_parse[OF this] show ?thesis by (auto simp: Some echo_parseRequest_def)
qed

end
