(* ===== verification/KafkaTool.thy ===== *)
theory KafkaTool
  imports Rest JsonRoundtrip
begin

text \<open>
  The tool \<^verbatim>\<open>cmd/kafka_tool\<close>, which exercises two client libraries of Kafka with the same messages: it lists
  the topics and sends a number of test events through each. The libraries are parameters. Of what
  it prints, the listing of the topics is modelled; the lines that show errors and values of the libraries
  are not, nor are the goroutines that only print the reports of the libraries.
\<close>

section \<open>Libraries and state\<close>

record 'e kafka_libs =
  kl_NewAdminClient :: "string \<Rightarrow> 'e \<Rightarrow> bool \<times> 'e"
  kl_GetMetadata :: "'e \<Rightarrow> (string \<times> nat) list option \<times> 'e"
  kl_AdminClose :: "'e \<Rightarrow> unit \<times> 'e"
  kl_NewProducer :: "string \<Rightarrow> 'e \<Rightarrow> string option \<times> 'e"
  kl_Produce :: "string \<Rightarrow> string \<Rightarrow> 'e \<Rightarrow> bool \<times> 'e"
  kl_Flush :: "nat \<Rightarrow> 'e \<Rightarrow> nat \<times> 'e"
  kl_Close :: "'e \<Rightarrow> unit \<times> 'e"
  kl_NewClient :: "string \<Rightarrow> 'e \<Rightarrow> bool \<times> 'e"
  kl_Topics :: "'e \<Rightarrow> string list \<times> 'e"
  kl_NewAsyncProducerFromClient :: "'e \<Rightarrow> bool \<times> 'e"
  kl_Input :: "string \<Rightarrow> string \<Rightarrow> 'e \<Rightarrow> unit \<times> 'e"
  kl_AsyncClose :: "'e \<Rightarrow> unit \<times> 'e"

record 'e tool =
  to_bootstrapServers :: string
  to_lines :: "string list"
  to_ext :: 'e

definition callIO :: "('e \<Rightarrow> 'a \<times> 'e) \<Rightarrow> ('e tool, 'a) io" where
  "callIO f = (\<lambda>w. let (x, e) = f (to_ext w) in (Ret x, w\<lparr>to_ext := e\<rparr>))"

definition printIO :: "string \<Rightarrow> ('e tool, unit) io" where
  "printIO line = modifyIO (\<lambda>w. w\<lparr>to_lines := to_lines w @ [line]\<rparr>)"

section \<open>The tests\<close>

definition kafkaTopic :: string where
  "kafkaTopic = ''cray-dmtf-resource-event''"

definition iterationCount :: nat where
  "iterationCount = 1000"

text \<open>One line of the test message, with its line break.\<close>

definition ln :: "string \<Rightarrow> string" where
  "ln s = s @ [CHR 0x0A]"

text \<open>The message, with the name of the library as its context and the number of the event.\<close>

definition test_payload :: "string \<Rightarrow> nat \<Rightarrow> string" where
  "test_payload context i =
     ln [] @ ln ''{'' @
     ln (''    \"Context\": \"'' @ context @ ''\",'') @
     ln ''    \"Events\": ['' @
     ln ''        {'' @
     ln (''            \"EventId\": \"'' @ Itoa (int i) @ ''\",'') @
     ln ''            \"Severity\": \"OK\",'' @
     ln ''            \"Message\": \"The power state of resource /redfish/v1/Systems/Node0 has changed to type On.\",'' @
     ln ''            \"MessageId\": \"CrayAlerts.1.0.ResourcePowerStateChanged\",'' @
     ln ''            \"MessageArgs\": ['' @
     ln ''                \"/redfish/v1/Systems/Node0\",'' @
     ln ''                \"On\"'' @
     ln ''            ],'' @
     ln ''            \"OriginOfCondition\": {'' @
     ln ''                \"@odata.id\": \"/redfish/v1/Systems/Node0\"'' @
     ln ''            }'' @
     ln ''        }'' @
     ln ''    ]'' @
     ln ''}''"

definition testConfluent :: "'e kafka_libs \<Rightarrow> string \<Rightarrow> int \<Rightarrow> ('e tool, unit) io" where
  "testConfluent L kafkaHost kafkaPort =
     bindIO (getsIO to_bootstrapServers) (\<lambda>servers.
     thenIO (printIO (''Connecting to '' @ servers @ '' and gathering topics with Confluent library...''))
     (let bootstrap = kafkaHost @ '':'' @ Itoa kafkaPort in
      bindIO (callIO (kl_NewAdminClient L bootstrap)) (\<lambda>client.
      if \<not> client then return ()
      else bindIO (callIO (kl_GetMetadata L)) (\<lambda>metadata.
      case metadata of
        None \<Rightarrow> return ()
      | Some topics \<Rightarrow>
          thenIO (printIO (''Found '' @ Itoa (int (length topics)) @ '' topics:''))
          (thenIO (forIO (\<lambda>(topic, partitions).
             printIO (CHR 0x09 # topic @ '' - '' @ Itoa (int partitions) @ '' partition(s).'')) topics)
          (bindIO (callIO (kl_AdminClose L)) (\<lambda>_.
           bindIO (callIO (kl_NewProducer L bootstrap)) (\<lambda>err.
           case err of
             Some e \<Rightarrow> panicIO (ExplicitPanic e)
           | None \<Rightarrow>
               thenIO (forIO (\<lambda>i. bindIO (callIO (kl_Produce L kafkaTopic (test_payload ''Confluent'' i))) (\<lambda>_. return ()))
                         [1..<Suc iterationCount])
               (bindIO (callIO (kl_Flush L 60000)) (\<lambda>_.
                callIO (kl_Close L)))))))))))"

definition testSarama :: "'e kafka_libs \<Rightarrow> ('e tool, unit) io" where
  "testSarama L =
     bindIO (getsIO to_bootstrapServers) (\<lambda>servers.
     thenIO (printIO (''Connecting to '' @ servers @ '' and gathering topics with Sarama library...''))
     (bindIO (callIO (kl_NewClient L servers)) (\<lambda>client.
      if \<not> client then return ()
      else bindIO (callIO (kl_Topics L)) (\<lambda>topics.
        thenIO (printIO (''Found '' @ Itoa (int (length topics)) @ '' topics:''))
        (thenIO (forIO (\<lambda>topic. printIO (CHR 0x09 # topic)) topics)
        (bindIO (callIO (kl_NewAsyncProducerFromClient L)) (\<lambda>producer.
         if \<not> producer then printIO ''Unable to connect to Kafka!''
         else
           thenIO (forIO (\<lambda>i. callIO (kl_Input L kafkaTopic (test_payload ''Sarama'' i))) [1..<Suc iterationCount])
           (callIO (kl_AsyncClose L)))))))))"

definition kafka_tool_main :: "'e kafka_libs \<Rightarrow> string \<Rightarrow> int \<Rightarrow> ('e tool, unit) io" where
  "kafka_tool_main L kafkaHost kafkaPort =
     thenIO (modifyIO (\<lambda>w. w\<lparr>to_bootstrapServers := kafkaHost @ '':'' @ Itoa kafkaPort\<rparr>))
     (thenIO (printIO ''---CONFLUENT---'')
     (thenIO (testConfluent L kafkaHost kafkaPort)
     (thenIO (printIO [])
     (thenIO (printIO [])
     (thenIO (printIO ''---SARAMA---'')
     (testSarama L))))))"

section \<open>What the test messages say\<close>

text \<open>Text without quotes, escapes and control characters reads as itself.\<close>

definition plain_text :: "string \<Rightarrow> bool" where
  "plain_text s \<longleftrightarrow> list_all (\<lambda>c. c \<noteq> CHR 0x22 \<and> c \<noteq> CHR 0x5C \<and> 32 \<le> (of_char c :: nat) \<and> of_char c < (128 :: nat)) s"

lemma str_body_plain: "plain_text s \<Longrightarrow> str_body (s @ CHR 0x22 # r) = Some (s, r)"
  unfolding plain_text_def by (induction s) simp_all

lemma plain_utf8: "plain_text s \<Longrightarrow> valid_utf8 s"
  unfolding plain_text_def by (induction s) (simp_all add: utf8_len_ascii)

lemma plain_Itoa: "plain_text (Itoa (int i))"
proof -
  have "list_all isDigit (Itoa (int i))" using showNat_digits[of i] by (simp add: Itoa_def)
  then show ?thesis unfolding plain_text_def by (rule list.pred_mono_strong) (auto simp: isDigit_def)
qed

text \<open>The strings of the test message.\<close>

lemma message_texts:
  "str_body (''Context'' @ CHR 0x22 # r) = Some (''Context'', r)"
  "str_body (''Events'' @ CHR 0x22 # r) = Some (''Events'', r)"
  "str_body (''EventId'' @ CHR 0x22 # r) = Some (''EventId'', r)"
  "str_body (''Severity'' @ CHR 0x22 # r) = Some (''Severity'', r)"
  "str_body (''OK'' @ CHR 0x22 # r) = Some (''OK'', r)"
  "str_body (''Message'' @ CHR 0x22 # r) = Some (''Message'', r)"
  "str_body (''The power state of resource /redfish/v1/Systems/Node0 has changed to type On.'' @ CHR 0x22 # r)
     = Some (''The power state of resource /redfish/v1/Systems/Node0 has changed to type On.'', r)"
  "str_body (''MessageId'' @ CHR 0x22 # r) = Some (''MessageId'', r)"
  "str_body (''CrayAlerts.1.0.ResourcePowerStateChanged'' @ CHR 0x22 # r) = Some (''CrayAlerts.1.0.ResourcePowerStateChanged'', r)"
  "str_body (''MessageArgs'' @ CHR 0x22 # r) = Some (''MessageArgs'', r)"
  "str_body (''/redfish/v1/Systems/Node0'' @ CHR 0x22 # r) = Some (''/redfish/v1/Systems/Node0'', r)"
  "str_body (''On'' @ CHR 0x22 # r) = Some (''On'', r)"
  "str_body (''OriginOfCondition'' @ CHR 0x22 # r) = Some (''OriginOfCondition'', r)"
  "str_body (''@odata.id'' @ CHR 0x22 # r) = Some (''@odata.id'', r)"
  by (rule str_body_plain, code_simp)+

lemmas message_strings = message_texts[unfolded append.simps]

definition test_members :: "string \<Rightarrow> string \<Rightarrow> (string \<times> json) list" where
  "test_members c ds = [(''Context'', JStr c), (''Events'', JArr [JObj [
     (''EventId'', JStr ds), (''Severity'', JStr ''OK''),
     (''Message'', JStr ''The power state of resource /redfish/v1/Systems/Node0 has changed to type On.''),
     (''MessageId'', JStr ''CrayAlerts.1.0.ResourcePowerStateChanged''),
     (''MessageArgs'', JArr [JStr ''/redfish/v1/Systems/Node0'', JStr ''On'']),
     (''OriginOfCondition'', JObj [(''@odata.id'', JStr ''/redfish/v1/Systems/Node0'')])]])]"

lemma skip_blank: "skipws (CHR '' '' # s) = skipws s" "skipws (CHR 0x0A # s) = skipws s" "skipws [] = []"
  by (simp_all add: skipws_def isWS_def)

lemma test_parse:
  assumes "plain_text c"
  shows "pvalue (n + 20) (test_payload c i) = Some (JObj (test_members c (Itoa (int i))), [CHR 0x0A])"
  by (simp add: test_payload_def ln_def eval_nat_numeral pvalue.simps(2) pelems.simps(2) pmembers.simps(2) skip_blank
     message_strings str_body_plain[OF assms] str_body_plain[OF plain_Itoa] test_members_def del: str_body.simps)

definition test_events :: "string \<Rightarrow> nat \<Rightarrow> Events" where
  "test_events c i = events_zero\<lparr>evs_Context := c, evs_Events := [event_zero\<lparr>ev_EventId := Itoa (int i), ev_Severity := ''OK'',
     ev_Message := ''The power state of resource /redfish/v1/Systems/Node0 has changed to type On.'',
     ev_MessageId := ''CrayAlerts.1.0.ResourcePowerStateChanged'', ev_MessageArgs := [''/redfish/v1/Systems/Node0'', ''On''],
     ev_OriginOfCondition := Some \<lparr>rid_Oid = ''/redfish/v1/Systems/Node0''\<rparr>\<rparr>]\<rparr>"

lemma test_json: "plain_text c \<Longrightarrow> json_parse (test_payload c i) = Some (JObj (test_members c (Itoa (int i))))"
proof -
  assume c: "plain_text c"
  have "20 \<le> length (test_payload c i)" by (simp add: test_payload_def ln_def)
  then obtain n where n: "2 * length (test_payload c i) + 2 = n + 20" by (metis add.commute le_Suc_ex le_add1 le_add2 mult_2 order_trans)
  have "json_depth (JObj (test_members c (Itoa (int i)))) \<le> 10000" by (simp add: test_members_def)
  then show ?thesis using test_parse[OF c, of n i] unfolding json_parse_def n by (simp add: skip_blank)
qed

text \<open>The event as a Go map, whose keys are sorted.\<close>

definition test_object :: "string \<Rightarrow> (string \<times> json) list" where
  "test_object ds = [(''EventId'', JStr ds),
     (''Message'', JStr ''The power state of resource /redfish/v1/Systems/Node0 has changed to type On.''),
     (''MessageArgs'', JArr [JStr ''/redfish/v1/Systems/Node0'', JStr ''On'']),
     (''MessageId'', JStr ''CrayAlerts.1.0.ResourcePowerStateChanged''),
     (''OriginOfCondition'', JObj [(''@odata.id'', JStr ''/redfish/v1/Systems/Node0'')]), (''Severity'', JStr ''OK'')]"

lemma test_iface: 
  "iface_members (test_members c ds) [] = Some [(''Context'', JStr c), (''Events'', JArr [JObj (test_object ds)])]"
  "event_objects [JObj (test_object ds)] = Some [test_object ds]"
  "dec_struct events_fields (JObj [(''Context'', JStr c)]) events_zero = (events_zero\<lparr>evs_Context := c\<rparr>, True)"
  "dec_struct event_fields (JObj (test_object ds)) event_zero = (event_zero\<lparr>ev_EventId := ds, ev_Severity := ''OK'',
     ev_Message := ''The power state of resource /redfish/v1/Systems/Node0 has changed to type On.'',
     ev_MessageId := ''CrayAlerts.1.0.ResourcePowerStateChanged'', ev_MessageArgs := [''/redfish/v1/Systems/Node0'', ''On''],
     ev_OriginOfCondition := Some \<lparr>rid_Oid = ''/redfish/v1/Systems/Node0''\<rparr>\<rparr>, True)"
  subgoal by code_simp
  subgoal by code_simp
  subgoal by code_simp
  subgoal by code_simp
  done
lemma message_utf8:
  "valid_utf8 ''Context''" "valid_utf8 ''EventId''" "valid_utf8 ''Severity''" "valid_utf8 ''OK''" "valid_utf8 ''Message''"
  "valid_utf8 ''The power state of resource /redfish/v1/Systems/Node0 has changed to type On.''" "valid_utf8 ''MessageId''"
  "valid_utf8 ''CrayAlerts.1.0.ResourcePowerStateChanged''" "valid_utf8 ''MessageArgs''" "valid_utf8 ''/redfish/v1/Systems/Node0''"
  "valid_utf8 ''On''" "valid_utf8 ''OriginOfCondition''" "valid_utf8 ''@odata.id''"
  by (rule plain_utf8, code_simp)+

lemma test_printable: "valid_utf8 ds \<Longrightarrow> printable (JObj (test_object ds))"
  unfolding test_object_def printable.simps list.pred_inject fst_conv snd_conv by (intro conjI message_utf8 TrueI list.pred_inject(1))

lemma test_decoded:
  assumes "plain_text c"
  shows "unmarshalEvents (test_payload c i) = Some (test_events c i)"
proof -
  let ?ds = "Itoa (int i)"
  have print: "printable (JObj [(''Context'', JStr c)])" "printable (JArr [JObj (test_object ?ds)])" "printable (JObj (test_object ?ds))"
    using test_printable[of "Itoa (int i)"] plain_utf8[OF assms] plain_utf8[OF plain_Itoa, of i] by (simp_all add: message_utf8 del: valid_utf8.simps)
  have "json_depth (JObj [(''Context'', JStr c)]) \<le> 10000" "json_depth (JArr [JObj (test_object ?ds)]) \<le> 10000"
    "json_depth (JObj (test_object ?ds)) \<le> 10000" by (simp_all add: test_object_def)
  note reread = json_parse_render[OF print(1) this(1)] json_parse_render[OF print(2) this(2)] json_parse_render[OF print(3) this(3)]
  have "map_of (test_object ?ds) ''OriginOfCondition'' = Some (JObj [(''@odata.id'', JStr ''/redfish/v1/Systems/Node0'')])"
    by (simp add: test_object_def)
  then have event: "parse_event (test_object ?ds) = Some (event_zero\<lparr>ev_EventId := ?ds, ev_Severity := ''OK'',
     ev_Message := ''The power state of resource /redfish/v1/Systems/Node0 has changed to type On.'',
     ev_MessageId := ''CrayAlerts.1.0.ResourcePowerStateChanged'', ev_MessageArgs := [''/redfish/v1/Systems/Node0'', ''On''],
     ev_OriginOfCondition := Some \<lparr>rid_Oid = ''/redfish/v1/Systems/Node0''\<rparr>\<rparr>)"
    using reread(3) test_iface(4)[of ?ds] by (simp add: parse_event_def Unmarshal_Event_def Unmarshal_def)
  have rest: "delete_key ''Events'' [(''Context'', JStr c), (''Events'', JArr [JObj (test_object ?ds)])] = [(''Context'', JStr c)]"
    by (simp add: delete_key_def)
  show ?thesis
    using reread(1,2) test_iface(1)[of c ?ds] test_iface(2)[of ?ds] test_iface(3)[of c] event test_json[OF assms, of i]
    by (simp add: unmarshalEvents_def Unmarshal_object_def Unmarshal_Events_def Unmarshal_def Unmarshal_event_objects_def rest test_events_def events_zero_def)
qed

section \<open>What is sent\<close>

text \<open>Libraries that keep a list of the messages given to them, with their topics.\<close>

definition quiet :: "('e \<Rightarrow> 'a \<times> 'e) \<Rightarrow> 'l \<times> 'e \<Rightarrow> 'a \<times> 'l \<times> 'e" where
  "quiet f = (\<lambda>(log, e). (fst (f e), log, snd (f e)))"

definition noted :: "'m \<Rightarrow> ('e \<Rightarrow> 'a \<times> 'e) \<Rightarrow> 'm list \<times> 'e \<Rightarrow> 'a \<times> 'm list \<times> 'e" where
  "noted m f = (\<lambda>(log, e). (fst (f e), log @ [m], snd (f e)))"

definition sending :: "'e kafka_libs \<Rightarrow> ((string \<times> string) list \<times> 'e) kafka_libs" where
  "sending L = \<lparr> kl_NewAdminClient = (\<lambda>s. quiet (kl_NewAdminClient L s)), kl_GetMetadata = quiet (kl_GetMetadata L),
     kl_AdminClose = quiet (kl_AdminClose L), kl_NewProducer = (\<lambda>s. quiet (kl_NewProducer L s)),
     kl_Produce = (\<lambda>t m. noted (t, m) (kl_Produce L t m)), kl_Flush = (\<lambda>n. quiet (kl_Flush L n)), kl_Close = quiet (kl_Close L),
     kl_NewClient = (\<lambda>s. quiet (kl_NewClient L s)), kl_Topics = quiet (kl_Topics L),
     kl_NewAsyncProducerFromClient = quiet (kl_NewAsyncProducerFromClient L),
     kl_Input = (\<lambda>t m. noted (t, m) (kl_Input L t m)), kl_AsyncClose = quiet (kl_AsyncClose L) \<rparr>"

text \<open>A computation sends messages such that \<open>P\<close> holds of its result and them.\<close>

definition sends :: "(('m list \<times> 'e) tool, 'a) io \<Rightarrow> ('a res \<Rightarrow> 'm list \<Rightarrow> bool) \<Rightarrow> bool" where
  "sends c P \<longleftrightarrow> (\<forall>w. \<exists>ms. fst (to_ext (snd (c w))) = fst (to_ext w) @ ms \<and> P (fst (c w)) ms)"

lemma sends_weaken: "sends c Q \<Longrightarrow> (\<And>r ms. Q r ms \<Longrightarrow> P r ms) \<Longrightarrow> sends c P"
  unfolding sends_def by blast

lemma sends_simple:
  "P (Ret x) [] \<Longrightarrow> sends (return x) P"
  "P (Panic p) [] \<Longrightarrow> sends (panicIO p) P"
  "(\<And>x. P (Ret x) []) \<Longrightarrow> sends (getsIO f) P"
  "Q (Ret ()) [] \<Longrightarrow> sends (printIO line) Q"
  "Q (Ret ()) [] \<Longrightarrow> sends (modifyIO (\<lambda>w. w\<lparr>to_bootstrapServers := s\<rparr>)) Q"
  "(\<And>e. P (Ret (fst (g e))) []) \<Longrightarrow> sends (callIO (quiet g)) P"
  "(\<And>e. P (Ret (fst (g e))) [m]) \<Longrightarrow> sends (callIO (noted m g)) P"
  by (auto simp: sends_def printIO_def callIO_def quiet_def noted_def split_beta)

lemma sends_bind:
  assumes "sends c Q" "\<And>x ms. Q (Ret x) ms \<Longrightarrow> sends (k x) (\<lambda>r ms'. P r (ms @ ms'))" "\<And>p ms. Q (Panic p) ms \<Longrightarrow> P (Panic p) ms"
    "\<And>ms. \<not> Q NoFuel ms"
  shows "sends (bindIO c k) P"
  unfolding sends_def
proof (intro allI)
  fix w
  from assms(1) obtain ms where ms: "fst (to_ext (snd (c w))) = fst (to_ext w) @ ms" "Q (fst (c w)) ms"
    unfolding sends_def by blast
  show "\<exists>ms. fst (to_ext (snd (bindIO c k w))) = fst (to_ext w) @ ms \<and> P (fst (bindIO c k w)) ms"
  proof (cases "c w")
    case (Pair r w1)
    show ?thesis
    proof (cases r)
      case (Ret x)
      with ms(2) Pair have "sends (k x) (\<lambda>r ms'. P r (ms @ ms'))" by (intro assms(2)) simp
      then obtain ms' where "fst (to_ext (snd (k x w1))) = fst (to_ext w1) @ ms'" "P (fst (k x w1)) (ms @ ms')"
        unfolding sends_def by blast
      with ms Pair Ret show ?thesis by (auto simp: bindIO_def)
    qed (use ms Pair assms(3,4) in \<open>auto simp: bindIO_def\<close>)
  qed
qed

lemma sends_then:
  assumes "sends c (\<lambda>r ms'. r = Ret () \<and> ms' = ms)" "sends k (\<lambda>r ms'. P r (ms @ ms'))"
  shows "sends (thenIO c k) P"
  unfolding thenIO_def using assms(2) by (intro sends_bind[OF assms(1)]) auto

lemma sends_for:
  assumes "\<And>x. sends (f x) (\<lambda>r ms. r = Ret () \<and> ms = g x)"
  shows "sends (forIO f xs) (\<lambda>r ms. r = Ret () \<and> ms = concat (map g xs))"
proof (induction xs)
  case (Cons x xs)
  then show ?case by (auto intro!: sends_then[OF assms] elim!: sends_weaken)
qed (simp add: sends_def)

text \<open>Rules for the steps of the tests.\<close>

lemma sends_steps:
  "(\<And>x. sends (k x) P) \<Longrightarrow> sends (bindIO (getsIO f) k) P"
  "(\<And>e. sends (k (fst (g e))) P) \<Longrightarrow> sends (bindIO (callIO (quiet g)) k) P"
  "sends k' P \<Longrightarrow> sends (thenIO (printIO line) k') P"
  "sends k' P \<Longrightarrow> sends (thenIO (modifyIO (\<lambda>w. w\<lparr>to_bootstrapServers := s\<rparr>)) k') P"
  "(b \<Longrightarrow> sends c P) \<Longrightarrow> (\<not> b \<Longrightarrow> sends d P) \<Longrightarrow> sends (if b then c else d) P"
  "(z = None \<Longrightarrow> sends c P) \<Longrightarrow> (\<And>y. z = Some y \<Longrightarrow> sends (h y) P) \<Longrightarrow> sends (case z of None \<Rightarrow> c | Some y \<Rightarrow> h y) P"
proof -
  show "sends (bindIO (getsIO f) k) P" if "\<And>x. sends (k x) P"
    using that by (intro sends_bind[where Q = "\<lambda>r ms. is_Ret r \<and> ms = []"] sends_simple) auto
  show "sends (bindIO (callIO (quiet g)) k) P" if "\<And>e. sends (k (fst (g e))) P"
    using that by (intro sends_bind[where Q = "\<lambda>r ms. (\<exists>e. r = Ret (fst (g e))) \<and> ms = []"] sends_simple) auto
  show "sends (thenIO (printIO line) k') P" if "sends k' P"
    using that by (intro sends_then[where ms = "[]"] sends_simple) auto
  show "sends (thenIO (modifyIO (\<lambda>w. w\<lparr>to_bootstrapServers := s\<rparr>)) k') P" if "sends k' P"
    using that by (intro sends_then[where ms = "[]"] sends_simple) auto
qed (auto split: option.split)

lemma sends_silent:
  assumes "\<And>x. sends (h x) (\<lambda>r ms. r = Ret () \<and> ms = [])"
  shows "sends (forIO h xs) (\<lambda>r ms. r = Ret () \<and> ms = [])"
  by (rule sends_weaken[OF sends_for[where g = "\<lambda>x. []", OF assms]]) auto

lemma sends_prints:
  assumes "sends k P"
  shows "sends (thenIO (forIO (\<lambda>x. printIO (f x)) xs) k) P" "sends (thenIO (forIO (\<lambda>(x, y). printIO (g x y)) ys) k) P"
  using assms by (auto intro!: sends_then[OF sends_silent] sends_simple)

definition test_messages :: "string \<Rightarrow> (string \<times> string) list" where
  "test_messages c = map (\<lambda>i. (kafkaTopic, test_payload c i)) [1..<Suc iterationCount]"

lemma sends_tests:
  assumes "sends k (\<lambda>r ms. P r (test_messages c @ ms))" "\<And>i. sends (f i) (\<lambda>r ms. r = Ret () \<and> ms = [(kafkaTopic, test_payload c i)])"
  shows "sends (thenIO (forIO f [1..<Suc iterationCount]) k) P"
proof (rule sends_then[OF _ assms(1)])
  have "concat (map (\<lambda>i. [g i]) xs) = map g xs" for g :: "nat \<Rightarrow> 'x" and xs by (induction xs) simp_all
  with sends_for[of f, OF assms(2), where xs = "[1..<Suc iterationCount]"]
  show "sends (forIO f [1..<Suc iterationCount]) (\<lambda>r ms. r = Ret () \<and> ms = test_messages c)" by (simp add: test_messages_def)
qed

text \<open>Libraries that connect.\<close>

definition accepting :: "'e kafka_libs \<Rightarrow> bool" where
  "accepting L \<longleftrightarrow> (\<forall>s e. fst (kl_NewAdminClient L s e)) \<and> (\<forall>e. fst (kl_GetMetadata L e) \<noteq> None)
     \<and> (\<forall>s e. fst (kl_NewProducer L s e) = None) \<and> (\<forall>s e. fst (kl_NewClient L s e))
     \<and> (\<forall>e. fst (kl_NewAsyncProducerFromClient L e))"

lemma refusing:
  "\<not> fst (kl_NewAdminClient L s e) \<Longrightarrow> \<not> accepting L" "fst (kl_GetMetadata L e) = None \<Longrightarrow> \<not> accepting L"
  "fst (kl_NewProducer L s e) = Some p \<Longrightarrow> \<not> accepting L" "\<not> fst (kl_NewClient L s e) \<Longrightarrow> \<not> accepting L"
  "\<not> fst (kl_NewAsyncProducerFromClient L e) \<Longrightarrow> \<not> accepting L"
  unfolding accepting_def by (metis option.distinct(1))+

lemma sends_produced:
  "sends (bindIO (callIO (noted m g)) (\<lambda>_. return ())) (\<lambda>r ms. r = Ret () \<and> ms = [m])"
  by (rule sends_bind[where Q = "\<lambda>r ms. is_Ret r \<and> ms = [m]"]) (auto intro: sends_simple)

lemma testConfluent_sends:
  "sends (testConfluent (sending L) host port) (\<lambda>r ms. (r = Ret () \<and> (ms = test_messages ''Confluent'' \<or> ms = [] \<and> \<not> accepting L))
     \<or> (\<exists>p. r = Panic p) \<and> ms = [] \<and> \<not> accepting L)"
  unfolding testConfluent_def Let_def sending_def kafka_libs.simps
  by (intro sends_steps sends_prints sends_tests[where c = "''Confluent''"] sends_simple sends_produced) (auto dest: refusing)

lemma testSarama_sends:
  "sends (testSarama (sending L)) (\<lambda>r ms. r = Ret () \<and> (ms = test_messages ''Sarama'' \<or> ms = [] \<and> \<not> accepting L))"
  unfolding testSarama_def Let_def sending_def kafka_libs.simps
  by (intro sends_steps sends_prints sends_tests[where c = "''Sarama''"] sends_simple) (auto dest: refusing)

lemma main_sends:
  "sends (kafka_tool_main (sending L) host port) (\<lambda>r ms.
     \<exists>confluent \<in> {[], test_messages ''Confluent''}. \<exists>sarama \<in> {[], test_messages ''Sarama''}. ms = confluent @ sarama
       \<and> (r \<noteq> Ret () \<longrightarrow> ms = []) \<and> (accepting L \<longrightarrow> r = Ret () \<and> ms = test_messages ''Confluent'' @ test_messages ''Sarama''))"
  (is "sends _ ?P")
proof -
  let ?sarama = "thenIO (printIO []) (thenIO (printIO []) (thenIO (printIO ''---SARAMA---'') (testSarama (sending L))))"
  have "sends ?sarama (\<lambda>r ms'. ?P r (ms @ ms'))"
    if "ms = test_messages ''Confluent'' \<or> ms = [] \<and> \<not> accepting L" for ms
    using that by (intro sends_steps(3) sends_weaken[OF testSarama_sends]) auto
  then have "sends (thenIO (testConfluent (sending L) host port)  ?sarama) ?P"
    unfolding thenIO_def[of "testConfluent (sending L) host port"]
    by (intro sends_bind[OF testConfluent_sends]) auto
  then show ?thesis unfolding kafka_tool_main_def by (intro sends_steps)
qed

section \<open>Property\<close>

text \<open>
  C27: the Kafka tool sends events that the collector would publish to the same topic. For each of the two
  libraries all the test messages are sent, in order, or none; when both connect, all are. And each of the
  messages, posted to the collector's REST interface, decodes to one event, which the collector
  publishes to the topic of the tool, once to every broker with that topic.
\<close>

theorem tool_sends_events:
  "(\<exists>ms. fst (to_ext (snd (kafka_tool_main (sending L) host port w))) = fst (to_ext w) @ ms
      \<and> (\<exists>confluent \<in> {[], test_messages ''Confluent''}. \<exists>sarama \<in> {[], test_messages ''Sarama''}. ms = confluent @ sarama)
      \<and> (accepting L \<longrightarrow> fst (kafka_tool_main (sending L) host port w) = Ret ()
           \<and> ms = test_messages ''Confluent'' @ test_messages ''Sarama''))
   \<and> unmarshalEvents (test_payload ''Confluent'' i) = Some (test_events ''Confluent'' i)
   \<and> unmarshalEvents (test_payload ''Sarama'' i) = Some (test_events ''Sarama'' i)
   \<and> map (\<lambda>(address, topic, key, text). (address, topic)) (request_publications brokers (test_events c i))
       = map (\<lambda>b. (kb_BrokerAddress b, kafkaTopic)) (filter (\<lambda>b. kafkaTopic \<in> set (kb_TopicsToPublish b)) brokers)"
proof -
  have plain: "plain_text ''Confluent''" "plain_text ''Sarama''" by code_simp+
  have topic: "rest_topic ''CrayAlerts.1.0.ResourcePowerStateChanged'' = Some kafkaTopic" by code_simp
  have "\<exists>ms. fst (to_ext (snd (kafka_tool_main (sending L) host port w))) = fst (to_ext w) @ ms
      \<and> (\<exists>confluent \<in> {[], test_messages ''Confluent''}. \<exists>sarama \<in> {[], test_messages ''Sarama''}. ms = confluent @ sarama)
      \<and> (accepting L \<longrightarrow> fst (kafka_tool_main (sending L) host port w) = Ret ()
           \<and> ms = test_messages ''Confluent'' @ test_messages ''Sarama'')"
    using main_sends[of L host port] unfolding sends_def by blast
  with test_decoded[OF plain(1), of i] test_decoded[OF plain(2), of i] topic show ?thesis
    by (simp add: request_publications_def event_publications_def test_events_def comp_def split_beta)
qed

text \<open>Libraries that accept everything and know one topic.\<close>

definition willing_libs :: "unit kafka_libs" where
  "willing_libs = \<lparr> kl_NewAdminClient = (\<lambda>s e. (True, e)), kl_GetMetadata = (\<lambda>e. (Some [(kafkaTopic, 3)], e)),
     kl_AdminClose = (\<lambda>e. ((), e)), kl_NewProducer = (\<lambda>s e. (None, e)), kl_Produce = (\<lambda>t m e. (True, e)),
     kl_Flush = (\<lambda>n e. (0, e)), kl_Close = (\<lambda>e. ((), e)), kl_NewClient = (\<lambda>s e. (True, e)),
     kl_Topics = (\<lambda>e. ([kafkaTopic], e)), kl_NewAsyncProducerFromClient = (\<lambda>e. (True, e)),
     kl_Input = (\<lambda>t m e. ((), e)), kl_AsyncClose = (\<lambda>e. ((), e)) \<rparr>"

theorem tool_sends_events_witness:
  "fst (to_ext (snd (kafka_tool_main (sending willing_libs) ''kafka'' 9092 \<lparr> to_bootstrapServers = [], to_lines = [], to_ext = ([], ()) \<rparr>)))
     = test_messages ''Confluent'' @ test_messages ''Sarama''"
proof -
  have "accepting willing_libs" by (simp add: accepting_def willing_libs_def)
  with tool_sends_events[of willing_libs "''kafka''" 9092 "\<lparr> to_bootstrapServers = [], to_lines = [], to_ext = ([], ()) \<rparr>" 1 "[]" "''Sarama''"]
  show ?thesis by auto
qed

end
