(* ===== verification/Spec2Isabelle.thy ===== *)
theory Spec2Isabelle
  imports Deletions SubscribeMachine Rest Polling Hsm JsonRoundtrip Echo Startup PollMachine Lifecycle
    PassMachine Pipeline Program System Memo Describe EchoServer KafkaTool
begin

text \<open>
  The HMS collector (\<^verbatim>\<open>hms-hmcollector\<close>) gathers telemetry and events from the management controllers
  (BMCs) of a system and publishes them to Kafka. One process does it in two ways. It polls River hardware: a monitor
  classifies the endpoints that the State Manager lists, collectors read their power and thermal
  resources over Redfish at an interval, and workers publish the readings. And it subscribes: a monitor asks the BMCs of all
  endpoints to push their events to its REST interface, verifies and repairs the subscriptions, and the
  handler of the interface publishes what is pushed. This development models the code of
  \<^verbatim>\<open>cmd/hmcollector\<close> and \<^verbatim>\<open>internal/\<close>, with the part of the vendored package \<^verbatim>\<open>hms-xname\<close> it calls, and the two
  test tools beside it.

  \<^bold>\<open>Conventions.\<close> A Go function with side effects is a value of type \<open>('w, 'a) io\<close> (\<^verbatim>\<open>Prelude\<close>): it
  takes the state and returns a result (a value, a run-time panic with its cause, or exhausted fuel)
  and the state, and a panic keeps the effects made before it. The package variables are the record \<open>world\<close>
  (\<^verbatim>\<open>World\<close>); what Go shares by pointer (endpoint descriptions, statuses, prefix groups, sensor maps, contact times)
  lives behind addresses in it, so that aliasing between goroutines is explicit. The flags and what is
  not in the repository (the HTTP client, Vault, the producers, the clock, the order in which a Go map is visited, the
  numbering of subscriptions) are the record \<open>env\<close>, functions on an abstract outside state; start-up
  has its own such record \<open>boot\<close>. Errors are options and sums, every early return a
  branch. Go's standard library is modelled as far as the code uses it; \<^verbatim>\<open>unicode\<close> and \<^verbatim>\<open>strings.ToLower\<close>,
  \<^verbatim>\<open>EqualFold\<close> and \<^verbatim>\<open>TrimSpace\<close> are exact for ASCII. Log output is not part of the state.

  \<^bold>\<open>Theories, bottom up.\<close>
  \<^item> \<^verbatim>\<open>Prelude\<close>: computations and their evaluation, frame conditions (\<open>keeps\<close>) and invariants (\<open>always\<close>).
  \<^item> \<^verbatim>\<open>GoStrings\<close>, \<^verbatim>\<open>Float64\<close>, \<^verbatim>\<open>Url\<close>, \<^verbatim>\<open>Json\<close>, \<^verbatim>\<open>JsonDecode\<close>: the standard library (\<^verbatim>\<open>strings\<close>, \<^verbatim>\<open>strconv\<close> with
    correctly rounded doubles, \<^verbatim>\<open>net/url\<close>, \<^verbatim>\<open>encoding/json\<close>).
  \<^item> \<^verbatim>\<open>Xname\<close>: \<^verbatim>\<open>GetHMSType\<close> with its table of patterns and \<^verbatim>\<open>NormalizeHMSCompID\<close>.
  \<^item> \<^verbatim>\<open>Redfish\<close>: the structs of \<^verbatim>\<open>internal/hmcollector/redfish.go\<close> and \<^verbatim>\<open>defs.go\<close> with their decoders and
    encoders; \<^verbatim>\<open>JsonRoundtrip\<close>: what is printed is read back.
  \<^item> \<^verbatim>\<open>World\<close>: the shared state. \<^verbatim>\<open>Http\<close>: \<^verbatim>\<open>doHTTPAction\<close> (\<^verbatim>\<open>http.go\<close>) and the credentials (\<^verbatim>\<open>vault.go\<close>).
    \<^verbatim>\<open>RfType\<close>: \<^verbatim>\<open>cache.go\<close>, \<^verbatim>\<open>rf.go\<close>, \<^verbatim>\<open>init.go\<close>. \<^verbatim>\<open>Hsm\<close>: one pass of \<^verbatim>\<open>doUpdateHSMEndpoints\<close> with \<^verbatim>\<open>smd_api.go\<close>.
  \<^item> \<^verbatim>\<open>River\<close>: \<^verbatim>\<open>internal/river_collector\<close>, the five collectors behind one interface.
    \<^verbatim>\<open>Polling\<close>: classification, collection and publication (\<^verbatim>\<open>polling.go\<close>). \<^verbatim>\<open>PassMachine\<close>: the goroutines of a pass
    of \<^verbatim>\<open>monitorPollingEndpoints\<close>, and \<^verbatim>\<open>PollMachine\<close>: the worker pool of \<^verbatim>\<open>doPolling\<close>, as step relations.
  \<^item> \<^verbatim>\<open>Subscriptions\<close>: the functions of \<^verbatim>\<open>rf_subscriptions.go\<close> for one endpoint; \<^verbatim>\<open>Deletions\<close>: which
    subscriptions they delete; \<^verbatim>\<open>Echo\<close>: creating and recognising a subscription. \<^verbatim>\<open>SubscribeMachine\<close>: the three
    goroutines of the monitor as a step relation.
  \<^item> \<^verbatim>\<open>Kafka\<close>: \<^verbatim>\<open>writeToKafka\<close> and the filter for logging. \<^verbatim>\<open>Rest\<close>: the handlers of \<^verbatim>\<open>rest.go\<close>. \<^verbatim>\<open>Pipeline\<close>: a polled
    answer and a pushed request followed to the messages they lead to.
  \<^item> \<^verbatim>\<open>Startup\<close>: \<^verbatim>\<open>setupKafka\<close>, \<^verbatim>\<open>monitorSMA\<close>, \<^verbatim>\<open>setupVault\<close>, \<^verbatim>\<open>createRFClient\<close>, \<^verbatim>\<open>SetupLogging\<close> and the log adapter.
    \<^verbatim>\<open>Program\<close>: the set-up of \<^verbatim>\<open>main\<close>, the routes of the HTTP server (\<^verbatim>\<open>doRest\<close>), \<^verbatim>\<open>handleKafkaEvents\<close>, the final flush.
    \<^verbatim>\<open>Lifecycle\<close>: \<^verbatim>\<open>main\<close> from there on, its signal handler and the outer loops as a step relation.
  \<^item> \<^verbatim>\<open>System\<close>: the running process, the three machines and the life of the process on one shared state, with the refreshes,
    the requests to the server, the watch of the SMA broker and the renewal of the client. \<^verbatim>\<open>Memo\<close>: the cache of Redfish
    kinds in the running process. \<^verbatim>\<open>Describe\<close>: the \<^verbatim>\<open>String\<close> methods.
  \<^item> \<^verbatim>\<open>JsonIndent\<close>: \<^verbatim>\<open>json.Indent\<close> keeps the value of a text. \<^verbatim>\<open>EchoServer\<close>, \<^verbatim>\<open>KafkaTool\<close>: the test tools
    (\<^verbatim>\<open>cmd/echo_server\<close>, \<^verbatim>\<open>cmd/kafka_tool\<close>).

  \<^bold>\<open>Interfaces.\<close> \<open>river_collector\<close> states what every collector promises (well-formed events, nothing
  changed but remembered power states) and is interpreted on all five parsers and on the dispatch;
  \<open>type_cache\<close> is the contract of the cache of Redfish kinds; \<open>http_frame\<close>, with its extensions \<open>poll_frame\<close>
  and \<open>sub_frame\<close>, is the contract of a part of the state that requests leave alone, interpreted once per
  such part; \<open>part\<close> is a component with its own moves that tolerates what it relies on from the others, and is interpreted on the
  three machines, \<open>pass_guarantee\<close>, \<open>pool_guarantee\<close>, \<open>monitor_guarantee\<close> and \<open>service_guarantee\<close> what each of them and the
  other goroutines leave alone; \<open>recorded\<close>, \<open>message_log\<close> and \<open>vault_answers\<close> describe an outside world that keeps a history, of the
  requests, of the messages and of the answers of Vault, and are interpreted on recording versions of the environment.

  \<^bold>\<open>What is shown.\<close> Publication: a request to the REST interface, a message, a polled answer
  lead to exactly the messages they should, in order, on the topics and brokers configured, and the two ways
  agree. Endpoints: a refresh keeps what is known, each endpoint is classified once, a new endpoint has the credentials
  Vault last gave for it, and a cached kind is kept until the next discovery. Subscriptions: what may be deleted, which
  subscription is the collector's own, that the monitor's statuses, channels and goroutines stay
  consistent, that every scan ends and visits every endpoint, and which endpoints are given up. The worker pool loses nothing and can always go on while it runs.
  Start-up makes the collector ready, and shutdown is orderly. The whole process: each part runs as it does alone, a
  process that was set up stays ready, its readings get through, and it works only on endpoints of the State Manager. The error
  properties state the panics and races of the code as it is. The tools print and send what they should.

  \<^bold>\<open>Bounds and fuel.\<close> \<^verbatim>\<open>doHTTPAction\<close> has the fuel \<open>httpFuel\<close>, of which two rounds are enough when Vault answers the same for
  the same endpoint (shown); a property that assumes a result holds for every Vault. The JSON parser has twice the length of its input as fuel, and what it
  reads with any fuel it reads with as much as the input it consumes (\<open>fuel_enough\<close> in \<^verbatim>\<open>JsonIndent\<close>); nesting is limited to 10000 as in Go. The connections at start-up are retried
  up to \<open>bt_fuel\<close> times; more fuel does not change an attempt that ended. Indices of readings keep their
  16 bits: those parsed from a member identifier are between 0 and 255, those of the branches of a PDU between -64 and 191, and those of the
  phases of a PDU count from 0.

  \<^bold>\<open>Simplifications.\<close> In the step relations the requests of one collection, one classification, one subscription
  attempt's group, or one verification are one step each; everything else interleaves. The function
  \<open>monitorPollingEndpoints\<close> runs the goroutines of a pass one after another, in the order in which the map is
  visited; that is shown to be one of the runs of \<^verbatim>\<open>PassMachine\<close>. Each machine allows the rest of the program to
  change the shared state at any time, except what only the machine itself may change: the channel of payloads, the lists of classified
  endpoints, the records of subscriptions. That the rest of the program keeps to this is shown in \<^verbatim>\<open>System\<close>. There a panic of a goroutine ends
  the process, a panic in the handler of a request only that request; a step of the process is a whole request, refresh or test of the
  SMA broker. The requests that arrive during the set-up come before it or after it.
  A panic of a goroutine of the subscription monitor, which in Go ends the process, has no step: the goroutine stays where it is.
  \<^verbatim>\<open>logger.Fatal\<close> of \<^verbatim>\<open>monitorSMA\<close>, when the address of the SMA broker has no port, has no step either, and \<^verbatim>\<open>handleKafkaEvents\<close>, which
  only logs, is not part of \<^verbatim>\<open>System\<close>. In \<^verbatim>\<open>Lifecycle\<close> the returns of \<^verbatim>\<open>ListenAndServe\<close> and of \<^verbatim>\<open>Shutdown\<close> are one step, and the
  endless loop of \<^verbatim>\<open>monitorSMA\<close> and the workers, which nothing waits for, are not among its loops; nor is a panic, which ends the process in any
  phase. In the patterns of xnames the dot of a partition's matches one byte, in Go one character.

  \<^bold>\<open>Not modelled.\<close> Of \<^verbatim>\<open>net/http\<close> only the routing and the shutdown of the server; log lines; profiling, which is
  an import for its side effect; in the test tools the usage text and the printing of errors and of the values of the Kafka libraries; vendored packages but for the functions
  of \<^verbatim>\<open>hms-xname\<close> named above. What is left of the repository's own code are these outputs, declarations and the unit tests, about which
  there is nothing to state but the text itself.
\<close>

section \<open>Xnames\<close>

text \<open>
  The kind of an xname does not depend on the order in which the recognition table is visited.
  \<^verbatim>\<open>GetHMSType\<close> ranges over a Go map, whose order is random; whatever list with the entries of the
  table is searched, and in whatever order, the answer is the same, for every string.
\<close>

theorem xname_kind_deterministic:
  assumes "set tbl = set hmsCompRecognitionTable"
  shows "GetHMSType_in tbl xname = GetHMSType xname"
  using assms by (rule GetHMSType_in_set)

theorem xname_kind_deterministic_witness:
  "GetHMSType_in (rev hmsCompRecognitionTable) ''x3000c0s1b0'' = GetHMSType ''x3000c0s1b0''"
  by (rule xname_kind_deterministic) simp

text \<open>
  Normalising an xname twice is normalising it once, so that comparing normalised xnames, as the
  pruning of subscriptions does, is comparing representatives.
\<close>

theorem normalise_idempotent:
  "NormalizeHMSCompID (NormalizeHMSCompID xname) = NormalizeHMSCompID xname"
  by (rule Normalize_idem)

section \<open>The two ways a reading takes to Kafka\<close>

text \<open>
  A reading goes to the same Kafka topic whether it was polled or pushed: for every message
  identifier the polling workers have a topic for, the REST handler chooses the same topic.
\<close>

theorem topics_agree:
  assumes "polling_topic i = Some t"
  shows "rest_topic i = Some t"
  using assms by (rule polling_topic_rest_topic)

theorem topics_agree_witness: "rest_topic EnergyMessageID = Some ''cray-telemetry-energy''"
  by (rule topics_agree) code_simp

text \<open>
  C26: events pushed to the destination of a subscription are attributed to the endpoint that was
  subscribed. The destination computed for an endpoint ends in its xname; with the REST interface
  enabled, a request to the server for that path, by any method, whose body names no context reaches the
  handler of events, is answered 200 and publishes its events exactly as if it had named the xname.
\<close>

theorem pushed_events_attributed:
  fixes v :: "((string \<times> kafka_message) list \<times> 'e) world"
  assumes "restURL E = ''http://'' @ h" "plain_host h" "list_all plain_char (ep_ID (w_ep w p))" "ep_ID (w_ep w p) \<noteq> []"
    and "CHR ''.'' \<notin> set (ep_ID (w_ep w p))" "ep_ID (w_ep w p) \<notin> {''readiness'', ''liveness'', ''health''}" "restEnabled E"
    and "getDestination E p w = (Ret d, w')"
    and "unmarshalEvents b = Some events" "evs_Context events = []"
    and "\<not> IgnoreProvidedTimestamp E" "brokers_ready (w_kafkaBrokers v)"
    and "serve (logging E) meth (''/'' @ ep_ID (w_ep w p)) (''/'' @ ep_ID (w_ep w p)) (Some b) v = (r, v')"
  shows "(\<exists>origin. d = origin @ ''/'' @ ep_ID (w_ep w p)) \<and> r = Ret (Served (200, [])) \<and>
     map publication_of (fst (w_ext v')) = map publication_of (fst (w_ext v)) @
       request_publications (w_kafkaBrokers v) (events\<lparr>evs_Context := ep_ID (w_ep w p)\<rparr>)"
proof -
  obtain s where "d = s @ ''://'' @ (h @ port_suffix E) @ ''/'' @ ep_ID (w_ep w p)"
    using getDestination_plain[OF assms(1-3,8)] .
  then have "d = (s @ ''://'' @ h @ port_suffix E) @ ''/'' @ ep_ID (w_ep w p)" by simp
  moreover have "CHR ''/'' \<notin> set (ep_ID (w_ep w p))"
    using assms(3) plain_char_simps(2) unfolding list_all_iff by blast
  then have "filepathBase (''/'' @ ep_ID (w_ep w p)) = ep_ID (w_ep w p)"
    using filepathBase_slash[OF assms(4), of "[]"] by simp
  then have named: "with_context (''/'' @ ep_ID (w_ep w p)) events = events\<lparr>evs_Context := ep_ID (w_ep w p)\<rparr>"
    using assms(10) by (simp add: with_context_def)
  have "restEnabled (logging E)" using assms(7) by (simp add: logging_def)
  from destination_routed[OF this assms(3-6)] assms(13)
  have "bindIO (parseRequest (logging E) (''/'' @ ep_ID (w_ep w p)) (Some b)) (\<lambda>r. return (Served r)) v = (r, v')"
    by simp
  with parseRequest_log[OF assms(9,11,12) prod.collapse[symmetric], of "''/'' @ ep_ID (w_ep w p)"]
  have "r = Ret (Served (200, []))" "map publication_of (fst (w_ext v')) = map publication_of (fst (w_ext v)) @
       request_publications (w_kafkaBrokers v) (with_context (''/'' @ ep_ID (w_ep w p)) events)"
    by (auto simp: bindIO_def split: prod.splits res.splits)
  ultimately show ?thesis by (auto simp only: named)
qed

theorem pushed_events_attributed_witness:
  "map (\<lambda>(a, t, k, v). (a, t, k)) (map publication_of (fst (w_ext (snd
     (serve (logging env0) ''POST'' (''/'' @ ''x3000c0s1b0'') (''/'' @ ''x3000c0s1b0'') (Some fan_post) two_brokers))))) =
     [(''sma'', ''cray-telemetry-fan'', Some ''x3000c0s1b0.CrayTelemetry.Fan'')]"
proof -
  have dest: "getDestination env0 0 plain_world =
      (Ret ''http://10.94.100.71/x3000c0s1b0'', snd (getDestination env0 0 plain_world))"
    by (simp add: prod_eq_iff plain_destination)
  have host: "plain_host ''10.94.100.71''" "list_all plain_char ''x3000c0s1b0''" by code_simp+
  have topic: "rest_topic ''CrayTelemetry.Fan'' = Some ''cray-telemetry-fan''" by code_simp
  have cfg: "restURL (env0 :: unit env) = ''http://'' @ ''10.94.100.71''" "\<not> IgnoreProvidedTimestamp (env0 :: unit env)"
    "brokers_ready (w_kafkaBrokers two_brokers)" "fst (w_ext two_brokers) = []" "restEnabled (env0 :: unit env)"
    by (simp_all add: env0_def two_brokers_def brokers_ready_def world0_def)
  have id: "ep_ID (w_ep plain_world 0) = ''x3000c0s1b0''" by (simp add: plain_world_def)
  have "evs_Context (events_zero\<lparr>evs_Events := [event_zero\<lparr>ev_MessageId := ''CrayTelemetry.Fan'',
     ev_OriginOfCondition := Some \<lparr>rid_Oid = ''/Fans/1''\<rparr>\<rparr>]\<rparr>) = []" by (simp add: events_zero_def)
  from pushed_events_attributed[OF cfg(1) host(1) _ _ _ _ cfg(5) dest fan_post_events this cfg(2,3), unfolded id,
      OF host(2) _ _ _ prod.collapse[symmetric]]
  show ?thesis using topic cfg(4)
    by (simp add: request_publications_def event_publications_def two_brokers_def)
qed

end
